(* ===== verification/Peat_Prelude.thy ===== *)
theory Peat_Prelude
  imports Main "HOL-Library.Word" "HOL-Library.Sublist" "HOL-Library.AList"
    "HOL-Library.List_Lexorder" "HOL-Library.Char_ord" "HOL-Library.Product_Lexorder"
begin

text \<open>
  Shared vocabulary of the development: bytes and machine integers, the parts of Rust's
  standard library that several components use (big-endian codecs, \<open>chunks_exact\<close>, UTF-8
  validation, \<open>split_once\<close>, \<open>strip_prefix\<close>, \<open>trim\<close>), association lists standing for
  \<open>HashMap\<close>, and the generic lemmas about them.  Rust strings are UTF-8 byte sequences;
  they are modelled as \<^typ>\<open>string\<close>, one \<^typ>\<open>char\<close> per byte, so that \<open>length\<close> is
  \<open>str::len\<close>.
\<close>

section \<open>Names of the model's basic types\<close>

type_synonym byte = "8 word"
type_synonym bytes = "byte list"
type_synonym u64 = "64 word"

text \<open>Collections of rewrite rules the component proofs unfold.\<close>

named_theorems std_simps "unfolding rules for the standard-library helpers"
named_theorems codec_simps "lengths and slices of encoded headers and records"

section \<open>Unsigned 64-bit counters\<close>

definition sat_add :: "u64 \<Rightarrow> u64 \<Rightarrow> u64" where
  "sat_add a b = (if unat a + unat b < 2 ^ 64 then a + b else - 1)"

definition sat_sub :: "u64 \<Rightarrow> u64 \<Rightarrow> u64" where
  "sat_sub a b = (if a < b then 0 else a - b)"

section \<open>Big-endian codecs and fixed-width chunks\<close>

fun be_bytes :: "nat \<Rightarrow> nat \<Rightarrow> bytes" where
  "be_bytes 0 x = []"
| "be_bytes (Suc n) x = be_bytes n (x div 256) @ [word_of_nat (x mod 256)]"

definition from_be :: "bytes \<Rightarrow> nat" where
  "from_be bs = foldl (\<lambda>a b. a * 256 + unat b) 0 bs"

function chunks_exact :: "nat \<Rightarrow> 'a list \<Rightarrow> 'a list list" where
  "chunks_exact n xs =
     (if n = 0 \<or> length xs < n then [] else take n xs # chunks_exact n (drop n xs))"
  by pat_completeness auto
termination
  by (relation "measure (\<lambda>(n, xs). length xs)") auto

declare chunks_exact.simps [simp del]

section \<open>Strings\<close>

definition as_bytes :: "string \<Rightarrow> bytes" where
  "as_bytes s = map (\<lambda>c. word_of_nat (of_char c)) s"

definition of_bytes :: "bytes \<Rightarrow> string" where
  "of_bytes bs = map (\<lambda>b. char_of (unat b)) bs"

definition is_cont :: "byte \<Rightarrow> bool" where
  "is_cont b \<longleftrightarrow> 0x80 \<le> b \<and> b \<le> 0xBF"

text \<open>Well-formed UTF-8, by the byte ranges \<open>str::from_utf8\<close> accepts.\<close>

fun utf8_valid :: "bytes \<Rightarrow> bool" where
  "utf8_valid [] = True"
| "utf8_valid (b # bs) =
     (if b < 0x80 then utf8_valid bs
      else if 0xC2 \<le> b \<and> b \<le> 0xDF then
        (case bs of c # r \<Rightarrow> is_cont c \<and> utf8_valid r | _ \<Rightarrow> False)
      else if 0xE0 \<le> b \<and> b \<le> 0xEF then
        (case bs of
           c # d # r \<Rightarrow> is_cont c \<and> (b = 0xE0 \<longrightarrow> 0xA0 \<le> c) \<and> (b = 0xED \<longrightarrow> c \<le> 0x9F)
             \<and> is_cont d \<and> utf8_valid r
         | _ \<Rightarrow> False)
      else if 0xF0 \<le> b \<and> b \<le> 0xF4 then
        (case bs of
           c # d # e # r \<Rightarrow> is_cont c \<and> (b = 0xF0 \<longrightarrow> 0x90 \<le> c) \<and> (b = 0xF4 \<longrightarrow> c \<le> 0x8F)
             \<and> is_cont d \<and> is_cont e \<and> utf8_valid r
         | _ \<Rightarrow> False)
      else False)"

definition starts_with :: "string \<Rightarrow> string \<Rightarrow> bool" where
  "starts_with s p \<longleftrightarrow> prefix p s"

definition strip_prefix :: "string \<Rightarrow> string \<Rightarrow> string option" where
  "strip_prefix s p = (if prefix p s then Some (drop (length p) s) else None)"

definition split_once :: "char \<Rightarrow> string \<Rightarrow> (string \<times> string) option" where
  "split_once c s =
     (if c \<in> set s then Some (takeWhile (\<lambda>x. x \<noteq> c) s, tl (dropWhile (\<lambda>x. x \<noteq> c) s)) else None)"

text \<open>The encodings of the code points \<open>char::is_whitespace\<close> accepts.\<close>

definition ws_encodings :: "string list" where
  "ws_encodings =
    [[CHR 0x09], [CHR 0x0A], [CHR 0x0B], [CHR 0x0C], [CHR 0x0D], [CHR 0x20],
     [CHR 0xC2, CHR 0x85], [CHR 0xC2, CHR 0xA0], [CHR 0xE1, CHR 0x9A, CHR 0x80],
     [CHR 0xE2, CHR 0x80, CHR 0x80], [CHR 0xE2, CHR 0x80, CHR 0x81],
     [CHR 0xE2, CHR 0x80, CHR 0x82], [CHR 0xE2, CHR 0x80, CHR 0x83],
     [CHR 0xE2, CHR 0x80, CHR 0x84], [CHR 0xE2, CHR 0x80, CHR 0x85],
     [CHR 0xE2, CHR 0x80, CHR 0x86], [CHR 0xE2, CHR 0x80, CHR 0x87],
     [CHR 0xE2, CHR 0x80, CHR 0x88], [CHR 0xE2, CHR 0x80, CHR 0x89],
     [CHR 0xE2, CHR 0x80, CHR 0x8A], [CHR 0xE2, CHR 0x80, CHR 0xA8],
     [CHR 0xE2, CHR 0x80, CHR 0xA9], [CHR 0xE2, CHR 0x80, CHR 0xAF],
     [CHR 0xE2, CHR 0x81, CHR 0x9F], [CHR 0xE3, CHR 0x80, CHR 0x80]]"

text \<open>
  UTF-8 is self-synchronising: in a valid string an encoding occurs only at character
  boundaries, so testing each byte position is testing each character.
\<close>

definition contains_whitespace :: "string \<Rightarrow> bool" where
  "contains_whitespace s \<longleftrightarrow> list_ex (\<lambda>t. list_ex (\<lambda>w. prefix w t) ws_encodings) (suffixes s)"

text \<open>Decimal digits, as \<open>str::parse\<close> reads them and \<open>to_string\<close> writes them.\<close>

definition digit_value :: "char \<Rightarrow> nat option" where
  "digit_value c = (if 48 \<le> (of_char c :: nat) \<and> (of_char c :: nat) \<le> 57 then Some (of_char c - 48) else None)"

fun digits_value :: "nat \<Rightarrow> string \<Rightarrow> nat option" where
  "digits_value acc [] = Some acc"
| "digits_value acc (c # cs) = (case digit_value c of None \<Rightarrow> None | Some d \<Rightarrow> digits_value (10 * acc + d) cs)"

definition parse_digits :: "string \<Rightarrow> nat option" where
  "parse_digits s = (if s = [] then None else digits_value 0 s)"

fun show_nat :: "nat \<Rightarrow> string" where
  "show_nat n = (if n < 10 then [char_of (48 + n)] else show_nat (n div 10) @ [char_of (48 + n mod 10)])"

declare show_nat.simps [simp del]

function trim_start :: "string \<Rightarrow> string" where
  "trim_start s =
     (case find (\<lambda>w. w \<noteq> [] \<and> prefix w s) ws_encodings of
        None \<Rightarrow> s | Some w \<Rightarrow> trim_start (drop (length w) s))"
  by pat_completeness auto
termination
  by (relation "measure length")
    (auto simp: find_Some_iff prefix_def)

declare trim_start.simps [simp del]

function trim_end :: "string \<Rightarrow> string" where
  "trim_end s =
     (case find (\<lambda>w. w \<noteq> [] \<and> suffix w s) ws_encodings of
        None \<Rightarrow> s | Some w \<Rightarrow> trim_end (take (length s - length w) s))"
  by pat_completeness auto
termination
  by (relation "measure length")
    (auto simp: find_Some_iff suffix_def)

declare trim_end.simps [simp del]

definition trim :: "string \<Rightarrow> string" where
  "trim s = trim_end (trim_start s)"

text \<open>\<open>Display\<close> of an unsigned integer.\<close>

fun decimal :: "nat \<Rightarrow> string" where
  "decimal n = (if n < 10 then [char_of (48 + n)] else decimal (n div 10) @ [char_of (48 + n mod 10)])"

declare decimal.simps [simp del]

definition is_ascii_alphanumeric :: "char \<Rightarrow> bool" where
  "is_ascii_alphanumeric c \<longleftrightarrow>
     (let n = of_char c :: nat in 48 \<le> n \<and> n \<le> 57 \<or> 65 \<le> n \<and> n \<le> 90 \<or> 97 \<le> n \<and> n \<le> 122)"

section \<open>Lemmas\<close>

subsection \<open>Counters\<close>

lemma unat_sat_add: "unat (sat_add a b) = min (unat a + unat b) (2 ^ 64 - 1)"
proof (cases "unat a + unat b < 2 ^ 64")
  case True
  then have "unat (a + b) = unat a + unat b" by (simp add: unat_word_ariths)
  with True show ?thesis by (simp add: sat_add_def min_def)
next
  case False
  have "unat (- 1 :: u64) = 2 ^ 64 - 1" by (simp add: unsigned_minus_1_eq_mask mask_eq_exp_minus_1)
  with False show ?thesis by (simp add: sat_add_def min_def)
qed

lemma unat_sat_sub: "unat (sat_sub a b) = unat a - unat b"
  by (auto simp: sat_sub_def word_less_nat_alt unat_sub word_le_nat_alt)

subsection \<open>Codecs\<close>

lemma length_be_bytes [simp]: "length (be_bytes n x) = n"
  by (induction n arbitrary: x) auto

lemma from_be_append: "from_be (bs @ [b]) = from_be bs * 256 + unat b"
  by (simp add: from_be_def)

lemma unat_byte_mod: "unat (word_of_nat (x mod 256) :: byte) = x mod 256"
  by (simp add: unat_of_nat)

lemma from_be_bytes: "x < 256 ^ n \<Longrightarrow> from_be (be_bytes n x) = x"
proof (induction n arbitrary: x)
  case 0
  then show ?case by (simp add: from_be_def)
next
  case (Suc n)
  from Suc.prems have "x div 256 < 256 ^ n"
    by (simp add: less_mult_imp_div_less mult.commute)
  then have "from_be (be_bytes n (x div 256)) = x div 256" by (rule Suc.IH)
  then show ?case by (simp add: from_be_append unat_byte_mod)
qed

lemma unat_byte_less: "unat (b :: byte) < 256"
  using unsigned_less [of b] by simp

lemma be_bytes_from_be: "be_bytes (length bs) (from_be bs) = bs"
proof (induction bs rule: rev_induct)
  case (snoc b bs)
  have "(from_be bs * 256 + unat b) div 256 = from_be bs"
    using unat_byte_less [of b] by simp
  moreover have "(from_be bs * 256 + unat b) mod 256 = unat b"
    using unat_byte_less [of b] by simp
  ultimately show ?case using snoc by (simp add: from_be_append)
qed simp

lemma from_be_less: "from_be bs < 256 ^ length bs"
proof (induction bs rule: rev_induct)
  case (snoc b bs)
  have "from_be bs * 256 + unat b < (from_be bs + 1) * 256"
    using unat_byte_less [of b] by simp
  also have "\<dots> \<le> 256 ^ length bs * 256" using snoc by (intro mult_right_mono) auto
  finally show ?case by (simp add: from_be_append)
qed (simp add: from_be_def)

lemma be_bytes_inject:
  assumes "x < 256 ^ n" and "y < 256 ^ n"
  shows "be_bytes n x = be_bytes n y \<longleftrightarrow> x = y"
  using from_be_bytes [OF assms(1)] from_be_bytes [OF assms(2)] by metis

lemma chunks_exact_Nil [simp]: "chunks_exact n [] = []"
  by (subst chunks_exact.simps) auto

lemma chunks_exact_append:
  "length c = n \<Longrightarrow> 0 < n \<Longrightarrow> chunks_exact n (c @ xs) = c # chunks_exact n xs"
  by (subst chunks_exact.simps) simp

lemma chunks_exact_short: "length xs < n \<Longrightarrow> chunks_exact n xs = []"
  by (subst chunks_exact.simps) simp

lemma chunks_exact_concat:
  "(\<And>c. c \<in> set cs \<Longrightarrow> length c = n) \<Longrightarrow> 0 < n \<Longrightarrow> length t < n
    \<Longrightarrow> chunks_exact n (concat cs @ t) = cs"
  by (induction cs) (auto simp: chunks_exact_append chunks_exact_short)

lemma length_concat_const:
  "(\<And>c. c \<in> set cs \<Longrightarrow> length c = n) \<Longrightarrow> length (concat cs) = n * length cs"
  by (induction cs) auto

subsection \<open>Strings\<close>

lemma length_as_bytes [simp]: "length (as_bytes s) = length s"
  by (simp add: as_bytes_def)

lemma length_of_bytes [simp]: "length (of_bytes bs) = length bs"
  by (simp add: of_bytes_def)

lemma as_bytes_of_bytes [simp]: "as_bytes (of_bytes bs) = bs"
proof (induction bs)
  case (Cons b bs)
  have "unat b < 256" by (rule unat_byte_less)
  then have "word_of_nat (unat b mod 256) = b" by simp
  with Cons show ?case by (simp add: as_bytes_def of_bytes_def of_char_of)
qed (simp add: as_bytes_def of_bytes_def)

lemma of_bytes_as_bytes [simp]: "of_bytes (as_bytes s) = s"
proof (induction s)
  case (Cons c s)
  have "(of_char c :: nat) < 256" by (cases c) simp
  then have "unat (word_of_nat (of_char c) :: byte) = of_char c"
    by (simp add: unat_of_nat)
  with Cons show ?case by (simp add: as_bytes_def of_bytes_def)
qed (simp add: as_bytes_def of_bytes_def)

lemma as_bytes_inject [simp]: "as_bytes s = as_bytes t \<longleftrightarrow> s = t"
  by (metis of_bytes_as_bytes)

lemma split_once_append:
  "c \<notin> set a \<Longrightarrow> split_once c (a @ c # b) = Some (a, b)"
  by (simp add: split_once_def takeWhile_append dropWhile_append)

lemma split_once_SomeD:
  assumes "split_once c s = Some (a, b)"
  shows "s = a @ c # b \<and> c \<notin> set a"
proof -
  from assms have c: "c \<in> set s" and a: "a = takeWhile (\<lambda>x. x \<noteq> c) s"
    and b: "b = tl (dropWhile (\<lambda>x. x \<noteq> c) s)"
    by (simp_all add: split_once_def split: if_splits)
  from c have ne: "dropWhile (\<lambda>x. x \<noteq> c) s \<noteq> []" by (auto simp: dropWhile_eq_Nil_conv)
  have "hd (dropWhile (\<lambda>x. x \<noteq> c) s) = c" using hd_dropWhile [OF ne] by simp
  then have "dropWhile (\<lambda>x. x \<noteq> c) s = c # b"
    using ne b by (metis list.collapse)
  then have "s = a @ c # b" using takeWhile_dropWhile_id [of "\<lambda>x. x \<noteq> c" s] a by simp
  then show ?thesis using a by (auto dest: set_takeWhileD)
qed

lemma split_once_None: "split_once c s = None \<longleftrightarrow> c \<notin> set s"
  by (simp add: split_once_def)

lemma strip_prefix_append [simp]: "strip_prefix (p @ s) p = Some s"
  by (simp add: strip_prefix_def)

lemma strip_prefix_SomeD: "strip_prefix s p = Some r \<Longrightarrow> s = p @ r"
  by (auto simp: strip_prefix_def prefix_def split: if_splits)

subsection \<open>Association lists as hash maps\<close>

lemma map_of_AList_update: "map_of (AList.update k v m) = (map_of m)(k \<mapsto> v)"
  by (rule update_conv')

lemma length_AList_update:
  "length (AList.update k v m) = (if k \<in> fst ` set m then length m else Suc (length m))"
  by (induction m) auto

lemma fst_set_AList_update: "fst ` set (AList.update k v m) = insert k (fst ` set m)"
  by (induction m) auto

lemma mem_keys_map_of: "k \<in> fst ` set m \<longleftrightarrow> (\<exists>v. map_of m k = Some v)"
  by (metis map_of_eq_None_iff not_None_eq)

section \<open>Runs of a step relation\<close>

inductive runs :: "('s \<Rightarrow> 'e \<Rightarrow> 's \<Rightarrow> bool) \<Rightarrow> 's \<Rightarrow> 'e list \<Rightarrow> 's \<Rightarrow> bool" for step where
  runs_Nil: "runs step s [] s"
| runs_Cons: "step s e s' \<Longrightarrow> runs step s' es s'' \<Longrightarrow> runs step s (e # es) s''"

inductive_simps runs_Nil_iff [simp]: "runs step s [] s'"
inductive_simps runs_Cons_iff: "runs step s (e # es) s''"

text \<open>
  The contract behind every ``at most once'' of the bridge: an event that grants a key moves
  it from not held to held, and no step gives a held key up.  The client's conclusion is
  that a whole run grants each key at most once.
\<close>

locale grant_once =
  fixes step :: "'s \<Rightarrow> 'e \<Rightarrow> 's \<Rightarrow> bool"
    and grants :: "'e \<Rightarrow> 'k \<Rightarrow> bool"
    and held :: "'s \<Rightarrow> 'k \<Rightarrow> bool"
    and inv :: "'s \<Rightarrow> bool"
  assumes inv_step: "inv s \<Longrightarrow> step s e s' \<Longrightarrow> inv s'"
    and held_step: "inv s \<Longrightarrow> step s e s' \<Longrightarrow> held s k \<Longrightarrow> held s' k"
    and grant_fresh: "inv s \<Longrightarrow> step s e s' \<Longrightarrow> grants e k \<Longrightarrow> \<not> held s k"
    and grant_held: "inv s \<Longrightarrow> step s e s' \<Longrightarrow> grants e k \<Longrightarrow> held s' k"
begin

lemma inv_runs: "runs step s es s' \<Longrightarrow> inv s \<Longrightarrow> inv s'"
  by (induction rule: runs.induct) (auto intro: inv_step)

lemma held_runs: "runs step s es s' \<Longrightarrow> inv s \<Longrightarrow> held s k \<Longrightarrow> held s' k"
  by (induction rule: runs.induct) (auto intro: inv_step held_step)

lemma held_no_grant:
  "runs step s es s' \<Longrightarrow> inv s \<Longrightarrow> held s k \<Longrightarrow> \<not> (\<exists>e\<in>set es. grants e k)"
  by (induction rule: runs.induct) (auto intro: inv_step held_step dest: grant_fresh)

lemma granted_held:
  "runs step s es s' \<Longrightarrow> inv s \<Longrightarrow> e \<in> set es \<Longrightarrow> grants e k \<Longrightarrow> held s' k"
  by (induction rule: runs.induct) (auto intro: inv_step held_runs grant_held)

lemma grants_at_most_once:
  "runs step s es s' \<Longrightarrow> inv s \<Longrightarrow> length (filter (\<lambda>e. grants e k) es) \<le> 1"
proof (induction rule: runs.induct)
  case (runs_Cons s e s' es s'')
  have inv': "inv s'" using runs_Cons.prems runs_Cons.hyps(1) by (rule inv_step)
  show ?case
  proof (cases "grants e k")
    case True
    then have "held s' k" using runs_Cons.prems runs_Cons.hyps(1) by (blast intro: grant_held)
    then have "filter (\<lambda>e. grants e k) es = []"
      using held_no_grant [OF runs_Cons.hyps(2) inv'] by (simp add: filter_empty_conv)
    then show ?thesis by simp
  next
    case False
    then show ?thesis using runs_Cons.IH [OF inv'] by simp
  qed
qed simp

end

end
