(* ===== verification/Json.thy ===== *)
theory Json
  imports Peat_Prelude
begin

text \<open>
  JSON values as \<open>serde_json::Value\<close> has them, with the accessors the code uses.  Numbers are the
  library's own type and stay a type variable; reading and writing JSON text is the library's
  too and is passed as \<open>serde\<close>.
\<close>

datatype 'n json =
    JNull
  | JBool bool
  | JNumber 'n
  | JString string
  | JArray "'n json list"
  | JObject "(string \<times> 'n json) list"

record 'n serde =
  from_str :: "string \<Rightarrow> 'n json option"
  to_str :: "'n json \<Rightarrow> string option"

fun json_get :: "string \<Rightarrow> 'n json \<Rightarrow> 'n json option" where
  "json_get k (JObject kvs) = map_of kvs k"
| "json_get _ _ = None"

fun as_str :: "'n json \<Rightarrow> string option" where
  "as_str (JString s) = Some s"
| "as_str _ = None"

lemma json_get_Some: "json_get k v = Some w \<Longrightarrow> \<exists>kvs. v = JObject kvs \<and> map_of kvs k = Some w"
  by (cases v) simp_all

lemma as_str_Some [simp]: "as_str v = Some s \<longleftrightarrow> v = JString s"
  by (cases v) simp_all

end
