(* ===== verification/Store_Crypto.thy ===== *)
theory Store_Crypto
  imports Peat_Prelude
begin

text \<open>
  Encryption of documents at rest (\<open>src/src/crypto.rs\<close>).  AES-GCM, base64 and HKDF are libraries:
  the parameters \<open>crypto_lib\<close>.  The stored form is the prefix \<open>ENC:v1:\<close> and the base64 text of
  nonce and ciphertext.
\<close>

record crypto_lib =
  b64_encode :: "bytes \<Rightarrow> string"
  b64_decode :: "string \<Rightarrow> bytes option"
  aes_encrypt :: "bytes \<Rightarrow> bytes \<Rightarrow> bytes \<Rightarrow> bytes option"
  aes_decrypt :: "bytes \<Rightarrow> bytes \<Rightarrow> bytes \<Rightarrow> bytes option"
  hkdf_sha256 :: "bytes \<Rightarrow> bytes \<Rightarrow> bytes"

datatype crypto_error =
    InvalidKeyEncoding | InvalidKeyLength nat | EncryptionFailed | MissingPrefix
  | InvalidBase64 | BlobTooShort | DecryptionFailed | NotUtf8

definition ENC_PREFIX :: string where
  "ENC_PREFIX = ''ENC:v1:''"

definition NONCE_LEN :: nat where
  "NONCE_LEN = 12"

datatype store_cipher = StoreCipher (cipher_key: bytes)

definition from_base64_key :: "crypto_lib \<Rightarrow> string \<Rightarrow> crypto_error + store_cipher" where
  "from_base64_key lib key_b64 =
     (case b64_decode lib key_b64 of
        None \<Rightarrow> Inl InvalidKeyEncoding
      | Some key \<Rightarrow> if length key \<noteq> 32 then Inl (InvalidKeyLength (length key)) else Inr (StoreCipher key))"

text \<open>The nonce is drawn by \<open>generate_nonce\<close>; here it is an argument.\<close>

definition cipher_encrypt :: "crypto_lib \<Rightarrow> store_cipher \<Rightarrow> bytes \<Rightarrow> string \<Rightarrow> crypto_error + string" where
  "cipher_encrypt lib c nonce plaintext =
     (case aes_encrypt lib (cipher_key c) nonce (as_bytes plaintext) of
        None \<Rightarrow> Inl EncryptionFailed
      | Some ciphertext \<Rightarrow> Inr (ENC_PREFIX @ b64_encode lib (nonce @ ciphertext)))"

definition cipher_decrypt :: "crypto_lib \<Rightarrow> store_cipher \<Rightarrow> string \<Rightarrow> crypto_error + string" where
  "cipher_decrypt lib c stored =
     (case strip_prefix stored ENC_PREFIX of
        None \<Rightarrow> Inl MissingPrefix
      | Some encoded \<Rightarrow>
          (case b64_decode lib encoded of
             None \<Rightarrow> Inl InvalidBase64
           | Some blob \<Rightarrow>
               if length blob < NONCE_LEN then Inl BlobTooShort
               else case aes_decrypt lib (cipher_key c) (take NONCE_LEN blob) (drop NONCE_LEN blob) of
                      None \<Rightarrow> Inl DecryptionFailed
                    | Some plain \<Rightarrow> if utf8_valid plain then Inr (of_bytes plain) else Inl NotUtf8))"

definition is_encrypted :: "string \<Rightarrow> bool" where
  "is_encrypted value = starts_with value ENC_PREFIX"

definition derive_iroh_node_key :: "crypto_lib \<Rightarrow> bytes \<Rightarrow> string \<Rightarrow> bytes" where
  "derive_iroh_node_key lib formation_secret pod_name =
     hkdf_sha256 lib formation_secret (as_bytes (''iroh:'' @ pod_name))"

text \<open>A library that satisfies the hypotheses below, for the witness.\<close>

definition sample_crypto :: crypto_lib where
  "sample_crypto =
     \<lparr>b64_encode = of_bytes, b64_decode = (\<lambda>s. Some (as_bytes s)),
      aes_encrypt = (\<lambda>k n p. Some (rev p)), aes_decrypt = (\<lambda>k n p. Some (rev p)),
      hkdf_sha256 = (\<lambda>s i. replicate 32 0)\<rparr>"

lemma is_encrypted_encrypt: "cipher_encrypt lib c nonce p = Inr s \<Longrightarrow> is_encrypted s"
  by (auto simp: cipher_encrypt_def is_encrypted_def starts_with_def split: option.splits)

lemma decrypt_encrypt:
  assumes "cipher_encrypt lib c nonce p = Inr s" and "length nonce = NONCE_LEN" and "utf8_valid (as_bytes p)"
    and "\<And>b. b64_decode lib (b64_encode lib b) = Some b"
    and "\<And>k n x y. aes_encrypt lib k n x = Some y \<Longrightarrow> aes_decrypt lib k n y = Some x"
  shows "cipher_decrypt lib c s = Inr p"
proof -
  from assms(1) obtain y where y: "aes_encrypt lib (cipher_key c) nonce (as_bytes p) = Some y"
    and s: "s = ENC_PREFIX @ b64_encode lib (nonce @ y)"
    by (auto simp: cipher_encrypt_def split: option.splits)
  show ?thesis
    using assms(2-4) s assms(5) [OF y] by (simp add: cipher_decrypt_def strip_prefix_append)
qed

text \<open>
  Encryption at rest round-trips.  What \<open>encrypt\<close> returns is recognised by \<open>is_encrypted\<close>, and
  \<open>decrypt\<close> under the same key gives back exactly the plaintext, for every 12-byte nonce, provided
  base64 and AES-GCM invert their own output.
\<close>

lemma cipher_roundtrip:
  assumes "\<And>b. b64_decode lib (b64_encode lib b) = Some b"
    and "\<And>k n x y. aes_encrypt lib k n x = Some y \<Longrightarrow> aes_decrypt lib k n y = Some x"
    and "length nonce = NONCE_LEN" and "utf8_valid (as_bytes p)"
    and "cipher_encrypt lib c nonce p = Inr s"
  shows "is_encrypted s \<and> cipher_decrypt lib c s = Inr p"
  using is_encrypted_encrypt [OF assms(5)] decrypt_encrypt [OF assms(5,3,4,1,2)] by blast

lemma cipher_roundtrip_witness:
  "\<exists>s. cipher_encrypt sample_crypto (StoreCipher (replicate 32 7)) (replicate 12 1) ''{}'' = Inr s
    \<and> is_encrypted s \<and> cipher_decrypt sample_crypto (StoreCipher (replicate 32 7)) s = Inr ''{}''"
proof -
  let ?c = "StoreCipher (replicate 32 7)" and ?n = "replicate 12 (1 :: byte)"
  obtain s where s: "cipher_encrypt sample_crypto ?c ?n ''{}'' = Inr s"
    by (simp add: cipher_encrypt_def sample_crypto_def)
  moreover have "utf8_valid (as_bytes ''{}'')" by code_simp
  ultimately have "is_encrypted s \<and> cipher_decrypt sample_crypto ?c s = Inr ''{}''"
    by (intro cipher_roundtrip [OF _ _ _ _ s]) (auto simp: sample_crypto_def NONCE_LEN_def)
  with s show ?thesis by blast
qed

end
