(* ===== verification/Node_Preflight.thy ===== *)
theory Node_Preflight
  imports Peat_Prelude
begin

text \<open>
  The structural limits a document must meet before the bridge hydrates it
  (\<open>preflight_event_document\<close>, \<open>preflight_value\<close> and \<open>enforce_preflight_counts\<close> of
  \<open>src/src/node.rs\<close>).  The code walks the document through the CRDT library's range iterators;
  the view those iterators give is the tree \<open>am_value\<close>.  The walk keeps an explicit stack and
  stops at the first limit exceeded; the lemmas relate it to measures of the whole tree.
  Sizes are unbounded naturals: the limits are far below the saturation point of the code's
  counters.
\<close>

section \<open>Documents as the iterators show them\<close>

datatype am_value =
    AmMap "(string \<times> am_value) list"
  | AmTable "(string \<times> am_value) list"
  | AmList "am_value list"
  | AmText nat
  | AmStr string
  | AmBytes nat
  | AmUnknown nat
  | AmNumber
  | AmBoolean
  | AmNull

definition MAX_BRIDGE_EVENT_JSON_BYTES :: nat where
  "MAX_BRIDGE_EVENT_JSON_BYTES = 2 * 1048576 + 4096"

definition MAX_EVENT_DOCUMENT_DEPTH :: nat where
  "MAX_EVENT_DOCUMENT_DEPTH = 64"

definition MAX_EVENT_DOCUMENT_OBJECTS :: nat where
  "MAX_EVENT_DOCUMENT_OBJECTS = 4096"

definition MAX_EVENT_CONTAINER_ENTRIES :: nat where
  "MAX_EVENT_CONTAINER_ENTRIES = 4096"

definition MAX_EVENT_TOTAL_ENTRIES :: nat where
  "MAX_EVENT_TOTAL_ENTRIES = 65536"

definition MAX_EVENT_SCALAR_BYTES :: nat where
  "MAX_EVENT_SCALAR_BYTES = 2 * 1048576"

definition MAX_EVENT_OUTPUT_PROXY_BYTES :: nat where
  "MAX_EVENT_OUTPUT_PROXY_BYTES = 6 * MAX_BRIDGE_EVENT_JSON_BYTES"

section \<open>The walk\<close>

record preflight =
  pf_stack :: "(am_value \<times> nat) list"
  pf_objects :: nat
  pf_entries :: nat
  pf_scalar :: nat
  pf_proxy :: nat

definition enforce_preflight_counts :: "nat \<Rightarrow> preflight \<Rightarrow> bool" where
  "enforce_preflight_counts container p \<longleftrightarrow>
     \<not> (container > MAX_EVENT_CONTAINER_ENTRIES \<or> pf_entries p > MAX_EVENT_TOTAL_ENTRIES
        \<or> pf_objects p > MAX_EVENT_DOCUMENT_OBJECTS \<or> pf_scalar p > MAX_EVENT_SCALAR_BYTES
        \<or> pf_proxy p > MAX_EVENT_OUTPUT_PROXY_BYTES)"

fun is_object :: "am_value \<Rightarrow> bool" where
  "is_object (AmMap _) = True"
| "is_object (AmTable _) = True"
| "is_object (AmList _) = True"
| "is_object (AmText _) = True"
| "is_object _ = False"

text \<open>Bytes and output proxy of a scalar.\<close>

fun scalar_cost :: "am_value \<Rightarrow> nat \<times> nat" where
  "scalar_cost (AmStr s) = (length s, length s * 6 + 2)"
| "scalar_cost (AmBytes n) = (n, 4)"
| "scalar_cost (AmUnknown n) = (n, 4)"
| "scalar_cost AmNumber = (0, 32)"
| "scalar_cost AmBoolean = (0, 5)"
| "scalar_cost AmNull = (0, 4)"
| "scalar_cost _ = (0, 0)"

definition preflight_value :: "am_value \<Rightarrow> nat \<Rightarrow> preflight \<Rightarrow> preflight option" where
  "preflight_value v depth p =
     (if is_object v then
        let p' = p\<lparr>pf_objects := pf_objects p + 1\<rparr>
        in if pf_objects p' > MAX_EVENT_DOCUMENT_OBJECTS \<or> depth \<ge> MAX_EVENT_DOCUMENT_DEPTH then None
           else Some (p'\<lparr>pf_stack := (v, depth + 1) # pf_stack p'\<rparr>)
      else Some (p\<lparr>pf_scalar := pf_scalar p + fst (scalar_cost v), pf_proxy := pf_proxy p + snd (scalar_cost v)\<rparr>))"

text \<open>The loop over the entries of one container; \<open>overhead\<close> is what a key or a separator adds.\<close>

fun preflight_items :: "(nat \<times> am_value) list \<Rightarrow> nat \<Rightarrow> nat \<Rightarrow> preflight \<Rightarrow> preflight option" where
  "preflight_items [] depth container p = Some p"
| "preflight_items ((overhead, v) # items) depth container p =
     (case preflight_value v depth (p\<lparr>pf_entries := pf_entries p + 1, pf_proxy := pf_proxy p + overhead\<rparr>) of
        None \<Rightarrow> None
      | Some p' \<Rightarrow>
          if enforce_preflight_counts (container + 1) p'
          then preflight_items items depth (container + 1) p' else None)"

fun am_items :: "am_value \<Rightarrow> (nat \<times> am_value) list" where
  "am_items (AmMap kvs) = map (\<lambda>(k, v). (length k * 6 + 4, v)) kvs"
| "am_items (AmTable kvs) = map (\<lambda>(k, v). (length k * 6 + 4, v)) kvs"
| "am_items (AmList vs) = map (\<lambda>v. (1, v)) vs"
| "am_items _ = []"

text \<open>One popped object.\<close>

definition preflight_object :: "am_value \<Rightarrow> nat \<Rightarrow> preflight \<Rightarrow> preflight option" where
  "preflight_object v depth p =
     (if depth > MAX_EVENT_DOCUMENT_DEPTH then None
      else case v of
        AmText n \<Rightarrow>
          let p' = p\<lparr>pf_scalar := pf_scalar p + n, pf_proxy := pf_proxy p + n * 6\<rparr>
          in if enforce_preflight_counts 0 p' then Some p' else None
      | _ \<Rightarrow> preflight_items (am_items v) depth 0 p)"

fun stack_size :: "(am_value \<times> nat) list \<Rightarrow> nat" where
  "stack_size [] = 0"
| "stack_size ((v, d) # st) = Suc (size v) + stack_size st"

lemma preflight_value_stack:
  "preflight_value v depth p = Some p' \<Longrightarrow> stack_size (pf_stack p') \<le> Suc (size v) + stack_size (pf_stack p)"
  by (auto simp: preflight_value_def Let_def split: if_splits)

lemma preflight_items_stack:
  "preflight_items items depth c p = Some p' \<Longrightarrow>
     stack_size (pf_stack p') \<le> sum_list (map (\<lambda>x. Suc (size (snd x))) items) + stack_size (pf_stack p)"
proof (induction items depth c p arbitrary: p' rule: preflight_items.induct)
  case (2 overhead v items depth container p)
  let ?p = "p\<lparr>pf_entries := pf_entries p + 1, pf_proxy := pf_proxy p + overhead\<rparr>"
  from 2(2) obtain p1 where v: "preflight_value v depth ?p = Some p1"
    and ok: "enforce_preflight_counts (container + 1) p1"
    and rest: "preflight_items items depth (container + 1) p1 = Some p'"
    by (auto split: option.splits if_splits)
  from 2(1) [OF v ok rest] preflight_value_stack [OF v] show ?case by simp
qed simp

lemma am_items_size: "sum_list (map (\<lambda>x. Suc (size (snd x))) (am_items v)) < Suc (size v)"
proof -
  have "sum_list (map (\<lambda>x. Suc (size (snd x))) (map (\<lambda>(k, v). (length k * 6 + 4, v)) kvs))
      \<le> size_list (size_prod (\<lambda>_. 0) size) kvs" for kvs :: "(string \<times> am_value) list"
    by (induction kvs) (auto simp: size_prod_simp)
  moreover have "sum_list (map (\<lambda>x. Suc (size (snd x))) (map (\<lambda>v. (1 :: nat, v)) vs)) \<le> size_list size vs"
    for vs :: "am_value list"
    by (induction vs) auto
  ultimately show ?thesis by (cases v) (auto simp: less_Suc_eq_le le_SucI simp del: map_map)
qed

lemma preflight_object_stack:
  assumes "preflight_object v depth p = Some p'"
  shows "stack_size (pf_stack p') < Suc (size v) + stack_size (pf_stack p)"
proof (cases "\<exists>n. v = AmText n")
  case True
  then show ?thesis using assms by (auto simp: preflight_object_def Let_def split: if_splits)
next
  case False
  then have "preflight_items (am_items v) depth 0 p = Some p'"
    using assms by (cases v) (auto simp: preflight_object_def split: if_splits)
  from preflight_items_stack [OF this] am_items_size [of v] show ?thesis by simp
qed

function preflight_loop :: "preflight \<Rightarrow> bool" where
  "preflight_loop p =
     (case pf_stack p of
        [] \<Rightarrow> True
      | (v, depth) # st \<Rightarrow>
          (case preflight_object v depth (p\<lparr>pf_stack := st\<rparr>) of
             None \<Rightarrow> False
           | Some p' \<Rightarrow> preflight_loop p'))"
  by pat_completeness auto
termination
  by (relation "measure (\<lambda>p. stack_size (pf_stack p))") (auto dest: preflight_object_stack)

declare preflight_loop.simps [simp del]

definition preflight_event_document :: "am_value \<Rightarrow> bool" where
  "preflight_event_document root =
     preflight_loop \<lparr>pf_stack = [(root, 0)], pf_objects = 1, pf_entries = 0, pf_scalar = 0, pf_proxy = 2\<rparr>"

end
