(* ===== verification/Bridge_Config.thy ===== *)
theory Bridge_Config
  imports Peat_Prelude
begin

text \<open>
  The configuration boundary of the NATS bridge (\<open>src/src/nats_bridge/config.rs\<close>): parsing the
  server URL into a credential-free endpoint and the \<open>subject=collection\<close> mappings into routes.
  URL parsing, subject validation and header validation are the NATS client's; they are the
  parameters \<open>nats_env\<close>.  The lemmas show that accepted routes are literal, unique and
  one per raw mapping, and that an endpoint does not depend on the credentials.
\<close>

section \<open>What the NATS client provides\<close>

text \<open>The parts of \<open>ServerAddr\<close> and its inner \<open>Url\<close> the code reads.\<close>

record server_addr =
  host_str :: "string option"
  addr_host :: string
  url_path :: string
  url_query :: "string option"
  url_fragment :: "string option"
  url_port :: "nat option"
  url_username :: string
  url_password :: "string option"

record nats_env =
  parse_server :: "string \<Rightarrow> server_addr option"
  subject_validated :: "string \<Rightarrow> bool"
  header_value_ok :: "string \<Rightarrow> bool"
  iroh_collection :: string

section \<open>Configuration values\<close>

definition DEFAULT_NATS_PORT :: nat where
  "DEFAULT_NATS_PORT = 4222"

definition MAX_BRIDGE_IDENTITY_BYTES :: nat where
  "MAX_BRIDGE_IDENTITY_BYTES = 1024"

datatype endpoint_scheme = Nats | Tls

fun scheme_str :: "endpoint_scheme \<Rightarrow> string" where
  "scheme_str Nats = ''nats''"
| "scheme_str Tls = ''tls''"

record sanitized_endpoint =
  ep_scheme :: endpoint_scheme
  ep_host :: string
  ep_port :: nat
  ep_authenticated :: bool

record subject_mapping =
  sm_subject :: string
  sm_collection :: string

record enabled_config =
  ec_server :: server_addr
  ec_endpoint :: sanitized_endpoint
  ec_mappings :: "subject_mapping list"

datatype bridge_config = Disabled | Enabled enabled_config

datatype issue_kind =
    MissingUrl | UnsupportedUrlScheme | InvalidUrl | MissingUrlHost | UrlPathNotAllowed
  | UrlQueryNotAllowed | UrlFragmentNotAllowed | InvalidMappingDelimiter | EmptySubject
  | EmptyCollection | SubjectContainsWhitespace | CollectionContainsWhitespace | InvalidSubject
  | SubjectContainsWildcard | ReservedSubject | InvalidCollection | CollectionTooLong
  | ReservedCollection | InvalidNodeIdentity | DuplicateSubject nat | DuplicateCollection nat

record config_issue =
  iss_index :: "nat option"
  iss_kind :: issue_kind

definition issue_new :: "issue_kind \<Rightarrow> config_issue" where
  "issue_new k = \<lparr>iss_index = None, iss_kind = k\<rparr>"

definition issue_mapping :: "nat \<Rightarrow> issue_kind \<Rightarrow> config_issue" where
  "issue_mapping i k = \<lparr>iss_index = Some i, iss_kind = k\<rparr>"

section \<open>Display\<close>

definition display_endpoint :: "sanitized_endpoint \<Rightarrow> string" where
  "display_endpoint e =
     (let host = if CHR '':'' \<in> set (ep_host e) then ''['' @ ep_host e @ '']'' else ep_host e
      in scheme_str (ep_scheme e) @ ''://''
         @ (if ep_authenticated e then ''<redacted>@'' else [])
         @ host @ '':'' @ decimal (ep_port e))"

fun issue_message :: "issue_kind \<Rightarrow> string" where
  "issue_message MissingUrl = ''a NATS URL is required when mappings are configured''"
| "issue_message UnsupportedUrlScheme = ''URL scheme must be explicitly nats:// or tls://''"
| "issue_message InvalidUrl = ''NATS URL is malformed''"
| "issue_message MissingUrlHost = ''NATS URL requires a host''"
| "issue_message UrlPathNotAllowed = ''NATS URL must not contain a path''"
| "issue_message UrlQueryNotAllowed = ''NATS URL must not contain a query''"
| "issue_message UrlFragmentNotAllowed = ''NATS URL must not contain a fragment''"
| "issue_message InvalidMappingDelimiter = ''mapping must contain exactly one '' @ [CHR 0x27, CHR ''='', CHR 0x27] @ '' delimiter''"
| "issue_message EmptySubject = ''mapping subject must not be empty''"
| "issue_message EmptyCollection = ''mapping collection must not be empty''"
| "issue_message SubjectContainsWhitespace = ''mapping subject must not contain whitespace''"
| "issue_message CollectionContainsWhitespace = ''mapping collection must not contain whitespace''"
| "issue_message InvalidSubject = ''mapping subject is invalid''"
| "issue_message SubjectContainsWildcard = ''mapping subject must be literal''"
| "issue_message ReservedSubject = ''mapping subject uses a reserved prefix''"
| "issue_message InvalidCollection = ''mapping collection has invalid characters''"
| "issue_message CollectionTooLong = ''mapping collection exceeds the retained identity limit''"
| "issue_message ReservedCollection = ''mapping collection is reserved for internal use''"
| "issue_message InvalidNodeIdentity = ''effective node ID is empty, too long, or invalid as a NATS header value''"
| "issue_message (DuplicateSubject _) = ''mapping subject duplicates an earlier mapping''"
| "issue_message (DuplicateCollection _) = ''mapping collection duplicates an earlier mapping''"

definition display_issue :: "config_issue \<Rightarrow> string" where
  "display_issue i =
     (case iss_index i of None \<Rightarrow> [] | Some n \<Rightarrow> ''mapping '' @ decimal n @ '': '')
     @ issue_message (iss_kind i)"

definition display_errors :: "config_issue list \<Rightarrow> string" where
  "display_errors issues =
     ''invalid NATS bridge configuration'' @ concat (map (\<lambda>i. ''; '' @ display_issue i) issues)"

section \<open>Parsing\<close>

definition parse_endpoint ::
  "nats_env \<Rightarrow> string \<Rightarrow> issue_kind + (server_addr \<times> sanitized_endpoint)" where
  "parse_endpoint env raw =
     (let scheme = if starts_with raw ''nats://'' then Some Nats
                   else if starts_with raw ''tls://'' then Some Tls else None
      in case scheme of
           None \<Rightarrow> Inl UnsupportedUrlScheme
         | Some sch \<Rightarrow>
             (case parse_server env raw of
                None \<Rightarrow> Inl InvalidUrl
              | Some addr \<Rightarrow>
                  if host_str addr = None \<or> addr_host addr = [] then Inl MissingUrlHost
                  else if url_path addr \<noteq> [] \<and> url_path addr \<noteq> ''/'' then Inl UrlPathNotAllowed
                  else if url_query addr \<noteq> None then Inl UrlQueryNotAllowed
                  else if url_fragment addr \<noteq> None then Inl UrlFragmentNotAllowed
                  else Inr (addr,
                    \<lparr>ep_scheme = sch, ep_host = addr_host addr,
                     ep_port = (case url_port addr of None \<Rightarrow> DEFAULT_NATS_PORT | Some p \<Rightarrow> p),
                     ep_authenticated = (url_username addr \<noteq> [] \<or> url_password addr \<noteq> None)\<rparr>)))"

definition valid_collection :: "string \<Rightarrow> bool" where
  "valid_collection c =
     (case c of
        [] \<Rightarrow> False
      | b # bs \<Rightarrow> is_ascii_alphanumeric b
          \<and> list_all (\<lambda>x. is_ascii_alphanumeric x \<or> x \<in> {CHR ''.'', CHR ''_'', CHR ''-''}) bs)"

text \<open>The subject half of a mapping: the issue, or the validated subject.\<close>

definition check_subject :: "nats_env \<Rightarrow> string \<Rightarrow> issue_kind + string" where
  "check_subject env s =
     (if s = [] then Inl EmptySubject
      else if contains_whitespace s then Inl SubjectContainsWhitespace
      else if \<not> subject_validated env s then Inl InvalidSubject
      else if CHR ''*'' \<in> set s \<or> CHR ''>'' \<in> set s then Inl SubjectContainsWildcard
      else
        let first_token = takeWhile (\<lambda>c. c \<noteq> CHR ''.'') s
        in if starts_with first_token ''$'' \<or> first_token = ''_INBOX'' \<or> first_token = ''_PEAT''
           then Inl ReservedSubject else Inr s)"

definition check_collection :: "nats_env \<Rightarrow> string \<Rightarrow> issue_kind option" where
  "check_collection env c =
     (if c = [] then Some EmptyCollection
      else if contains_whitespace c then Some CollectionContainsWhitespace
      else if length c > MAX_BRIDGE_IDENTITY_BYTES then Some CollectionTooLong
      else if \<not> valid_collection c then Some InvalidCollection
      else if c = iroh_collection env then Some ReservedCollection
      else None)"

record mapping_state =
  ms_mappings :: "subject_mapping list"
  ms_subjects :: "(string \<times> nat) list"
  ms_collections :: "(string \<times> nat) list"
  ms_issues :: "config_issue list"

definition report :: "nat \<Rightarrow> issue_kind list \<Rightarrow> mapping_state \<Rightarrow> mapping_state" where
  "report index ks st = st\<lparr>ms_issues := ms_issues st @ map (issue_mapping index) ks\<rparr>"

text \<open>One round of the loop of \<open>parse_mappings\<close>.\<close>

definition parse_mapping :: "nats_env \<Rightarrow> nat \<times> string \<Rightarrow> mapping_state \<Rightarrow> mapping_state" where
  "parse_mapping env ir st =
     (case ir of (index, raw) \<Rightarrow>
        if count_list raw (CHR ''='') \<noteq> 1 then report index [InvalidMappingDelimiter] st
        else case split_once (CHR ''='') raw of
          None \<Rightarrow> st
        | Some (l, r) \<Rightarrow>
            let s = trim l; c = trim r;
                subject_value = check_subject env s;
                collection_issue = check_collection env c;
                dup_subject = (case subject_value of Inl _ \<Rightarrow> None
                   | Inr v \<Rightarrow> map_option DuplicateSubject (map_of (ms_subjects st) v));
                dup_collection = (if collection_issue = None
                   then map_option DuplicateCollection (map_of (ms_collections st) c) else None);
                st' = report index
                  ((case subject_value of Inl k \<Rightarrow> [k] | Inr _ \<Rightarrow> [])
                   @ (case collection_issue of Some k \<Rightarrow> [k] | None \<Rightarrow> [])
                   @ (case dup_subject of Some k \<Rightarrow> [k] | None \<Rightarrow> [])
                   @ (case dup_collection of Some k \<Rightarrow> [k] | None \<Rightarrow> [])) st
            in case subject_value of
                 Inr v \<Rightarrow>
                   if collection_issue = None \<and> dup_subject = None \<and> dup_collection = None
                   then st'\<lparr>ms_subjects := AList.update v index (ms_subjects st'),
                           ms_collections := AList.update c index (ms_collections st'),
                           ms_mappings := ms_mappings st' @ [\<lparr>sm_subject = v, sm_collection = c\<rparr>]\<rparr>
                   else st'
               | Inl _ \<Rightarrow> st')"

definition parse_mappings ::
  "nats_env \<Rightarrow> string list \<Rightarrow> config_issue list \<Rightarrow> subject_mapping list \<times> config_issue list" where
  "parse_mappings env raws issues =
     (let st = fold (parse_mapping env) (zip [1..<Suc (length raws)] raws)
        \<lparr>ms_mappings = [], ms_subjects = [], ms_collections = [], ms_issues = issues\<rparr>
      in (ms_mappings st, ms_issues st))"

text \<open>\<open>MissingUrl\<close> is reported for mappings without a URL, so the last case has an endpoint.\<close>

definition from_raw :: "nats_env \<Rightarrow> string option \<Rightarrow> string list \<Rightarrow> config_issue list + bridge_config" where
  "from_raw env nats_url raws =
     (let (parsed, issues) =
            (case nats_url of
               Some raw \<Rightarrow> (case parse_endpoint env raw of
                   Inl k \<Rightarrow> (None, [issue_new k]) | Inr e \<Rightarrow> (Some e, []))
             | None \<Rightarrow> (None, if raws \<noteq> [] then [issue_new MissingUrl] else []));
          (ms, issues') = parse_mappings env raws issues
      in if issues' \<noteq> [] then Inl issues'
         else if raws = [] then Inr Disabled
         else case parsed of
                Some (addr, e) \<Rightarrow> Inr (Enabled \<lparr>ec_server = addr, ec_endpoint = e, ec_mappings = ms\<rparr>)
              | None \<Rightarrow> Inl [])"

definition validate_bridge_node_identity :: "nats_env \<Rightarrow> string \<Rightarrow> issue_kind + string" where
  "validate_bridge_node_identity env node_id =
     (if node_id = [] \<or> length node_id > MAX_BRIDGE_IDENTITY_BYTES then Inl InvalidNodeIdentity
      else if header_value_ok env node_id then Inr node_id else Inl InvalidNodeIdentity)"

definition validate_node_identity :: "nats_env \<Rightarrow> bridge_config \<Rightarrow> string \<Rightarrow> config_issue list + unit" where
  "validate_node_identity env cfg node_id =
     (case cfg of Disabled \<Rightarrow> Inr ()
      | Enabled _ \<Rightarrow> (case validate_bridge_node_identity env node_id of
          Inl k \<Rightarrow> Inl [issue_new k] | Inr _ \<Rightarrow> Inr ()))"

section \<open>Accepted routes\<close>

definition mapping_ok :: "nats_env \<Rightarrow> subject_mapping \<Rightarrow> bool" where
  "mapping_ok env m \<longleftrightarrow>
     check_subject env (sm_subject m) = Inr (sm_subject m)
     \<and> check_collection env (sm_collection m) = None"

text \<open>What a raw mapping means, whether it is accepted or not.\<close>

definition raw_halves :: "string \<Rightarrow> string \<times> string" where
  "raw_halves raw = (case split_once (CHR ''='') raw of None \<Rightarrow> ([], []) | Some (l, r) \<Rightarrow> (trim l, trim r))"

definition raw_ok :: "nats_env \<Rightarrow> string \<Rightarrow> bool" where
  "raw_ok env raw \<longleftrightarrow>
     count_list raw (CHR ''='') = 1
     \<and> \<not> isl (check_subject env (fst (raw_halves raw))) \<and> check_collection env (snd (raw_halves raw)) = None"

definition mapping_halves :: "subject_mapping \<Rightarrow> string \<times> string" where
  "mapping_halves m = (sm_subject m, sm_collection m)"

definition mapping_inv :: "nats_env \<Rightarrow> mapping_state \<Rightarrow> bool" where
  "mapping_inv env st \<longleftrightarrow>
     list_all (mapping_ok env) (ms_mappings st)
     \<and> distinct (map sm_subject (ms_mappings st)) \<and> distinct (map sm_collection (ms_mappings st))
     \<and> fst ` set (ms_subjects st) = set (map sm_subject (ms_mappings st))
     \<and> fst ` set (ms_collections st) = set (map sm_collection (ms_mappings st))"

text \<open>An environment with a URL parser that reads everything after the scheme as user and host.\<close>

definition sample_addr :: "string \<Rightarrow> server_addr" where
  "sample_addr user =
     \<lparr>host_str = Some ''localhost'', addr_host = ''localhost'', url_path = [], url_query = None,
      url_fragment = None, url_port = None, url_username = user, url_password = None\<rparr>"

definition sample_env :: nats_env where
  "sample_env =
     \<lparr>parse_server = (\<lambda>raw. if starts_with raw ''nats://'' then Some (sample_addr (drop 7 raw)) else None),
      subject_validated = (\<lambda>s. s \<noteq> []), header_value_ok = (\<lambda>_. True),
      iroh_collection = ''file_distributions''\<rparr>"

lemma check_subject_Inr: "check_subject env s = Inr v \<Longrightarrow> v = s"
  by (auto simp: check_subject_def Let_def split: if_splits)

lemma count_list_split_once: "count_list raw c = 1 \<Longrightarrow> \<exists>l r. split_once c raw = Some (l, r)"
  by (metis count_notin one_neq_zero split_once_def)

text \<open>The two ways one round can end: an accepted mapping and no issue, or an issue and no mapping.\<close>

lemma parse_mapping_cases:
  obtains (accepted) s c where "raw_halves raw = (s, c)" "raw_ok env raw"
      "map_of (ms_subjects st) s = None" "map_of (ms_collections st) c = None"
      "check_subject env s = Inr s" "check_collection env c = None"
      "parse_mapping env (i, raw) st =
         st\<lparr>ms_subjects := AList.update s i (ms_subjects st),
            ms_collections := AList.update c i (ms_collections st),
            ms_mappings := ms_mappings st @ [\<lparr>sm_subject = s, sm_collection = c\<rparr>]\<rparr>"
  | (rejected) ks where "ks \<noteq> []" "parse_mapping env (i, raw) st = report i ks st"
proof (cases "count_list raw (CHR ''='') = 1")
  case False
  then show ?thesis by (intro rejected [of "[InvalidMappingDelimiter]"]) (simp_all add: parse_mapping_def)
next
  case True
  then obtain l r where lr: "split_once (CHR ''='') raw = Some (l, r)" using count_list_split_once by blast
  let ?s = "trim l" and ?c = "trim r"
  have halves: "raw_halves raw = (?s, ?c)" using lr by (simp add: raw_halves_def)
  show ?thesis
  proof (cases "check_subject env ?s")
    case (Inl k)
    with True lr show ?thesis
      by (intro rejected [of "k # _"]) (simp_all add: parse_mapping_def Let_def)
  next
    case (Inr v)
    then have v: "v = ?s" by (rule check_subject_Inr)
    show ?thesis
    proof (cases "check_collection env ?c = None \<and> map_of (ms_subjects st) ?s = None
        \<and> map_of (ms_collections st) ?c = None")
      case ok: True
      show ?thesis
        using True lr Inr v ok halves
        by (intro accepted [of ?s ?c]) (simp_all add: parse_mapping_def Let_def report_def raw_ok_def)
    next
      case bad: False
      let ?ks = "(case check_collection env ?c of Some k \<Rightarrow> [k] | None \<Rightarrow> [])
        @ (case map_of (ms_subjects st) ?s of Some n \<Rightarrow> [DuplicateSubject n] | None \<Rightarrow> [])
        @ (if check_collection env ?c = None
           then (case map_of (ms_collections st) ?c of Some n \<Rightarrow> [DuplicateCollection n] | None \<Rightarrow> []) else [])"
      have "?ks \<noteq> []" using bad by (auto split: option.split)
      moreover have "parse_mapping env (i, raw) st = report i ?ks st"
        using True lr Inr v bad by (auto simp: parse_mapping_def Let_def split: option.split)
      ultimately show ?thesis by (rule rejected)
    qed
  qed
qed

lemma parse_mapping_inv: "mapping_inv env st \<Longrightarrow> mapping_inv env (parse_mapping env ir st)"
proof -
  assume inv: "mapping_inv env st"
  obtain i raw where ir: "ir = (i, raw)" by (cases ir)
  show ?thesis
  proof (cases rule: parse_mapping_cases [where env = env and raw = raw and st = st and i = i])
    case (accepted s c)
    have fresh: "s \<notin> set (map sm_subject (ms_mappings st))" "c \<notin> set (map sm_collection (ms_mappings st))"
      using accepted(3,4) inv by (simp_all add: map_of_eq_None_iff mapping_inv_def)
    with inv accepted(5,6) show ?thesis
      unfolding ir accepted(7) by (auto simp: mapping_inv_def mapping_ok_def fst_set_AList_update)
  next
    case (rejected ks)
    then show ?thesis using inv ir by (simp add: report_def mapping_inv_def)
  qed
qed

lemma parse_mapping_issues:
  "\<exists>ks. ms_issues (parse_mapping env (i, raw) st) = ms_issues st @ map (issue_mapping i) ks
     \<and> (\<not> raw_ok env raw \<longrightarrow> ks \<noteq> [])
     \<and> (ks = [] \<longrightarrow> map mapping_halves (ms_mappings (parse_mapping env (i, raw) st))
           = map mapping_halves (ms_mappings st) @ [raw_halves raw] \<and> raw_ok env raw)"
proof (cases rule: parse_mapping_cases [where env = env and raw = raw and st = st and i = i])
  case (accepted s c)
  then show ?thesis by (intro exI [of _ "[]"]) (simp add: mapping_halves_def)
next
  case (rejected ks)
  then show ?thesis by (intro exI [of _ ks]) (simp add: report_def)
qed

lemma fold_mapping_inv: "mapping_inv env st \<Longrightarrow> mapping_inv env (fold (parse_mapping env) irs st)"
  by (induction irs arbitrary: st) (simp_all add: parse_mapping_inv)

lemma fold_mapping_issues:
  "\<exists>xs. ms_issues (fold (parse_mapping env) irs st) = ms_issues st @ xs
     \<and> (\<forall>x\<in>set xs. \<exists>(i, raw)\<in>set irs. iss_index x = Some i)
     \<and> (\<forall>(i, raw)\<in>set irs. \<not> raw_ok env raw \<longrightarrow> (\<exists>k. issue_mapping i k \<in> set xs))
     \<and> (xs = [] \<longrightarrow> map mapping_halves (ms_mappings (fold (parse_mapping env) irs st))
          = map mapping_halves (ms_mappings st) @ map (raw_halves \<circ> snd) irs)"
proof (induction irs arbitrary: st)
  case (Cons ir irs)
  obtain i raw where ir: "ir = (i, raw)" by (cases ir)
  let ?st = "parse_mapping env (i, raw) st"
  obtain ks where ks: "ms_issues ?st = ms_issues st @ map (issue_mapping i) ks"
    "\<not> raw_ok env raw \<longrightarrow> ks \<noteq> []"
    "ks = [] \<longrightarrow> map mapping_halves (ms_mappings ?st) = map mapping_halves (ms_mappings st) @ [raw_halves raw]"
    using parse_mapping_issues [of env i raw st] by blast
  from Cons.IH [of ?st] obtain xs where tail: "ms_issues (fold (parse_mapping env) irs ?st) = ms_issues ?st @ xs"
    "\<forall>x\<in>set xs. \<exists>(i, raw)\<in>set irs. iss_index x = Some i"
    "\<forall>(i, raw)\<in>set irs. \<not> raw_ok env raw \<longrightarrow> (\<exists>k. issue_mapping i k \<in> set xs)"
    "xs = [] \<longrightarrow> map mapping_halves (ms_mappings (fold (parse_mapping env) irs ?st))
          = map mapping_halves (ms_mappings ?st) @ map (raw_halves \<circ> snd) irs"
    by blast
  have "\<exists>k. issue_mapping i k \<in> set (map (issue_mapping i) ks @ xs)" if "\<not> raw_ok env raw"
    using ks(2) that by (cases ks) auto
  with ks tail ir show ?case
    by (intro exI [of _ "map (issue_mapping i) ks @ xs"]) (auto simp: issue_mapping_def)
qed simp

lemma parse_mappings_spec:
  assumes "parse_mappings env raws issues = (ms, issues')"
  shows "list_all (mapping_ok env) ms" and "distinct (map sm_subject ms)" and "distinct (map sm_collection ms)"
    and "\<exists>xs. issues' = issues @ xs \<and> (\<forall>x\<in>set xs. \<exists>i. iss_index x = Some i \<and> 1 \<le> i \<and> i \<le> length raws)
      \<and> (\<forall>i<length raws. \<not> raw_ok env (raws ! i) \<longrightarrow> (\<exists>k. issue_mapping (i + 1) k \<in> set xs))
      \<and> (xs = [] \<longrightarrow> map mapping_halves ms = map raw_halves raws)"
proof -
  let ?irs = "zip [1..<Suc (length raws)] raws"
  let ?st = "\<lparr>ms_mappings = [], ms_subjects = [], ms_collections = [], ms_issues = issues\<rparr>"
  have ms: "ms = ms_mappings (fold (parse_mapping env) ?irs ?st)"
    and iss: "issues' = ms_issues (fold (parse_mapping env) ?irs ?st)"
    using assms by (simp_all add: parse_mappings_def Let_def del: upt_Suc)
  have "mapping_inv env (fold (parse_mapping env) ?irs ?st)"
    by (rule fold_mapping_inv) (simp add: mapping_inv_def)
  then show "list_all (mapping_ok env) ms" "distinct (map sm_subject ms)" "distinct (map sm_collection ms)"
    using ms by (simp_all add: mapping_inv_def)
  have mem: "(i + 1, raws ! i) \<in> set ?irs" if "i < length raws" for i
    using that by (auto simp: set_zip simp del: upt_Suc intro!: exI [of _ i])
  have bound: "1 \<le> i \<and> i \<le> length raws" if "(i, raw) \<in> set ?irs" for i raw
    using set_zip_leftD [OF that] by (auto simp del: upt_Suc)
  have halves: "map (raw_halves \<circ> snd) ?irs = map raw_halves raws"
    by (simp add: map_map [symmetric] del: upt_Suc map_map)
  from fold_mapping_issues [of env ?irs ?st] obtain xs where
    "ms_issues (fold (parse_mapping env) ?irs ?st) = issues @ xs"
    and where_idx: "\<forall>x\<in>set xs. \<exists>(i, raw)\<in>set ?irs. iss_index x = Some i"
    and all: "\<forall>(i, raw)\<in>set ?irs. \<not> raw_ok env raw \<longrightarrow> (\<exists>k. issue_mapping i k \<in> set xs)"
    and clean: "xs = [] \<longrightarrow> map mapping_halves (ms_mappings (fold (parse_mapping env) ?irs ?st))
          = map (raw_halves \<circ> snd) ?irs"
    by auto
  moreover have "\<forall>x\<in>set xs. \<exists>i. iss_index x = Some i \<and> 1 \<le> i \<and> i \<le> length raws"
    using where_idx bound by blast
  moreover have "\<forall>i<length raws. \<not> raw_ok env (raws ! i) \<longrightarrow> (\<exists>k. issue_mapping (i + 1) k \<in> set xs)"
    using all mem by blast
  ultimately show "\<exists>xs. issues' = issues @ xs \<and> (\<forall>x\<in>set xs. \<exists>i. iss_index x = Some i \<and> 1 \<le> i \<and> i \<le> length raws)
      \<and> (\<forall>i<length raws. \<not> raw_ok env (raws ! i) \<longrightarrow> (\<exists>k. issue_mapping (i + 1) k \<in> set xs))
      \<and> (xs = [] \<longrightarrow> map mapping_halves ms = map raw_halves raws)"
    using iss ms halves by metis
qed

section \<open>Properties\<close>

lemma from_raw_Enabled:
  assumes "from_raw env url raws = Inr (Enabled c)"
  shows "raws \<noteq> []" and "\<exists>raw. url = Some raw \<and> parse_endpoint env raw = Inr (ec_server c, ec_endpoint c)"
    and "parse_mappings env raws [] = (ec_mappings c, [])"
proof -
  obtain u where u: "url = Some u"
    using assms by (cases url) (auto simp: from_raw_def split: prod.splits if_splits)
  have "parse_endpoint env u = Inr (ec_server c, ec_endpoint c) \<and> raws \<noteq> []
      \<and> parse_mappings env raws [] = (ec_mappings c, [])"
    using assms u by (cases "parse_endpoint env u") (auto simp: from_raw_def split: prod.splits if_splits)
  with u show "raws \<noteq> []" "\<exists>raw. url = Some raw \<and> parse_endpoint env raw = Inr (ec_server c, ec_endpoint c)"
    "parse_mappings env raws [] = (ec_mappings c, [])" by auto
qed

lemma from_raw_Inl:
  assumes "from_raw env url raws = Inl issues"
  obtains pre ms where "parse_mappings env raws pre = (ms, issues)" and "issues \<noteq> []"
    and "\<forall>x\<in>set pre. iss_index x = None"
proof -
  let ?pre = "case url of Some raw \<Rightarrow> (case parse_endpoint env raw of Inl k \<Rightarrow> [issue_new k] | Inr e \<Rightarrow> [])
    | None \<Rightarrow> if raws \<noteq> [] then [issue_new MissingUrl] else []"
  obtain ms issues' where run: "parse_mappings env raws ?pre = (ms, issues')" by fastforce
  obtain xs where xs: "issues' = ?pre @ xs" using parse_mappings_spec(4) [OF run] by blast
  have "issues' = issues \<and> issues \<noteq> []"
    using assms run xs by (auto simp: from_raw_def split: option.splits sum.splits if_splits prod.splits)
  moreover have "\<forall>x\<in>set ?pre. iss_index x = None"
    by (auto simp: issue_new_def split: option.splits sum.splits)
  ultimately show ?thesis using that run by blast
qed

text \<open>
  C36: What an enabled configuration contains.  There is one route per raw mapping, in order, made of
  its two trimmed halves; every subject is a validated literal outside the reserved prefixes,
  every collection a valid unreserved name of at most 1024 bytes; no subject and no collection
  occurs twice.
\<close>

theorem enabled_routes_sound:
  assumes "from_raw env url raws = Inr (Enabled c)"
  shows "raws \<noteq> [] \<and> map mapping_halves (ec_mappings c) = map raw_halves raws
    \<and> list_all (mapping_ok env) (ec_mappings c)
    \<and> distinct (map sm_subject (ec_mappings c)) \<and> distinct (map sm_collection (ec_mappings c))"
proof -
  note run = from_raw_Enabled(3) [OF assms]
  have "map mapping_halves (ec_mappings c) = map raw_halves raws"
    using parse_mappings_spec(4) [OF run] by simp
  then show ?thesis using from_raw_Enabled(1) [OF assms] parse_mappings_spec(1-3) [OF run] by simp
qed

theorem enabled_routes_sound_witness:
  "\<exists>c. from_raw sample_env (Some ''nats://'') ['' a.b = frames'', ''c=tracks''] = Inr (Enabled c)
    \<and> map mapping_halves (ec_mappings c) = [(''a.b'', ''frames''), (''c'', ''tracks'')]
    \<and> distinct (map sm_collection (ec_mappings c))"
proof -
  let ?raws = "['' a.b = frames'', ''c=tracks'']"
  have halves: "count_list '' a.b = frames'' CHR ''='' = 1" "count_list ''c=tracks'' CHR ''='' = 1"
    "split_once CHR ''='' '' a.b = frames'' = Some ('' a.b '', '' frames'')"
    "split_once CHR ''='' ''c=tracks'' = Some (''c'', ''tracks'')"
    "trim '' a.b '' = ''a.b''" "trim '' frames'' = ''frames''" "trim ''c'' = ''c''" "trim ''tracks'' = ''tracks''"
    by code_simp+
  have "\<not> contains_whitespace ''frames''" "valid_collection ''frames''"
    "\<not> contains_whitespace ''tracks''" "valid_collection ''tracks''" by code_simp+
  then have colls: "check_collection sample_env ''frames'' = None" "check_collection sample_env ''tracks'' = None"
    by (simp_all add: check_collection_def MAX_BRIDGE_IDENTITY_BYTES_def sample_env_def)
  have subjs: "check_subject sample_env ''a.b'' = Inr ''a.b''" "check_subject sample_env ''c'' = Inr ''c''"
    by code_simp+
  have "parse_endpoint sample_env ''nats://'' = Inr (sample_addr [],
      \<lparr>ep_scheme = Nats, ep_host = ''localhost'', ep_port = 4222, ep_authenticated = False\<rparr>)"
    by (simp add: parse_endpoint_def sample_env_def sample_addr_def starts_with_def DEFAULT_NATS_PORT_def)
  then obtain c where c: "from_raw sample_env (Some ''nats://'') ?raws = Inr (Enabled c)"
    using halves colls subjs
    by (auto simp: from_raw_def parse_mappings_def parse_mapping_def report_def upt_rec Let_def)
  moreover have "map raw_halves ?raws = [(''a.b'', ''frames''), (''c'', ''tracks'')]"
    using halves by (simp add: raw_halves_def)
  ultimately show ?thesis using enabled_routes_sound [OF c] by simp
qed

text \<open>
  A rejected configuration reports everything.  The issue list is never empty (so the
  \<open>expect\<close> of \<open>from_raw\<close> never fires), every malformed mapping is named by its one-based position,
  and every position named is one of the mappings.
\<close>

lemma rejected_config_reports:
  assumes "from_raw env url raws = Inl issues"
  shows "issues \<noteq> []
    \<and> (\<forall>i<length raws. \<not> raw_ok env (raws ! i) \<longrightarrow> (\<exists>k. issue_mapping (i + 1) k \<in> set issues))
    \<and> (\<forall>x\<in>set issues. \<forall>i. iss_index x = Some i \<longrightarrow> 1 \<le> i \<and> i \<le> length raws)"
proof -
  obtain pre ms where run: "parse_mappings env raws pre = (ms, issues)" and "issues \<noteq> []"
    and pre: "\<forall>x\<in>set pre. iss_index x = None"
    using from_raw_Inl [OF assms] by blast
  with parse_mappings_spec(4) [OF run] show ?thesis by fastforce
qed

lemma rejected_config_reports_witness:
  "\<exists>issues k. from_raw sample_env (Some ''nats://'') [''a=frames'', ''b=no space=''] = Inl issues
    \<and> issue_mapping 2 k \<in> set issues"
proof -
  let ?raws = "[''a=frames'', ''b=no space='']"
  have bad: "count_list ''b=no space='' CHR ''='' \<noteq> 1" by code_simp
  then have "ms_issues (parse_mapping sample_env (Suc (Suc 0), ''b=no space='') st) \<noteq> []" for st
    by (simp add: parse_mapping_def report_def)
  then obtain issues where issues: "from_raw sample_env (Some ''nats://'') ?raws = Inl issues"
    by (cases "parse_endpoint sample_env ''nats://''") (auto simp: from_raw_def parse_mappings_def upt_rec Let_def)
  have "\<not> raw_ok sample_env (?raws ! 1)" using bad by (simp add: raw_ok_def)
  with rejected_config_reports [OF issues, THEN conjunct2, THEN conjunct1, rule_format, of 1]
  have "\<exists>k. issue_mapping 2 k \<in> set issues" by (simp only: one_add_one) simp
  with issues show ?thesis by blast
qed

text \<open>
  Credentials never reach the endpoint.  Two URLs that differ in user name and password only (both
  present) are displayed alike.
\<close>

lemma endpoint_hides_credentials:
  assumes "parse_endpoint env raw = Inr (a, e)" and "parse_endpoint env raw' = Inr (a', e')"
    and "starts_with raw ''nats://'' = starts_with raw' ''nats://''"
    and "addr_host a = addr_host a'" and "url_port a = url_port a'"
    and "url_username a \<noteq> []" and "url_username a' \<noteq> []"
  shows "e = e' \<and> display_endpoint e = display_endpoint e'"
  using assms by (auto simp: parse_endpoint_def Let_def split: if_splits option.splits)

lemma endpoint_hides_credentials_witness:
  "\<exists>a e a' e'. parse_endpoint sample_env ''nats://bob'' = Inr (a, e)
    \<and> parse_endpoint sample_env ''nats://secret'' = Inr (a', e')
    \<and> display_endpoint e = display_endpoint e'"
proof -
  let ?e = "\<lparr>ep_scheme = Nats, ep_host = ''localhost'', ep_port = 4222, ep_authenticated = True\<rparr>"
  have one: "parse_endpoint sample_env ''nats://bob'' = Inr (sample_addr ''bob'', ?e)"
    and two: "parse_endpoint sample_env ''nats://secret'' = Inr (sample_addr ''secret'', ?e)"
    by (simp_all add: parse_endpoint_def sample_env_def sample_addr_def starts_with_def DEFAULT_NATS_PORT_def)
  from endpoint_hides_credentials [OF this] one two show ?thesis
    by (fastforce simp: sample_addr_def starts_with_def)
qed

end
