(* ===== verification/Ledger_Codec.thy ===== *)
theory Ledger_Codec
  imports Peat_Prelude
begin

text \<open>
  The on-disk format of the bridge's suppression journals (\<open>src/src/nats_bridge/ledger.rs\<close>):
  the length-framed document digest, the 32-byte file header, the fixed 80-byte record with
  its checksum, and the record-by-record replay that recovery performs.  SHA-256 comes from
  the \<open>sha2\<close> crate and is the parameter \<open>sha\<close> of every definition that hashes; hashing
  several \<open>update\<close> calls is hashing their concatenation.  The lemmas show that encoding and
  decoding are mutually inverse and that distinct document identities have distinct
  pre-images.
\<close>

section \<open>Format constants\<close>

definition LEDGER_MAGIC :: bytes where
  "LEDGER_MAGIC = as_bytes ''PNATSJ01''"

definition LEDGER_VERSION :: nat where
  "LEDGER_VERSION = 1"

definition HEADER_LEN :: nat where
  "HEADER_LEN = 32"

definition RECORD_LEN :: nat where
  "RECORD_LEN = 80"

definition MAX_UNIQUE_ENTRIES :: nat where
  "MAX_UNIQUE_ENTRIES = 262144"

definition MAX_RECORDS :: nat where
  "MAX_RECORDS = MAX_UNIQUE_ENTRIES * 2"

definition MAX_FILE_BYTES :: nat where
  "MAX_FILE_BYTES = HEADER_LEN + MAX_RECORDS * RECORD_LEN"

definition DIGEST_DOMAIN :: bytes where
  "DIGEST_DOMAIN = as_bytes ''peat-node:nats-bridge-ledger-key:v1''"

definition CHECKSUM_DOMAIN :: bytes where
  "CHECKSUM_DOMAIN = as_bytes ''peat-node:nats-bridge-ledger-record:v1''"

section \<open>Identities, states and errors\<close>

datatype ledger_digest = LedgerDigest (digest_bytes: bytes)

definition digest_preimage :: "string \<Rightarrow> string \<Rightarrow> bytes" where
  "digest_preimage collection doc_id =
     be_bytes 8 (length DIGEST_DOMAIN) @ DIGEST_DOMAIN
     @ be_bytes 8 (length collection) @ as_bytes collection
     @ be_bytes 8 (length doc_id) @ as_bytes doc_id"

definition document_digest :: "(bytes \<Rightarrow> bytes) \<Rightarrow> string \<Rightarrow> string \<Rightarrow> ledger_digest" where
  "document_digest sha collection doc_id = LedgerDigest (sha (digest_preimage collection doc_id))"

datatype ledger_error = Unavailable | Corrupt | Capacity | QueueFull | Stopped | IoUnjoined

datatype record_state = LocalExcluded | Reserved | Completed

fun state_code :: "record_state \<Rightarrow> byte" where
  "state_code LocalExcluded = 1"
| "state_code Reserved = 2"
| "state_code Completed = 3"

definition decode_state :: "byte \<Rightarrow> ledger_error + record_state" where
  "decode_state v =
     (if v = 1 then Inr LocalExcluded else if v = 2 then Inr Reserved
      else if v = 3 then Inr Completed else Inl Corrupt)"

datatype journal_kind = Exclusion | Delivery

fun kind_code :: "journal_kind \<Rightarrow> byte" where
  "kind_code Exclusion = 1"
| "kind_code Delivery = 2"

fun file_name :: "journal_kind \<Rightarrow> string" where
  "file_name Exclusion = ''local-exclusion-v1''"
| "file_name Delivery = ''remote-delivery-v1''"

fun permits :: "journal_kind \<Rightarrow> record_state \<Rightarrow> bool" where
  "permits Exclusion LocalExcluded = True"
| "permits Delivery Reserved = True"
| "permits Delivery Completed = True"
| "permits _ _ = False"

section \<open>Records and headers\<close>

definition record_checksum :: "(bytes \<Rightarrow> bytes) \<Rightarrow> bytes \<Rightarrow> bytes" where
  "record_checksum sha fields = sha (be_bytes 8 (length CHECKSUM_DOMAIN) @ CHECKSUM_DOMAIN @ fields)"

definition record_fields :: "nat \<Rightarrow> record_state \<Rightarrow> ledger_digest \<Rightarrow> bytes" where
  "record_fields sequence state digest =
     be_bytes 8 sequence @ [state_code state] @ replicate 7 0 @ digest_bytes digest"

definition encode_record ::
  "(bytes \<Rightarrow> bytes) \<Rightarrow> nat \<Rightarrow> record_state \<Rightarrow> ledger_digest \<Rightarrow> bytes" where
  "encode_record sha sequence state digest =
     record_fields sequence state digest
     @ record_checksum sha (record_fields sequence state digest)"

definition decode_record ::
  "(bytes \<Rightarrow> bytes) \<Rightarrow> bytes \<Rightarrow> ledger_error + (nat \<times> record_state \<times> ledger_digest)" where
  "decode_record sha r =
     (if length r \<noteq> RECORD_LEN \<or> list_ex (\<lambda>b. b \<noteq> 0) (take 7 (drop 9 r)) then Inl Corrupt
      else if record_checksum sha (take 48 r) \<noteq> drop 48 r then Inl Corrupt
      else case decode_state (r ! 8) of
             Inl e \<Rightarrow> Inl e
           | Inr state \<Rightarrow> Inr (from_be (take 8 r), state, LedgerDigest (take 32 (drop 16 r))))"

definition header_bytes :: "journal_kind \<Rightarrow> bytes" where
  "header_bytes kind =
     LEDGER_MAGIC @ be_bytes 4 LEDGER_VERSION @ be_bytes 4 RECORD_LEN @ [kind_code kind]
     @ replicate 15 0"

definition header_ok :: "journal_kind \<Rightarrow> bytes \<Rightarrow> bool" where
  "header_ok kind bs \<longleftrightarrow>
     \<not> (length bs < HEADER_LEN
        \<or> take 8 bs \<noteq> LEDGER_MAGIC
        \<or> from_be (take 4 (drop 8 bs)) \<noteq> LEDGER_VERSION
        \<or> from_be (take 4 (drop 12 bs)) \<noteq> RECORD_LEN
        \<or> bs ! 16 \<noteq> kind_code kind
        \<or> list_ex (\<lambda>b. b \<noteq> 0) (take 15 (drop 17 bs)))"

section \<open>Replay\<close>

type_synonym ledger_index = "(ledger_digest \<times> record_state) list"

fun replay_allowed :: "record_state option \<Rightarrow> record_state \<Rightarrow> bool" where
  "replay_allowed None LocalExcluded = True"
| "replay_allowed None Reserved = True"
| "replay_allowed (Some Reserved) Completed = True"
| "replay_allowed _ _ = False"

fun replay ::
  "(bytes \<Rightarrow> bytes) \<Rightarrow> journal_kind \<Rightarrow> bytes list \<Rightarrow> nat \<Rightarrow> ledger_index
    \<Rightarrow> ledger_error + (nat \<times> ledger_index)" where
  "replay sha kind [] expected index = Inr (expected, index)"
| "replay sha kind (c # cs) expected index =
     (case decode_record sha c of
        Inl e \<Rightarrow> Inl e
      | Inr (sequence, state, digest) \<Rightarrow>
          if sequence \<noteq> expected \<or> \<not> permits kind state then Inl Corrupt
          else if \<not> expected + 1 < 2 ^ 64 then Inl Corrupt
          else if \<not> replay_allowed (map_of index digest) state then Inl Corrupt
          else if length (AList.update digest state index) > MAX_UNIQUE_ENTRIES then Inl Capacity
          else replay sha kind cs (expected + 1) (AList.update digest state index))"

section \<open>Lengths and slices\<close>

lemma length_domains [codec_simps]:
  "length DIGEST_DOMAIN = 35" "length CHECKSUM_DOMAIN = 38" "length LEDGER_MAGIC = 8"
  by (simp_all add: DIGEST_DOMAIN_def CHECKSUM_DOMAIN_def LEDGER_MAGIC_def)

lemma length_record_fields [codec_simps]:
  "length (digest_bytes d) = 32 \<Longrightarrow> length (record_fields n s d) = 48"
  by (simp add: record_fields_def)

lemma length_encode_record [codec_simps]:
  assumes "length (digest_bytes d) = 32" and "\<And>x. length (sha x) = 32"
  shows "length (encode_record sha n s d) = RECORD_LEN"
  using assms by (simp add: encode_record_def record_checksum_def codec_simps RECORD_LEN_def)

lemma length_header_bytes [codec_simps]: "length (header_bytes kind) = HEADER_LEN"
  by (simp add: header_bytes_def codec_simps HEADER_LEN_def)

lemma decode_state_code [simp]: "decode_state (state_code s) = Inr s"
  by (cases s) (simp_all add: decode_state_def)

lemma decode_state_Inr: "decode_state v = Inr s \<Longrightarrow> v = state_code s"
  by (auto simp: decode_state_def split: if_splits)

lemma list_all_zero_replicate: "\<not> list_ex (\<lambda>b. b \<noteq> (0 :: byte)) xs \<Longrightarrow> xs = replicate (length xs) 0"
  by (induction xs) auto

lemma header_ok_bytes: "header_ok kind (header_bytes kind @ body)"
proof -
  have v: "from_be (be_bytes 4 LEDGER_VERSION) = LEDGER_VERSION"
    by (rule from_be_bytes) (simp add: LEDGER_VERSION_def)
  have r: "from_be (be_bytes 4 RECORD_LEN) = RECORD_LEN"
    by (rule from_be_bytes) (simp add: RECORD_LEN_def)
  show ?thesis
    using v r by (simp add: header_ok_def header_bytes_def codec_simps HEADER_LEN_def nth_append
        list_ex_iff)
qed

section \<open>Round trips\<close>

lemma decode_encode_record:
  assumes "n < 2 ^ 64" and "length (digest_bytes d) = 32" and "\<And>x. length (sha x) = 32"
  shows "decode_record sha (encode_record sha n s d) = Inr (n, s, d)"
proof -
  let ?f = "record_fields n s d" and ?r = "encode_record sha n s d"
  have f: "length ?f = 48" using assms(2) by (rule length_record_fields)
  have slices: "take 48 ?r = ?f" "drop 48 ?r = record_checksum sha ?f"
    using f by (simp_all add: encode_record_def)
  have parts: "take 8 ?r = be_bytes 8 n" "?r ! 8 = state_code s"
    "take 7 (drop 9 ?r) = replicate 7 0" "take 32 (drop 16 ?r) = digest_bytes d"
    using assms(2) by (simp_all add: encode_record_def record_fields_def nth_append)
  have n: "from_be (be_bytes 8 n) = n" using assms(1) by (intro from_be_bytes) simp
  show ?thesis
    using length_encode_record [OF assms(2), where sha = sha and n = n and s = s] slices parts n assms(3)
    by (simp add: decode_record_def list_ex_iff)
qed

lemma record_slices:
  assumes "length r = RECORD_LEN"
  shows "r = take 8 r @ [r ! 8] @ take 7 (drop 9 r) @ take 32 (drop 16 r) @ drop 48 r"
proof -
  have "r = take 8 r @ drop 8 r" by simp
  also have "drop 8 r = r ! 8 # drop 9 r"
    using assms by (simp add: RECORD_LEN_def Cons_nth_drop_Suc [symmetric])
  also have "drop 9 r = take 7 (drop 9 r) @ drop 16 r"
    using append_take_drop_id [of 7 "drop 9 r"] by simp
  also have "drop 16 r = take 32 (drop 16 r) @ drop 48 r"
    using append_take_drop_id [of 32 "drop 16 r"] by simp
  finally show ?thesis by simp
qed

lemma decode_record_encode:
  assumes "decode_record sha r = Inr (n, s, d)"
  shows "r = encode_record sha n s d \<and> n < 2 ^ 64 \<and> length (digest_bytes d) = 32"
proof -
  from assms have len: "length r = RECORD_LEN"
    and zero: "\<not> list_ex (\<lambda>b. b \<noteq> 0) (take 7 (drop 9 r))"
    and sum: "drop 48 r = record_checksum sha (take 48 r)"
    and st: "decode_state (r ! 8) = Inr s"
    and n: "n = from_be (take 8 r)" and d: "d = LedgerDigest (take 32 (drop 16 r))"
    by (auto simp: decode_record_def split: if_splits sum.splits)
  have "take 7 (drop 9 r) = replicate 7 0"
    using list_all_zero_replicate [OF zero] len by (simp add: RECORD_LEN_def)
  moreover have "be_bytes 8 n = take 8 r"
    using be_bytes_from_be [of "take 8 r"] len n by (simp add: RECORD_LEN_def)
  ultimately have parts: "r = record_fields n s d @ drop 48 r"
    using record_slices [OF len] decode_state_Inr [OF st] d by (simp add: record_fields_def)
  have d32: "length (digest_bytes d) = 32" using d len by (simp add: RECORD_LEN_def)
  then have "length (record_fields n s d) = 48" by (rule length_record_fields)
  then have "take 48 r = record_fields n s d" using parts by (metis append_eq_conv_conj)
  then have "r = encode_record sha n s d" using parts sum by (simp add: encode_record_def)
  moreover have "n < 2 ^ 64"
    using from_be_less [of "take 8 r"] n len by (simp add: RECORD_LEN_def)
  ultimately show ?thesis using d32 by simp
qed

lemma digest_preimage_inject:
  assumes "length c < 2 ^ 64" and "length c' < 2 ^ 64"
  shows "digest_preimage c d = digest_preimage c' d' \<longleftrightarrow> c = c' \<and> d = d'"
proof
  assume eq: "digest_preimage c d = digest_preimage c' d'"
  then have c: "be_bytes 8 (length c) @ as_bytes c @ be_bytes 8 (length d) @ as_bytes d
      = be_bytes 8 (length c') @ as_bytes c' @ be_bytes 8 (length d') @ as_bytes d'"
    by (simp add: digest_preimage_def)
  then have "be_bytes 8 (length c) = be_bytes 8 (length c')"
    by (metis append_eq_append_conv length_be_bytes)
  then have len: "length c = length c'"
    using assms by (subst (asm) be_bytes_inject) simp_all
  with c have "as_bytes c = as_bytes c'" and "as_bytes d = as_bytes d'"
    by simp_all
  then show "c = c' \<and> d = d'" by simp
qed simp

section \<open>Properties\<close>

text \<open>
  The record codec is exact: \<open>decode_record\<close> accepts precisely the 80-byte blocks that
  \<open>encode_record\<close> produces for a 64-bit sequence number and a 32-byte digest, and returns what
  was encoded.
\<close>

lemma record_codec_exact:
  assumes "\<And>x. length (sha x) = 32"
  shows "decode_record sha r = Inr (n, s, d) \<longleftrightarrow>
    r = encode_record sha n s d \<and> n < 2 ^ 64 \<and> length (digest_bytes d) = 32"
  using decode_record_encode [of sha r n s d] decode_encode_record [of n d sha s] assms by blast

lemma record_codec_exact_witness:
  "decode_record (\<lambda>_. replicate 32 7)
     (encode_record (\<lambda>_. replicate 32 7) 258 Reserved (LedgerDigest (replicate 32 9)))
   = Inr (258, Reserved, LedgerDigest (replicate 32 9))"
  by (subst record_codec_exact) simp_all

text \<open>
  The length framing of \<open>document_digest\<close> is unambiguous: two documents share a digest only when
  collection and document id are both equal, or when the hash function itself collides on two
  different inputs.
\<close>

lemma document_digest_framing:
  assumes "length c < 2 ^ 64" and "length c' < 2 ^ 64"
  shows "document_digest sha c d = document_digest sha c' d' \<longleftrightarrow>
    c = c' \<and> d = d'
    \<or> digest_preimage c d \<noteq> digest_preimage c' d' \<and> sha (digest_preimage c d) = sha (digest_preimage c' d')"
  using digest_preimage_inject [OF assms, of d d'] by (auto simp: document_digest_def)

lemma document_digest_framing_witness:
  "document_digest (\<lambda>x. x) ''ab'' ''c'' \<noteq> document_digest (\<lambda>x. x) ''a'' ''bc''"
  by (subst document_digest_framing) (simp_all, blast?)

end
