(* ===== verification/Ledger_Disk.thy ===== *)
theory Ledger_Disk
  imports Ledger_Codec
begin

text \<open>
  The directory that holds one journal, as the operating system shows it to
  \<open>AnchoredDir\<close> (\<open>src/src/nats_bridge/ledger.rs\<close>, the unix implementation), with the two
  things a journal has to survive: a system call that fails, and a crash.

  A file carries its visible contents and the list of contents a crash may leave; appending
  adds every prefix of the appended bytes to that list and \<open>sync_all\<close> collapses it to the
  visible contents.  The directory likewise carries the entry tables a crash may leave,
  collapsed by \<open>sync_directory\<close>.  System calls take their outcome from the \<open>plan\<close> of the
  disk, so a theorem for every disk is a theorem for every sequence of I/O failures.  Every
  operation returns at its first failure without cleaning up, so stopping at a failure shows
  the same disk as being killed there.
\<close>

section \<open>State\<close>

record file_obj =
  fdata :: bytes
  fimages :: "bytes list"

datatype dentry = RegularFile nat | SymlinkEntry | DirectoryEntry

datatype outcome = IoOk | IoFail nat

record disk =
  inodes :: "file_obj list"
  entries :: "string \<Rightarrow> dentry option"
  dir_images :: "(string \<Rightarrow> dentry option) list"
  plan :: "outcome list"

type_synonym 'a io = "disk \<Rightarrow> (ledger_error + 'a) \<times> disk"

section \<open>Sequencing\<close>

definition io_return :: "'a \<Rightarrow> 'a io" where
  "io_return x d = (Inr x, d)"

definition io_error :: "ledger_error \<Rightarrow> 'a io" where
  "io_error e d = (Inl e, d)"

definition io_bind :: "'a io \<Rightarrow> ('a \<Rightarrow> 'b io) \<Rightarrow> 'b io" where
  "io_bind m f d = (case m d of (Inl e, d') \<Rightarrow> (Inl e, d') | (Inr x, d') \<Rightarrow> f x d')"

text \<open>The next system call's outcome; an exhausted plan means success.\<close>

definition io_outcome :: "disk \<Rightarrow> outcome \<times> disk" where
  "io_outcome d = (case plan d of [] \<Rightarrow> (IoOk, d) | x # xs \<Rightarrow> (x, d\<lparr>plan := xs\<rparr>))"

definition io_check :: "unit io" where
  "io_check d = (case io_outcome d of (IoOk, d') \<Rightarrow> (Inr (), d') | (IoFail _, d') \<Rightarrow> (Inl Unavailable, d'))"

section \<open>Files\<close>

definition empty_file :: file_obj where
  "empty_file = \<lparr>fdata = [], fimages = [[]]\<rparr>"

definition append_file :: "bytes \<Rightarrow> file_obj \<Rightarrow> file_obj" where
  "append_file bs f =
     \<lparr>fdata = fdata f @ bs,
      fimages = fimages f @ map (\<lambda>k. fdata f @ take k bs) [0..<Suc (length bs)]\<rparr>"

definition sync_file :: "file_obj \<Rightarrow> file_obj" where
  "sync_file f = f\<lparr>fimages := [fdata f]\<rparr>"

definition truncate_file :: "nat \<Rightarrow> file_obj \<Rightarrow> file_obj" where
  "truncate_file n f = \<lparr>fdata = take n (fdata f), fimages = fimages f @ [take n (fdata f)]\<rparr>"

definition update_inode :: "nat \<Rightarrow> (file_obj \<Rightarrow> file_obj) \<Rightarrow> disk \<Rightarrow> disk" where
  "update_inode i g d = d\<lparr>inodes := (inodes d)[i := g (inodes d ! i)]\<rparr>"

definition read_all :: "nat \<Rightarrow> bytes io" where
  "read_all i = io_bind io_check (\<lambda>_ d. (Inr (fdata (inodes d ! i)), d))"

definition file_length :: "nat \<Rightarrow> nat io" where
  "file_length i = io_bind io_check (\<lambda>_ d. (Inr (length (fdata (inodes d ! i))), d))"

text \<open>\<open>write_all\<close> at the end of the file: a failure may leave any prefix behind.\<close>

definition write_all :: "nat \<Rightarrow> bytes \<Rightarrow> unit io" where
  "write_all i bs d =
     (case io_outcome d of
        (IoOk, d') \<Rightarrow> (Inr (), update_inode i (append_file bs) d')
      | (IoFail k, d') \<Rightarrow> (Inl Unavailable, update_inode i (append_file (take k bs)) d'))"

definition sync_all :: "nat \<Rightarrow> unit io" where
  "sync_all i = io_bind io_check (\<lambda>_ d. (Inr (), update_inode i sync_file d))"

definition set_len :: "nat \<Rightarrow> nat \<Rightarrow> unit io" where
  "set_len i n = io_bind io_check (\<lambda>_ d. (Inr (), update_inode i (truncate_file n) d))"

section \<open>The anchored directory\<close>

definition set_entries :: "(string \<Rightarrow> dentry option) \<Rightarrow> disk \<Rightarrow> disk" where
  "set_entries m d = d\<lparr>entries := m, dir_images := dir_images d @ [m]\<rparr>"

definition create_entry :: "string \<Rightarrow> nat io" where
  "create_entry name d =
     (let i = length (inodes d)
      in (Inr i, set_entries ((entries d)(name \<mapsto> RegularFile i))
                   (d\<lparr>inodes := inodes d @ [empty_file]\<rparr>)))"

text \<open>\<open>O_CREAT | O_NOFOLLOW\<close>, then the \<open>is_file\<close> test.\<close>

definition open_active :: "string \<Rightarrow> nat io" where
  "open_active name =
     io_bind io_check (\<lambda>_ d.
       case entries d name of
         None \<Rightarrow> io_bind (create_entry name) (\<lambda>i. io_bind io_check (\<lambda>_. io_return i)) d
       | Some (RegularFile i) \<Rightarrow> io_bind io_check (\<lambda>_. io_return i) d
       | Some _ \<Rightarrow> (Inl Unavailable, d))"

definition temp_name :: "string \<Rightarrow> string" where
  "temp_name active = ''.'' @ active @ ''.compact''"

definition cleanup_temp :: "string \<Rightarrow> unit io" where
  "cleanup_temp active =
     io_bind io_check (\<lambda>_ d.
       case entries d (temp_name active) of
         None \<Rightarrow> (Inr (), d)
       | Some (RegularFile _) \<Rightarrow>
           io_bind io_check (\<lambda>_. io_bind io_check (\<lambda>_ d.
             (Inr (), set_entries ((entries d)(temp_name active := None)) d))) d
       | Some _ \<Rightarrow> (Inl Unavailable, d))"

text \<open>\<open>O_CREAT | O_EXCL\<close>: an existing entry of any kind is refused.\<close>

definition create_temp :: "string \<Rightarrow> nat io" where
  "create_temp active =
     io_bind io_check (\<lambda>_ d.
       case entries d (temp_name active) of
         None \<Rightarrow> create_entry (temp_name active) d
       | Some _ \<Rightarrow> (Inl Unavailable, d))"

definition rename_temp :: "string \<Rightarrow> unit io" where
  "rename_temp active =
     io_bind io_check (\<lambda>_ d.
       case entries d (temp_name active) of
         None \<Rightarrow> (Inl Unavailable, d)
       | Some e \<Rightarrow>
           if entries d active = Some DirectoryEntry then (Inl Unavailable, d)
           else (Inr (), set_entries ((entries d)(active \<mapsto> e, temp_name active := None)) d))"

definition sync_directory :: "unit io" where
  "sync_directory = io_bind io_check (\<lambda>_ d. (Inr (), d\<lparr>dir_images := [entries d]\<rparr>))"

section \<open>Crashes\<close>

text \<open>
  What the next boot may find: one of the directory's possible entry tables and, for every
  file, one of its possible contents.  What is found is on the medium, hence durable.
\<close>

definition settled :: "bytes \<Rightarrow> file_obj" where
  "settled c = \<lparr>fdata = c, fimages = [c]\<rparr>"

inductive crash :: "disk \<Rightarrow> disk \<Rightarrow> bool" where
  crashI: "m \<in> set (dir_images d) \<Longrightarrow> length cs = length (inodes d)
    \<Longrightarrow> (\<And>i. i < length cs \<Longrightarrow> cs ! i \<in> set (fimages (inodes d ! i)))
    \<Longrightarrow> crash d \<lparr>inodes = map settled cs, entries = m, dir_images = [m], plan = os\<rparr>"

inductive_cases crashE: "crash d d'"

section \<open>Well-formed disks\<close>

text \<open>Every entry names an allocated file and every file's visible contents may survive.\<close>

definition disk_ok :: "disk \<Rightarrow> bool" where
  "disk_ok d \<longleftrightarrow>
     entries d \<in> set (dir_images d)
     \<and> (\<forall>m\<in>set (dir_images d). \<forall>name i. m name = Some (RegularFile i) \<longrightarrow> i < length (inodes d))
     \<and> (\<forall>f\<in>set (inodes d). fdata f \<in> set (fimages f))"

section \<open>Lemmas\<close>

lemma io_bind_return [simp]: "io_bind (io_return x) f = f x"
  by (rule ext) (simp add: io_bind_def io_return_def)

lemma io_bind_error [simp]: "io_bind (io_error e) f = io_error e"
  by (rule ext) (simp add: io_bind_def io_error_def)

lemma plan_Nil_update [simp]: "plan d = [] \<Longrightarrow> d\<lparr>plan := []\<rparr> = d"
  by (cases d) simp

lemma io_check_cases:
  obtains (ok) "io_check d = (Inr (), d\<lparr>plan := tl (plan d)\<rparr>)"
  | (fail) "io_check d = (Inl Unavailable, d\<lparr>plan := tl (plan d)\<rparr>)"
proof (cases "plan d")
  case Nil
  then have "io_check d = (Inr (), d\<lparr>plan := tl (plan d)\<rparr>)"
    by (simp add: io_check_def io_outcome_def)
  then show ?thesis by (rule ok)
next
  case (Cons x xs)
  then show ?thesis
    by (cases x) (auto simp: io_check_def io_outcome_def intro: ok fail)
qed

lemma io_check_plan_Nil [simp]: "plan d = [] \<Longrightarrow> io_check d = (Inr (), d)"
  by (simp add: io_check_def io_outcome_def)

lemma update_inode_simps [simp]:
  "length (inodes (update_inode i g d)) = length (inodes d)"
  "entries (update_inode i g d) = entries d"
  "dir_images (update_inode i g d) = dir_images d"
  "plan (update_inode i g d) = plan d"
  "i < length (inodes d) \<Longrightarrow> inodes (update_inode i g d) ! i = g (inodes d ! i)"
  "j \<noteq> i \<Longrightarrow> inodes (update_inode i g d) ! j = inodes d ! j"
  by (simp_all add: update_inode_def)

lemma fdata_append_file [simp]: "fdata (append_file bs f) = fdata f @ bs"
  by (simp add: append_file_def)

lemma fimages_append_file:
  "set (fimages (append_file bs f)) = set (fimages f) \<union> (\<lambda>k. fdata f @ take k bs) ` {..length bs}"
  by (simp add: append_file_def atLeast0LessThan lessThan_Suc_atMost del: upt_Suc)

lemma sync_file_simps [simp]: "fdata (sync_file f) = fdata f" "fimages (sync_file f) = [fdata f]"
  by (simp_all add: sync_file_def)

lemma truncate_file_simps [simp]:
  "fdata (truncate_file n f) = take n (fdata f)"
  "fimages (truncate_file n f) = fimages f @ [take n (fdata f)]"
  by (simp_all add: truncate_file_def)

lemma settled_simps [simp]: "fdata (settled c) = c" "fimages (settled c) = [c]"
  by (simp_all add: settled_def)

end
