(* ===== verification/Ledger_Journal.thy ===== *)
theory Ledger_Journal
  imports Ledger_Disk
begin

text \<open>
  The journal itself (\<open>Journal\<close>, \<open>write_header\<close> and \<open>recover\<close> of
  \<open>src/src/nats_bridge/ledger.rs\<close>): opening with recovery, appending a record, and
  compaction, over the disk of \<open>Ledger_Disk\<close>.  A journal's file is related to an abstract
  log of (state, digest) pairs; the lemmas show that recovery computes exactly the index of
  the log a crash left, that an acknowledged append survives every crash, that compaction
  is never reached, and where the recovery rules reject what the writer may produce.
\<close>

section \<open>The journal\<close>

record journal =
  jkind :: journal_kind
  jfile :: nat
  jsequence :: nat
  jrecords :: nat
  jindex :: ledger_index

definition write_header :: "nat \<Rightarrow> journal_kind \<Rightarrow> unit io" where
  "write_header i kind = io_bind (write_all i (header_bytes kind)) (\<lambda>_. sync_all i)"

text \<open>
  The scan of \<open>recover\<close> over the bytes it read: the last sequence number, the length of the
  complete records and the replayed index.
\<close>

definition recover_bytes ::
  "(bytes \<Rightarrow> bytes) \<Rightarrow> journal_kind \<Rightarrow> bytes \<Rightarrow> ledger_error + (nat \<times> nat \<times> ledger_index)" where
  "recover_bytes sha kind bs =
     (if \<not> header_ok kind bs then Inl Corrupt
      else
        let body_len = length bs - HEADER_LEN;
            complete_len = body_len div RECORD_LEN * RECORD_LEN
        in case replay sha kind
                  (chunks_exact RECORD_LEN (take complete_len (drop HEADER_LEN bs))) 1 [] of
             Inl e \<Rightarrow> Inl e
           | Inr (expected, index) \<Rightarrow> Inr (expected - 1, complete_len, index))"

definition recover ::
  "(bytes \<Rightarrow> bytes) \<Rightarrow> nat \<Rightarrow> journal_kind \<Rightarrow> (nat \<times> nat \<times> ledger_index) io" where
  "recover sha i kind =
     io_bind io_check (\<lambda>_. io_bind (read_all i) (\<lambda>bs.
       case recover_bytes sha kind bs of
         Inl e \<Rightarrow> io_error e
       | Inr (sequence, complete_len, index) \<Rightarrow>
           io_bind
             (if complete_len \<noteq> length bs - HEADER_LEN
              then io_bind (set_len i (HEADER_LEN + complete_len)) (\<lambda>_. sync_all i)
              else io_return ())
             (\<lambda>_. io_return (sequence, complete_len div RECORD_LEN, index))))"

definition journal_open :: "(bytes \<Rightarrow> bytes) \<Rightarrow> journal_kind \<Rightarrow> journal io" where
  "journal_open sha kind =
     io_bind (cleanup_temp (file_name kind)) (\<lambda>_.
     io_bind (open_active (file_name kind)) (\<lambda>i.
     io_bind (file_length i) (\<lambda>len.
     io_bind (if len = 0 then write_header i kind
              else if MAX_FILE_BYTES < len then io_error Capacity
              else io_return ()) (\<lambda>_.
     io_bind (recover sha i kind) (\<lambda>(sequence, records, index).
       io_return \<lparr>jkind = kind, jfile = i, jsequence = sequence, jrecords = records,
                  jindex = index\<rparr>)))))"

section \<open>Compaction\<close>

text \<open>\<open>[u8; 32]\<close> compares lexicographically; \<open>sort_unstable_by_key\<close> on distinct keys has one result.\<close>

definition compact_entries :: "ledger_index \<Rightarrow> ledger_index" where
  "compact_entries index = sort_key (\<lambda>(digest, _). digest_bytes digest) index"

fun write_records :: "(bytes \<Rightarrow> bytes) \<Rightarrow> nat \<Rightarrow> nat \<Rightarrow> ledger_index \<Rightarrow> nat io" where
  "write_records sha i sequence [] = io_return sequence"
| "write_records sha i sequence ((digest, state) # xs) =
     io_bind (write_all i (encode_record sha (sequence + 1) state digest))
       (\<lambda>_. write_records sha i (sequence + 1) xs)"

definition compact :: "(bytes \<Rightarrow> bytes) \<Rightarrow> journal \<Rightarrow> journal io" where
  "compact sha j =
     io_bind (create_temp (file_name (jkind j))) (\<lambda>t.
     io_bind (write_header t (jkind j)) (\<lambda>_.
     io_bind (write_records sha t 0 (compact_entries (jindex j))) (\<lambda>sequence.
     io_bind (sync_all t) (\<lambda>_.
     io_bind (rename_temp (file_name (jkind j))) (\<lambda>_.
     io_bind sync_directory (\<lambda>_.
     io_bind (open_active (file_name (jkind j))) (\<lambda>i.
       io_return (j\<lparr>jfile := i, jsequence := sequence, jrecords := length (jindex j)\<rparr>))))))))"

section \<open>Recording\<close>

datatype record_verdict = AlreadyRecorded | Append | Impossible

fun record_decision :: "record_state option \<Rightarrow> record_state \<Rightarrow> record_verdict" where
  "record_decision (Some LocalExcluded) LocalExcluded = AlreadyRecorded"
| "record_decision (Some Reserved) Reserved = AlreadyRecorded"
| "record_decision (Some Completed) Reserved = AlreadyRecorded"
| "record_decision (Some Completed) Completed = AlreadyRecorded"
| "record_decision (Some Reserved) Completed = Append"
| "record_decision None _ = Append"
| "record_decision _ _ = Impossible"

text \<open>The tail of \<open>record_inner\<close>, after the guards: the sequence number is taken before the write.\<close>

definition append_record ::
  "(bytes \<Rightarrow> bytes) \<Rightarrow> journal \<Rightarrow> ledger_digest \<Rightarrow> record_state \<Rightarrow> disk
    \<Rightarrow> (ledger_error + bool) \<times> journal \<times> disk" where
  "append_record sha j digest state d =
     (if \<not> jsequence j + 1 < 2 ^ 64 then (Inl Capacity, j, d)
      else
        let j' = j\<lparr>jsequence := jsequence j + 1\<rparr>
        in case io_bind (io_bind io_check
                  (\<lambda>_. write_all (jfile j') (encode_record sha (jsequence j') state digest)))
                  (\<lambda>_. sync_all (jfile j')) d of
             (Inl e, d') \<Rightarrow> (Inl e, j', d')
           | (Inr _, d') \<Rightarrow>
               (Inr True,
                j'\<lparr>jindex := AList.update digest state (jindex j'), jrecords := jrecords j' + 1\<rparr>, d'))"

definition journal_record ::
  "(bytes \<Rightarrow> bytes) \<Rightarrow> journal \<Rightarrow> ledger_digest \<Rightarrow> record_state \<Rightarrow> disk
    \<Rightarrow> (ledger_error + bool) \<times> journal \<times> disk" where
  "journal_record sha j digest state d =
     (if \<not> permits (jkind j) state then (Inl Corrupt, j, d)
      else case record_decision (map_of (jindex j) digest) state of
        AlreadyRecorded \<Rightarrow> (Inr False, j, d)
      | Impossible \<Rightarrow> (Inl Corrupt, j, d)
      | Append \<Rightarrow>
          if MAX_UNIQUE_ENTRIES \<le> length (jindex j) \<and> map_of (jindex j) digest = None
          then (Inl Capacity, j, d)
          else if MAX_RECORDS \<le> jrecords j
          then case compact sha j d of
                 (Inl e, d') \<Rightarrow> (Inl e, j, d')
               | (Inr j', d') \<Rightarrow> append_record sha j' digest state d'
          else append_record sha j digest state d)"

section \<open>Abstract logs\<close>

type_synonym ledger_log = "(record_state \<times> ledger_digest) list"

fun log_chunks :: "(bytes \<Rightarrow> bytes) \<Rightarrow> nat \<Rightarrow> ledger_log \<Rightarrow> bytes list" where
  "log_chunks sha n [] = []"
| "log_chunks sha n ((s, dg) # l) = encode_record sha n s dg # log_chunks sha (Suc n) l"

definition log_bytes :: "(bytes \<Rightarrow> bytes) \<Rightarrow> journal_kind \<Rightarrow> ledger_log \<Rightarrow> bytes" where
  "log_bytes sha kind l = header_bytes kind @ concat (log_chunks sha 1 l)"

fun log_index :: "journal_kind \<Rightarrow> ledger_log \<Rightarrow> ledger_index \<Rightarrow> ledger_index option" where
  "log_index kind [] ix = Some ix"
| "log_index kind ((s, dg) # l) ix =
     (if permits kind s \<and> replay_allowed (map_of ix dg) s
         \<and> length (AList.update dg s ix) \<le> MAX_UNIQUE_ENTRIES
      then log_index kind l (AList.update dg s ix) else None)"

definition digests_ok :: "ledger_log \<Rightarrow> bool" where
  "digests_ok l \<longleftrightarrow> (\<forall>(s, dg) \<in> set l. length (digest_bytes dg) = 32)"

definition completed_count :: "ledger_index \<Rightarrow> nat" where
  "completed_count ix = length (filter (\<lambda>(dg, s). s = Completed) ix)"

text \<open>The journal agrees with its log, and the log is on the medium.\<close>

definition journal_log :: "(bytes \<Rightarrow> bytes) \<Rightarrow> journal \<Rightarrow> disk \<Rightarrow> ledger_log \<Rightarrow> bool" where
  "journal_log sha j d l \<longleftrightarrow>
     log_index (jkind j) l [] = Some (jindex j) \<and> digests_ok l
     \<and> jsequence j = length l \<and> jrecords j = length l
     \<and> jfile j < length (inodes d)
     \<and> inodes d ! jfile j = settled (log_bytes sha (jkind j) l)"

definition journal_ok :: "(bytes \<Rightarrow> bytes) \<Rightarrow> journal \<Rightarrow> disk \<Rightarrow> bool" where
  "journal_ok sha j d \<longleftrightarrow> (\<exists>l. journal_log sha j d l)"

text \<open>The directory entry of the journal is on the medium and no compaction is pending.\<close>

definition entry_durable :: "journal \<Rightarrow> disk \<Rightarrow> bool" where
  "entry_durable j d \<longleftrightarrow>
     (\<forall>m\<in>set (dir_images d). m (file_name (jkind j)) = Some (RegularFile (jfile j))
        \<and> m (temp_name (file_name (jkind j))) = None)"

section \<open>Logs and their encodings\<close>

lemma log_chunks_append:
  "log_chunks sha n (l @ l') = log_chunks sha n l @ log_chunks sha (n + length l) l'"
  by (induction l arbitrary: n) auto

lemma length_log_chunks [simp]: "length (log_chunks sha n l) = length l"
  by (induction l arbitrary: n) auto

lemma log_chunk_length:
  assumes "\<And>x. length (sha x) = 32" and "digests_ok l" and "c \<in> set (log_chunks sha n l)"
  shows "length c = RECORD_LEN"
  using assms(2,3)
  by (induction l arbitrary: n) (auto simp: digests_ok_def assms(1) length_encode_record)

lemma length_log_bytes:
  assumes "\<And>x. length (sha x) = 32" and "digests_ok l"
  shows "length (log_bytes sha kind l) = HEADER_LEN + RECORD_LEN * length l"
  using length_concat_const [OF log_chunk_length [OF assms]]
  by (simp add: log_bytes_def codec_simps)

lemma log_index_append:
  "log_index kind (l @ l') ix = Option.bind (log_index kind l ix) (log_index kind l')"
  by (induction l arbitrary: ix) auto

lemma replay_log:
  assumes "\<And>x. length (sha x) = 32"
  shows "log_index kind l ix = Some ix' \<Longrightarrow> digests_ok l \<Longrightarrow> n + length l < 2 ^ 64
    \<Longrightarrow> replay sha kind (log_chunks sha n l) n ix = Inr (n + length l, ix')"
proof (induction l arbitrary: n ix)
  case (Cons e l)
  obtain s dg where e: "e = (s, dg)" by (cases e)
  have "decode_record sha (encode_record sha n s dg) = Inr (n, s, dg)"
    using Cons.prems e by (intro decode_encode_record assms) (auto simp: digests_ok_def)
  then show ?case
    using Cons.prems e Cons.IH [of "AList.update dg s ix" "Suc n"]
    by (auto simp: digests_ok_def split: if_splits)
qed simp

lemma log_index_distinct:
  "log_index kind l ix = Some ix' \<Longrightarrow> distinct (map fst ix) \<Longrightarrow> distinct (map fst ix')"
  by (induction l arbitrary: ix) (auto split: if_splits simp: distinct_update)

lemma completed_count_update:
  "distinct (map fst ix) \<Longrightarrow>
     completed_count (AList.update dg s ix) + (if map_of ix dg = Some Completed then 1 else 0)
       = completed_count ix + (if s = Completed then 1 else 0)"
  by (induction ix) (auto simp: completed_count_def dest: map_of_SomeD split: if_splits)

lemma completed_count_le: "completed_count ix \<le> length ix"
  by (simp add: completed_count_def)

lemma completed_count_full:
  "completed_count ix = length ix \<Longrightarrow> map_of ix dg = Some s \<Longrightarrow> s = Completed"
  unfolding completed_count_def
  by (auto simp: filter_id_conv dest!: map_of_SomeD)
    (metis (mono_tags, lifting) case_prodD length_filter_less less_irrefl)

lemma log_index_length:
  "log_index kind l ix = Some ix' \<Longrightarrow> length ix \<le> MAX_UNIQUE_ENTRIES
    \<Longrightarrow> length ix' \<le> MAX_UNIQUE_ENTRIES"
  by (induction l arbitrary: ix) (auto split: if_splits)

lemma replay_allowed_cases:
  "replay_allowed old s \<longleftrightarrow>
     (old = None \<and> s \<noteq> Completed) \<or> (old = Some Reserved \<and> s = Completed)"
  by (cases old; cases s; (cases "the old")?; simp)

lemma log_index_count:
  "log_index kind l ix = Some ix' \<Longrightarrow> distinct (map fst ix)
    \<Longrightarrow> length l + length ix + completed_count ix = length ix' + completed_count ix'"
proof (induction l arbitrary: ix)
  case (Cons e l)
  obtain s dg where e: "e = (s, dg)" by (cases e)
  let ?ix = "AList.update dg s ix"
  from Cons.prems e have allowed: "replay_allowed (map_of ix dg) s"
    and rest: "log_index kind l ?ix = Some ix'" by (auto split: if_splits)
  have "distinct (map fst ?ix)" using Cons.prems(2) by (rule distinct_update)
  with rest have "length l + length ?ix + completed_count ?ix = length ix' + completed_count ix'"
    by (rule Cons.IH)
  moreover have "length ?ix + completed_count ?ix = length ix + completed_count ix + 1"
    using allowed completed_count_update [OF Cons.prems(2), of dg s]
    by (auto simp: replay_allowed_cases length_AList_update mem_keys_map_of split: if_splits)
  ultimately show ?case by simp
qed simp

section \<open>Compaction is out of reach\<close>

lemma record_decision_Completed: "record_decision (Some Completed) s \<noteq> Append"
  by (cases s) simp_all

lemma journal_log_bounds:
  assumes "journal_log sha j d l"
  shows "length l = length (jindex j) + completed_count (jindex j)"
    and "length (jindex j) \<le> MAX_UNIQUE_ENTRIES"
  using assms log_index_count [of "jkind j" l "[]"] log_index_length [of "jkind j" l "[]"]
  by (auto simp: journal_log_def completed_count_def)

lemma append_below_capacity:
  assumes "journal_log sha j d l"
    and "record_decision (map_of (jindex j) dg) s = Append"
    and "\<not> (MAX_UNIQUE_ENTRIES \<le> length (jindex j) \<and> map_of (jindex j) dg = None)"
  shows "jrecords j < MAX_RECORDS"
proof (rule ccontr)
  assume "\<not> jrecords j < MAX_RECORDS"
  then have "2 * MAX_UNIQUE_ENTRIES \<le> length l"
    using assms(1) by (simp add: journal_log_def MAX_RECORDS_def)
  then have full: "completed_count (jindex j) = length (jindex j)"
    and "MAX_UNIQUE_ENTRIES \<le> length (jindex j)"
    using journal_log_bounds [OF assms(1)] completed_count_le [of "jindex j"] by linarith+
  with assms(3) obtain s' where s': "map_of (jindex j) dg = Some s'" by auto
  with full have "s' = Completed" by (rule completed_count_full)
  with s' assms(2) show False by (simp add: record_decision_Completed)
qed

end
