(* ===== verification/Ledger_Crash.thy ===== *)
theory Ledger_Crash
  imports Ledger_Journal
begin

text \<open>
  Crash consistency of the journal.  The first group of lemmas runs \<open>recover\<close> and
  \<open>journal_open\<close> on a file that holds an encoded log and a torn tail; the second follows an
  append through every I/O failure; the third combines them: whatever a crash leaves is
  reopened as the log before the append or the log after it, and after it whenever the
  append was acknowledged.
\<close>

section \<open>Reopening a log\<close>

definition opened :: "journal_kind \<Rightarrow> nat \<Rightarrow> ledger_log \<Rightarrow> ledger_index \<Rightarrow> journal" where
  "opened kind i l ix =
     \<lparr>jkind = kind, jfile = i, jsequence = length l, jrecords = length l, jindex = ix\<rparr>"

lemma log_length_bound:
  assumes "log_index kind l [] = Some ix"
  shows "length l \<le> MAX_RECORDS"
proof -
  have "length l + completed_count [] = length ix + completed_count ix"
    using log_index_count [OF assms] by simp
  moreover have "length ix \<le> MAX_UNIQUE_ENTRIES" using log_index_length [OF assms] by simp
  ultimately show ?thesis
    using completed_count_le [of ix] by (simp add: MAX_RECORDS_def)
qed

lemma log_length_u64: "log_index kind l [] = Some ix \<Longrightarrow> 1 + length l < 2 ^ 64"
  using log_length_bound by (fastforce simp: MAX_RECORDS_def MAX_UNIQUE_ENTRIES_def)

lemma recover_bytes_log:
  assumes sha: "\<And>x. length (sha x) = 32"
    and ix: "log_index kind l [] = Some ix" and dig: "digests_ok l"
    and t: "length t < RECORD_LEN"
  shows "recover_bytes sha kind (log_bytes sha kind l @ t) = Inr (length l, RECORD_LEN * length l, ix)"
proof -
  let ?bs = "log_bytes sha kind l @ t"
  have body: "length ?bs - HEADER_LEN = RECORD_LEN * length l + length t"
    using length_log_bytes [OF sha dig, where kind = kind] by simp
  have complete: "(RECORD_LEN * length l + length t) div RECORD_LEN * RECORD_LEN = RECORD_LEN * length l"
    using t by (simp add: RECORD_LEN_def)
  have cs: "length (concat (log_chunks sha 1 l)) = RECORD_LEN * length l"
    using length_concat_const [OF log_chunk_length [OF sha dig]] by simp
  have "chunks_exact RECORD_LEN (concat (log_chunks sha 1 l)) = log_chunks sha 1 l"
    using chunks_exact_concat [OF log_chunk_length [OF sha dig], where t = "[]"]
    by (simp add: RECORD_LEN_def)
  then have chunks: "chunks_exact RECORD_LEN (take (RECORD_LEN * length l) (drop HEADER_LEN ?bs))
      = log_chunks sha 1 l"
    using cs by (simp add: log_bytes_def codec_simps)
  have replay: "replay sha kind (log_chunks sha 1 l) 1 [] = Inr (1 + length l, ix)"
    by (rule replay_log [OF sha ix dig log_length_u64 [OF ix]])
  have header: "header_ok kind ?bs" by (simp add: log_bytes_def header_ok_bytes)
  show ?thesis
    unfolding recover_bytes_def Let_def body complete chunks replay using header by simp
qed

lemma recover_log:
  assumes sha: "\<And>x. length (sha x) = 32"
    and ix: "log_index kind l [] = Some ix" and dig: "digests_ok l"
    and t: "length t < RECORD_LEN"
    and data: "fdata (inodes d ! i) = log_bytes sha kind l @ t" and plan: "plan d = []"
  shows "recover sha i kind d =
    (Inr (length l, length l, ix),
     if t = [] then d
     else update_inode i sync_file
       (update_inode i (truncate_file (HEADER_LEN + RECORD_LEN * length l)) d))"
proof -
  have "length (log_bytes sha kind l @ t) - HEADER_LEN = RECORD_LEN * length l + length t"
    using length_log_bytes [OF sha dig, where kind = kind] by simp
  moreover have "RECORD_LEN * length l div RECORD_LEN = length l" by (simp add: RECORD_LEN_def)
  ultimately show ?thesis
    using data plan recover_bytes_log [OF sha ix dig t]
    by (simp add: recover_def io_bind_def read_all_def set_len_def sync_all_def io_return_def)
qed

lemma open_log:
  assumes sha: "\<And>x. length (sha x) = 32"
    and ix: "log_index kind l [] = Some ix" and dig: "digests_ok l"
    and t: "length t < RECORD_LEN" and fits: "length l < MAX_RECORDS \<or> t = []"
    and plan: "plan d = []" and i: "i < length (inodes d)"
    and fobj: "inodes d ! i = settled (log_bytes sha kind l @ t)"
    and entry: "entries d (file_name kind) = Some (RegularFile i)"
    and temp: "entries d (temp_name (file_name kind)) = None"
  shows "\<exists>d'. journal_open sha kind d = (Inr (opened kind i l ix), d')
    \<and> journal_log sha (opened kind i l ix) d' l
    \<and> entries d' = entries d \<and> dir_images d' = dir_images d \<and> plan d' = []"
proof -
  let ?n = "HEADER_LEN + RECORD_LEN * length l"
  let ?d = "if t = [] then d else update_inode i sync_file (update_inode i (truncate_file ?n) d)"
  have len: "length (log_bytes sha kind l) = ?n" by (rule length_log_bytes [OF sha dig])
  have "length (log_bytes sha kind l @ t) \<le> MAX_FILE_BYTES"
    using len fits t log_length_bound [OF ix] by (auto simp: MAX_FILE_BYTES_def RECORD_LEN_def)
  moreover have "length (log_bytes sha kind l @ t) \<noteq> 0" using len by (simp add: HEADER_LEN_def)
  moreover have "recover sha i kind d = (Inr (length l, length l, ix), ?d)"
    using fobj plan by (intro recover_log sha ix dig t) simp_all
  ultimately have "journal_open sha kind d = (Inr (opened kind i l ix), ?d)"
    using plan entry temp fobj
    by (simp add: journal_open_def cleanup_temp_def open_active_def file_length_def io_bind_def
        io_return_def opened_def)
  moreover have "inodes ?d ! i = settled (log_bytes sha kind l)"
    using i fobj len by (auto simp: settled_def sync_file_def truncate_file_def)
  then have "journal_log sha (opened kind i l ix) ?d l"
    using i ix dig by (simp add: journal_log_def opened_def)
  ultimately show ?thesis using plan by auto
qed

section \<open>Appending under I/O failures\<close>

text \<open>Everything but file \<open>i\<close> is the same.\<close>

definition only_file :: "nat \<Rightarrow> disk \<Rightarrow> disk \<Rightarrow> bool" where
  "only_file i d d' \<longleftrightarrow>
     entries d' = entries d \<and> dir_images d' = dir_images d
     \<and> length (inodes d') = length (inodes d) \<and> (\<forall>k. k \<noteq> i \<longrightarrow> inodes d' ! k = inodes d ! k)"

lemma only_file_refl [simp]: "only_file i d d"
  by (simp add: only_file_def)

lemma log_bytes_snoc:
  "log_bytes sha kind (l @ [(s, dg)]) = log_bytes sha kind l @ encode_record sha (length l + 1) s dg"
  by (simp add: log_bytes_def log_chunks_append)

lemma append_image_cases:
  assumes "c \<in> set (fimages (append_file bs (settled b)))"
  obtains k where "k \<le> length bs" and "c = b @ take k bs"
proof -
  have "c = b @ take 0 bs \<or> (\<exists>k \<le> length bs. c = b @ take k bs)"
    using assms by (auto simp: fimages_append_file)
  then show ?thesis using that by blast
qed

lemma write_all_cases:
  obtains (ok) "write_all i bs d = (Inr (), update_inode i (append_file bs) (d\<lparr>plan := tl (plan d)\<rparr>))"
  | (fail) k where "write_all i bs d =
      (Inl Unavailable, update_inode i (append_file (take k bs)) (d\<lparr>plan := tl (plan d)\<rparr>))"
proof (cases "plan d")
  case Nil
  then show ?thesis using ok by (simp add: write_all_def io_outcome_def)
next
  case (Cons x xs)
  then show ?thesis
    by (cases x) (simp_all add: write_all_def io_outcome_def ok fail)
qed

text \<open>What an append leaves on the disk: the record, or a prefix of it.\<close>

lemma append_bytes_cases:
  assumes i: "i < length (inodes d)" and b: "inodes d ! i = settled b"
    and run: "io_bind (io_bind io_check (\<lambda>_. write_all i bs)) (\<lambda>_. sync_all i) d = (r, d')"
  shows "only_file i d d' \<and>
    ((r = Inr () \<and> inodes d' ! i = settled (b @ bs))
     \<or> (r = Inl Unavailable
        \<and> (\<forall>c\<in>set (fimages (inodes d' ! i)). \<exists>k \<le> length bs. c = b @ take k bs)))"
proof (cases rule: io_check_cases [of d])
  case fail
  then show ?thesis using run b by (auto simp: io_bind_def only_file_def intro!: exI [of _ 0])
next
  case ok
  let ?d = "d\<lparr>plan := tl (plan d)\<rparr>"
  have b': "inodes ?d ! i = settled b" using b by simp
  show ?thesis
  proof (cases rule: write_all_cases [of i bs ?d])
    case (fail k)
    then have "r = Inl Unavailable"
      and d': "d' = update_inode i (append_file (take k bs)) (?d\<lparr>plan := tl (plan ?d)\<rparr>)"
      using run ok by (simp_all add: io_bind_def)
    moreover have "\<exists>k' \<le> length bs. c = b @ take k' bs"
      if "c \<in> set (fimages (inodes d' ! i))" for c
    proof -
      from that have "c \<in> set (fimages (append_file (take k bs) (settled b)))"
        using d' i b by simp
      then obtain k' where "k' \<le> length (take k bs)" "c = b @ take k' (take k bs)"
        by (rule append_image_cases)
      then have "k' \<le> length bs" and "c = b @ take k' bs" by (simp_all add: min_absorb1)
      then show ?thesis by blast
    qed
    ultimately show ?thesis by (auto simp: only_file_def)
  next
    case wrote: ok
    let ?e = "update_inode i (append_file bs) (?d\<lparr>plan := tl (plan ?d)\<rparr>)"
    have e: "inodes ?e ! i = append_file bs (settled b)" using i b by simp
    show ?thesis
    proof (cases rule: io_check_cases [of ?e])
      case synced: ok
      then have "r = Inr ()" and d': "d' = update_inode i sync_file (?e\<lparr>plan := tl (plan ?e)\<rparr>)"
        using run ok wrote by (simp_all add: io_bind_def sync_all_def)
      moreover have "inodes d' ! i = settled (b @ bs)"
        using d' i b by (simp add: settled_def sync_file_def append_file_def)
      ultimately show ?thesis by (simp add: only_file_def)
    next
      case fail
      then have "r = Inl Unavailable" and d': "d' = ?e\<lparr>plan := tl (plan ?e)\<rparr>"
        using run ok wrote by (simp_all add: io_bind_def sync_all_def)
      moreover have "\<exists>k \<le> length bs. c = b @ take k bs" if "c \<in> set (fimages (inodes d' ! i))" for c
        using append_image_cases [of c bs b] that d' e by auto
      ultimately show ?thesis by (auto simp: only_file_def)
    qed
  qed
qed

lemma record_decision_replay:
  "record_decision old s = Append \<Longrightarrow> s = Completed \<longrightarrow> old \<noteq> None \<Longrightarrow> replay_allowed old s"
  by (cases old; cases s; (cases "the old")?; simp)

lemma log_index_snoc:
  assumes "log_index kind l [] = Some ix" and "permits kind s"
    and "record_decision (map_of ix dg) s = Append" and "s = Completed \<longrightarrow> map_of ix dg \<noteq> None"
    and "\<not> (MAX_UNIQUE_ENTRIES \<le> length ix \<and> map_of ix dg = None)"
  shows "log_index kind (l @ [(s, dg)]) [] = Some (AList.update dg s ix)"
proof -
  have "length (AList.update dg s ix) \<le> MAX_UNIQUE_ENTRIES"
    using assms(5) log_index_length [OF assms(1)]
    by (auto simp: length_AList_update mem_keys_map_of)
  then show ?thesis
    using assms record_decision_replay [OF assms(3,4)] by (simp add: log_index_append)
qed

text \<open>The three ways a record call can end on a journal that agrees with its log.\<close>

lemma record_cases:
  assumes sha: "\<And>x. length (sha x) = 32" and jl: "journal_log sha j d l"
    and dig: "length (digest_bytes dg) = 32"
    and known: "s = Completed \<longrightarrow> map_of (jindex j) dg \<noteq> None"
    and run: "journal_record sha j dg s d = (r, j', d')"
  obtains (same) "j' = j" "d' = d" "r \<noteq> Inr True"
  | (written) "r = Inr True" "journal_log sha j' d' (l @ [(s, dg)])"
      "jindex j' = AList.update dg s (jindex j)" "jkind j' = jkind j" "jfile j' = jfile j"
      "only_file (jfile j) d d'" "map_of (jindex j) dg = None \<or> s = Completed"
  | (torn) "r = Inl Unavailable" "jindex j' = jindex j" "jkind j' = jkind j" "jfile j' = jfile j"
      "log_index (jkind j) (l @ [(s, dg)]) [] = Some (AList.update dg s (jindex j))"
      "length l < MAX_RECORDS" "only_file (jfile j) d d'"
      "\<And>c. c \<in> set (fimages (inodes d' ! jfile j)) \<Longrightarrow>
         \<exists>k \<le> RECORD_LEN. c = log_bytes sha (jkind j) l @ take k (encode_record sha (length l + 1) s dg)"
proof (cases "permits (jkind j) s \<and> record_decision (map_of (jindex j) dg) s = Append
    \<and> \<not> (MAX_UNIQUE_ENTRIES \<le> length (jindex j) \<and> map_of (jindex j) dg = None)")
  case False
  then show ?thesis
    using run by (intro same) (auto simp: journal_record_def split: if_splits record_verdict.splits)
next
  case True
  then have perm: "permits (jkind j) s"
    and dec: "record_decision (map_of (jindex j) dg) s = Append"
    and room: "\<not> (MAX_UNIQUE_ENTRIES \<le> length (jindex j) \<and> map_of (jindex j) dg = None)"
    by auto
  from jl have ix: "log_index (jkind j) l [] = Some (jindex j)" and dl: "digests_ok l"
    and seq: "jsequence j = length l" "jrecords j = length l"
    and i: "jfile j < length (inodes d)"
    and b: "inodes d ! jfile j = settled (log_bytes sha (jkind j) l)"
    by (simp_all add: journal_log_def)
  let ?rec = "encode_record sha (length l + 1) s dg"
  have len: "length ?rec = RECORD_LEN" using dig sha by (rule length_encode_record)
  have below: "length l < MAX_RECORDS" using append_below_capacity [OF jl dec room] seq by simp
  have ix': "log_index (jkind j) (l @ [(s, dg)]) [] = Some (AList.update dg s (jindex j))"
    by (rule log_index_snoc [OF ix perm dec known room])
  have u64: "length l + 1 < 2 ^ 64" using log_length_u64 [OF ix] by simp
  obtain x e where io: "io_bind (io_bind io_check (\<lambda>_. write_all (jfile j) ?rec)) (\<lambda>_. sync_all (jfile j)) d
      = (x, e)" by fastforce
  have run': "append_record sha j dg s d = (r, j', d')"
    using run perm dec room below seq by (simp add: journal_record_def)
  note io_cases = append_bytes_cases [OF i b io]
  show ?thesis
  proof (cases x)
    case (Inl err)
    with io_cases have "err = Unavailable" by simp
    with Inl run' io seq u64 have "r = Inl Unavailable" "d' = e" "j' = j\<lparr>jsequence := length l + 1\<rparr>"
      by (simp_all add: append_record_def Let_def)
    with io_cases Inl len ix' below show ?thesis by (intro torn) auto
  next
    case (Inr u)
    with run' io seq u64 have r: "r = Inr True" "d' = e"
      and j': "j' = j\<lparr>jsequence := length l + 1, jindex := AList.update dg s (jindex j),
        jrecords := length l + 1\<rparr>"
      by (simp_all add: append_record_def Let_def)
    have "inodes d' ! jfile j = settled (log_bytes sha (jkind j) (l @ [(s, dg)]))"
      using io_cases Inr r by (simp add: log_bytes_snoc)
    then have "journal_log sha j' d' (l @ [(s, dg)])"
      using ix' dl dig i io_cases r j' by (simp add: journal_log_def digests_ok_def only_file_def)
    moreover have "map_of (jindex j) dg = None \<or> s = Completed"
      using dec by (cases "map_of (jindex j) dg"; cases s; (cases "the (map_of (jindex j) dg)")?) auto
    ultimately show ?thesis using r j' io_cases by (intro written) simp_all
  qed
qed

section \<open>Crashing and reopening\<close>

text \<open>The contents a crash may leave are logs with torn tails, all satisfying \<open>P\<close>.\<close>

definition image_log ::
  "(bytes \<Rightarrow> bytes) \<Rightarrow> journal_kind \<Rightarrow> (ledger_log \<Rightarrow> ledger_index \<Rightarrow> bool) \<Rightarrow> bytes \<Rightarrow> bool" where
  "image_log sha kind P c \<longleftrightarrow>
     (\<exists>l t ix. c = log_bytes sha kind l @ t \<and> length t < RECORD_LEN
        \<and> (length l < MAX_RECORDS \<or> t = []) \<and> digests_ok l
        \<and> log_index kind l [] = Some ix \<and> P l ix)"

lemma crash_reopens:
  assumes sha: "\<And>x. length (sha x) = 32"
    and durable: "entry_durable j d" and i: "jfile j < length (inodes d)"
    and images: "\<And>c. c \<in> set (fimages (inodes d ! jfile j)) \<Longrightarrow> image_log sha (jkind j) P c"
    and crash: "crash d d'" and plan: "plan d' = []"
  shows "\<exists>l j' d''. journal_open sha (jkind j) d' = (Inr j', d'') \<and> journal_log sha j' d'' l
    \<and> entry_durable j' d'' \<and> jkind j' = jkind j \<and> P l (jindex j')"
proof -
  from crash obtain m cs os where crashI: "m \<in> set (dir_images d)" "length cs = length (inodes d)"
    "\<And>i. i < length (inodes d) \<Longrightarrow> cs ! i \<in> set (fimages (inodes d ! i))"
    "d' = \<lparr>inodes = map settled cs, entries = m, dir_images = [m], plan = os\<rparr>"
    by (rule crashE) blast
  let ?i = "jfile j" and ?kind = "jkind j"
  have entry: "entries d' (file_name ?kind) = Some (RegularFile ?i)"
    and temp: "entries d' (temp_name (file_name ?kind)) = None"
    using durable crashI by (auto simp: entry_durable_def)
  have i': "?i < length (inodes d')" using i crashI by simp
  have "image_log sha ?kind P (cs ! ?i)" using images i crashI by simp
  then obtain l t ix where c: "cs ! ?i = log_bytes sha ?kind l @ t"
    and t: "length t < RECORD_LEN" and fits: "length l < MAX_RECORDS \<or> t = []"
    and dig: "digests_ok l" and ix: "log_index ?kind l [] = Some ix" and P: "P l ix"
    unfolding image_log_def by blast
  have "inodes d' ! ?i = settled (log_bytes sha ?kind l @ t)" using c i crashI by simp
  from open_log [OF sha ix dig t fits plan i' this entry temp]
  obtain d'' where "journal_open sha ?kind d' = (Inr (opened ?kind ?i l ix), d'')"
    and "journal_log sha (opened ?kind ?i l ix) d'' l"
    and "entries d'' = entries d'" "dir_images d'' = dir_images d'"
    by blast
  moreover from this entry temp crashI have "entry_durable (opened ?kind ?i l ix) d''"
    by (simp add: entry_durable_def opened_def)
  moreover have "jkind (opened ?kind ?i l ix) = ?kind" "jindex (opened ?kind ?i l ix) = ix"
    by (simp_all add: opened_def)
  ultimately show ?thesis using P by metis
qed

lemma entry_durable_only_file:
  "only_file i d d' \<Longrightarrow> jkind j' = jkind j \<Longrightarrow> jfile j' = jfile j
    \<Longrightarrow> entry_durable j d \<Longrightarrow> entry_durable j' d'"
  by (simp add: only_file_def entry_durable_def)

lemma journal_log_image:
  assumes "journal_log sha j d l" and "P l (jindex j)"
    and "c \<in> set (fimages (inodes d ! jfile j))"
  shows "image_log sha (jkind j) P c"
  using assms unfolding journal_log_def image_log_def
  by (intro exI [of _ l] exI [of _ "[]"] exI [of _ "jindex j"]) (simp add: RECORD_LEN_def)

lemma torn_image:
  assumes sha: "\<And>x. length (sha x) = 32" and jl: "journal_log sha j d l"
    and dig: "length (digest_bytes dg) = 32"
    and ix': "log_index (jkind j) (l @ [(s, dg)]) [] = Some ix'" and below: "length l < MAX_RECORDS"
    and k: "k \<le> RECORD_LEN"
    and P: "P l (jindex j)" "P (l @ [(s, dg)]) ix'"
  shows "image_log sha (jkind j) P
    (log_bytes sha (jkind j) l @ take k (encode_record sha (length l + 1) s dg))"
proof (cases "k < RECORD_LEN")
  case True
  then show ?thesis
    using jl below P(1) unfolding journal_log_def image_log_def
    by (intro exI [of _ l] exI [of _ "take k (encode_record sha (length l + 1) s dg)"]
        exI [of _ "jindex j"]) simp
next
  case False
  then have "k = RECORD_LEN" using k by simp
  then have "log_bytes sha (jkind j) l @ take k (encode_record sha (length l + 1) s dg)
      = log_bytes sha (jkind j) (l @ [(s, dg)]) @ []"
    using length_encode_record [OF dig sha, where n = "length l + 1"] by (simp add: log_bytes_snoc)
  then show ?thesis
    using jl dig ix' P(2) unfolding image_log_def journal_log_def
    by (intro exI [of _ "l @ [(s, dg)]"] exI [of _ "[]"] exI [of _ ix'])
      (simp add: RECORD_LEN_def digests_ok_def)
qed

text \<open>
  What a restart finds after a record call, whether the call was acknowledged, refused or
  torn by a failed write or sync.
\<close>

lemma record_then_restart:
  assumes sha: "\<And>x. length (sha x) = 32" and ok: "journal_ok sha j d"
    and durable: "entry_durable j d"
    and dig: "length (digest_bytes dg) = 32"
    and known: "s = Completed \<longrightarrow> map_of (jindex j) dg \<noteq> None"
    and run: "journal_record sha j dg s d = (r, j', d')"
    and crash: "crash d' d''" and plan: "plan d'' = []"
  shows "\<exists>j3 d3. journal_open sha (jkind j) d'' = (Inr j3, d3) \<and> journal_ok sha j3 d3
    \<and> entry_durable j3 d3 \<and> jkind j3 = jkind j
    \<and> (jindex j3 = jindex j \<or> jindex j3 = AList.update dg s (jindex j))
    \<and> (r = Inr True \<longrightarrow> jindex j3 = jindex j')
    \<and> (r = Inr False \<longrightarrow> jindex j3 = jindex j')"
proof -
  from ok obtain l where jl: "journal_log sha j d l" unfolding journal_ok_def by blast
  from jl have i: "jfile j < length (inodes d)" by (simp add: journal_log_def)
  show ?thesis
    using sha jl dig known run
  proof (cases rule: record_cases)
    case same
    then have "c \<in> set (fimages (inodes d' ! jfile j)) \<Longrightarrow>
        image_log sha (jkind j) (\<lambda>_ ix. ix = jindex j) c" for c
      using jl by (intro journal_log_image [of _ _ d l]) simp_all
    from crash_reopens [OF sha _ _ this crash plan] same durable i show ?thesis
      by (auto simp: journal_ok_def)
  next
    case written
    then have "c \<in> set (fimages (inodes d' ! jfile j')) \<Longrightarrow>
        image_log sha (jkind j') (\<lambda>_ ix. ix = jindex j') c" for c
      by (intro journal_log_image [of _ _ d']) simp_all
    from crash_reopens [OF sha _ _ this crash plan] entry_durable_only_file [OF written(6) written(4,5) durable]
      i written
    show ?thesis by (auto simp: journal_ok_def journal_log_def)
  next
    case torn
    have "image_log sha (jkind j) (\<lambda>_ ix. ix = jindex j \<or> ix = AList.update dg s (jindex j)) c"
      if "c \<in> set (fimages (inodes d' ! jfile j))" for c
      using torn(8) [OF that] torn_image [OF sha jl dig torn(5,6)] by auto
    from crash_reopens [OF sha _ _ this crash plan] entry_durable_only_file [OF torn(7) refl refl durable]
      i torn(1,7)
    show ?thesis by (auto simp: journal_ok_def only_file_def)
  qed
qed

end
