(* ===== verification/Ledger_Session.thy ===== *)
theory Ledger_Session
  imports Ledger_Crash
begin

text \<open>
  The life of a journal across process restarts.  A session records, is refused, or stops at
  an I/O failure; a restart finds one of the disks a crash may leave and reopens the journal.
  The relation \<open>ledger_step\<close> is interpreted in the contract \<open>grant_once\<close> of the prelude: a
  digest is granted at most once over any run, however the I/O failures and crashes fall.
  The last section holds the disks on which the journal code does not keep its promise.
\<close>

section \<open>Sessions\<close>

datatype ledger_event =
    Recorded ledger_digest record_state bool
  | Refused ledger_error
  | Restarted

text \<open>
  A \<open>Completed\<close> record is only ever written for a digest that \<open>check_and_reserve\<close> reserved.
  An \<open>Unavailable\<close> record call is followed by a restart.
\<close>

inductive ledger_step ::
  "(bytes \<Rightarrow> bytes) \<Rightarrow> journal \<times> disk \<Rightarrow> ledger_event \<Rightarrow> journal \<times> disk \<Rightarrow> bool" for sha where
  recorded: "length (digest_bytes dg) = 32 \<Longrightarrow> s = Completed \<longrightarrow> map_of (jindex j) dg \<noteq> None
    \<Longrightarrow> journal_record sha j dg s d = (Inr b, j', d')
    \<Longrightarrow> ledger_step sha (j, d) (Recorded dg s b) (j', d')"
| refused: "length (digest_bytes dg) = 32 \<Longrightarrow> s = Completed \<longrightarrow> map_of (jindex j) dg \<noteq> None
    \<Longrightarrow> journal_record sha j dg s d = (Inl e, j', d') \<Longrightarrow> e \<noteq> Unavailable
    \<Longrightarrow> ledger_step sha (j, d) (Refused e) (j', d')"
| failed: "length (digest_bytes dg) = 32 \<Longrightarrow> s = Completed \<longrightarrow> map_of (jindex j) dg \<noteq> None
    \<Longrightarrow> journal_record sha j dg s d = (Inl Unavailable, j', d')
    \<Longrightarrow> crash d' d'' \<Longrightarrow> plan d'' = [] \<Longrightarrow> journal_open sha (jkind j) d'' = (Inr j3, d3)
    \<Longrightarrow> ledger_step sha (j, d) Restarted (j3, d3\<lparr>plan := os\<rparr>)"
| restarted: "crash d d'' \<Longrightarrow> plan d'' = [] \<Longrightarrow> journal_open sha (jkind j) d'' = (Inr j3, d3)
    \<Longrightarrow> ledger_step sha (j, d) Restarted (j3, d3\<lparr>plan := os\<rparr>)"

definition ledger_inv :: "(bytes \<Rightarrow> bytes) \<Rightarrow> journal \<times> disk \<Rightarrow> bool" where
  "ledger_inv sha st \<longleftrightarrow>
     (\<forall>x. length (sha x) = 32) \<and> journal_ok sha (fst st) (snd st) \<and> entry_durable (fst st) (snd st)"

definition ledger_held :: "journal \<times> disk \<Rightarrow> ledger_digest \<Rightarrow> bool" where
  "ledger_held st dg \<longleftrightarrow> map_of (jindex (fst st)) dg \<noteq> None"

fun ledger_grants :: "ledger_event \<Rightarrow> ledger_digest \<Rightarrow> bool" where
  "ledger_grants (Recorded dg s b) dg' \<longleftrightarrow> dg = dg' \<and> s \<noteq> Completed \<and> b"
| "ledger_grants _ _ \<longleftrightarrow> False"

text \<open>A freshly initialised delivery journal whose directory entry is on the medium.\<close>

definition sample_sha :: "bytes \<Rightarrow> bytes" where
  "sample_sha _ = replicate 32 0"

definition sample_digest :: "byte \<Rightarrow> ledger_digest" where
  "sample_digest b = LedgerDigest (replicate 32 b)"

definition sample_journal :: journal where
  "sample_journal = opened Delivery 0 [] []"

definition sample_disk :: "outcome list \<Rightarrow> disk" where
  "sample_disk os =
     \<lparr>inodes = [settled (header_bytes Delivery)],
      entries = [file_name Delivery \<mapsto> RegularFile 0],
      dir_images = [[file_name Delivery \<mapsto> RegularFile 0]], plan = os\<rparr>"

definition empty_disk :: "outcome list \<Rightarrow> disk" where
  "empty_disk os = \<lparr>inodes = [], entries = \<lambda>_. None, dir_images = [\<lambda>_. None], plan = os\<rparr>"

text \<open>\<open>Journal::record\<close> with its compaction branch removed.\<close>

definition record_without_compaction ::
  "(bytes \<Rightarrow> bytes) \<Rightarrow> journal \<Rightarrow> ledger_digest \<Rightarrow> record_state \<Rightarrow> disk
    \<Rightarrow> (ledger_error + bool) \<times> journal \<times> disk" where
  "record_without_compaction sha j dg s d =
     (if \<not> permits (jkind j) s \<or> record_decision (map_of (jindex j) dg) s = Impossible
      then (Inl Corrupt, j, d)
      else if record_decision (map_of (jindex j) dg) s = AlreadyRecorded then (Inr False, j, d)
      else if MAX_UNIQUE_ENTRIES \<le> length (jindex j) \<and> map_of (jindex j) dg = None
      then (Inl Capacity, j, d)
      else append_record sha j dg s d)"

text \<open>The log a compaction writes: the sorted index, one record per digest.\<close>

definition compact_log :: "ledger_index \<Rightarrow> ledger_log" where
  "compact_log ix = map (\<lambda>(dg, s). (s, dg)) (compact_entries ix)"

section \<open>The contract\<close>

lemma ledger_inv_plan [simp]: "ledger_inv sha (j, d\<lparr>plan := os\<rparr>) = ledger_inv sha (j, d)"
  by (simp add: ledger_inv_def journal_ok_def journal_log_def entry_durable_def)

lemma ledger_invD:
  assumes "ledger_inv sha (j, d)"
  shows "\<And>x. length (sha x) = 32" "journal_ok sha j d" "entry_durable j d"
  using assms by (auto simp: ledger_inv_def)

lemma restart_after_record:
  assumes inv: "ledger_inv sha (j, d)" and "length (digest_bytes dg) = 32"
    and "s = Completed \<longrightarrow> map_of (jindex j) dg \<noteq> None"
    and "journal_record sha j dg s d = (r, j', d')" and "crash d' d''" and "plan d'' = []"
    and opened: "journal_open sha (jkind j) d'' = (Inr j3, d3)"
  shows "ledger_inv sha (j3, d3) \<and> (ledger_held (j, d) k \<longrightarrow> ledger_held (j3, d3) k)"
proof -
  obtain j4 d4 where "journal_open sha (jkind j) d'' = (Inr j4, d4)" "journal_ok sha j4 d4"
    "entry_durable j4 d4" "jindex j4 = jindex j \<or> jindex j4 = AList.update dg s (jindex j)"
    using record_then_restart [OF ledger_invD [OF inv] assms(2-6)] by blast
  with opened ledger_invD(1) [OF inv] show ?thesis
    by (auto simp: ledger_inv_def ledger_held_def map_of_AList_update)
qed

lemma restart_idle:
  assumes inv: "ledger_inv sha (j, d)" and crash: "crash d d''" and plan: "plan d'' = []"
  shows "\<exists>j3 d3. journal_open sha (jkind j) d'' = (Inr j3, d3) \<and> ledger_inv sha (j3, d3)
    \<and> jindex j3 = jindex j"
proof -
  from ledger_invD(2) [OF inv] obtain l where jl: "journal_log sha j d l"
    unfolding journal_ok_def by blast
  then have i: "jfile j < length (inodes d)" by (simp add: journal_log_def)
  have "c \<in> set (fimages (inodes d ! jfile j)) \<Longrightarrow> image_log sha (jkind j) (\<lambda>_ ix. ix = jindex j) c" for c
    using jl by (intro journal_log_image [of _ _ d l]) simp_all
  from crash_reopens [OF ledger_invD(1) [OF inv] ledger_invD(3) [OF inv] i this crash plan]
  show ?thesis using ledger_invD(1) [OF inv] by (auto simp: ledger_inv_def journal_ok_def)
qed

lemma record_keeps:
  assumes inv: "ledger_inv sha (j, d)" and dig: "length (digest_bytes dg) = 32"
    and known: "s = Completed \<longrightarrow> map_of (jindex j) dg \<noteq> None"
    and run: "journal_record sha j dg s d = (r, j', d')" and "r \<noteq> Inl Unavailable"
  shows "ledger_inv sha (j', d') \<and> (ledger_held (j, d) k \<longrightarrow> ledger_held (j', d') k)
    \<and> (r = Inr True \<and> s \<noteq> Completed \<longrightarrow> \<not> ledger_held (j, d) dg \<and> ledger_held (j', d') dg)"
proof -
  from ledger_invD(2) [OF inv] obtain l where jl: "journal_log sha j d l"
    unfolding journal_ok_def by blast
  show ?thesis
    using ledger_invD(1) [OF inv] jl dig known run
  proof (cases rule: record_cases)
    case same
    then show ?thesis using inv by simp
  next
    case written
    have "entry_durable j' d'"
      by (rule entry_durable_only_file [OF written(6) written(4,5) ledger_invD(3) [OF inv]])
    with written ledger_invD(1) [OF inv] show ?thesis
      by (auto simp: ledger_inv_def ledger_held_def journal_ok_def map_of_AList_update)
  next
    case torn
    then show ?thesis using assms(5) by simp
  qed
qed

lemma ledger_step_keeps:
  "ledger_step sha st e st' \<Longrightarrow> ledger_inv sha st \<Longrightarrow>
     ledger_inv sha st' \<and> (ledger_held st k \<longrightarrow> ledger_held st' k)
     \<and> (ledger_grants e k \<longrightarrow> \<not> ledger_held st k \<and> ledger_held st' k)"
proof (induction rule: ledger_step.induct)
  case (recorded dg s j d b j' d')
  then show ?case using record_keeps [of sha j d dg s "Inr b" j' d'] by auto
next
  case (refused dg s j d e j' d')
  then show ?case using record_keeps [of sha j d dg s "Inl e" j' d'] by auto
next
  case (failed dg s j d j' d' d'' j3 d3 os)
  then show ?case
    using restart_after_record [OF failed.prems failed.hyps(1-6)] by (simp add: ledger_held_def)
next
  case (restarted d d'' j j3 d3 os)
  then show ?case using restart_idle [OF restarted.prems restarted.hyps(1,2)]
    by (auto simp: ledger_held_def)
qed

interpretation ledger: grant_once "ledger_step sha" ledger_grants ledger_held "ledger_inv sha" for sha
  by unfold_locales (use ledger_step_keeps in blast)+

section \<open>Durability and at-most-once\<close>

lemma temp_name_neq [simp]: "temp_name a \<noteq> a" "a \<noteq> temp_name a"
  by (auto simp: temp_name_def dest: arg_cong [where f = length])

lemma sample_inv: "ledger_inv sample_sha (sample_journal, sample_disk os)"
  by (auto simp: ledger_inv_def sample_sha_def sample_journal_def sample_disk_def opened_def
      journal_ok_def journal_log_def entry_durable_def log_bytes_def digests_ok_def intro!: exI [of _ "[]"])

lemma sample_digest_length [simp]: "length (digest_bytes (sample_digest b)) = 32"
  by (simp add: sample_digest_def)

lemma sample_digest_inject [simp]: "sample_digest a = sample_digest b \<longleftrightarrow> a = b"
  by (simp add: sample_digest_def numeral_eq_Suc)

text \<open>A quiet disk: nothing is waiting to be written, so a crash may leave it as it is.\<close>

lemma crash_visible:
  assumes "entries d \<in> set (dir_images d)" and "\<And>f. f \<in> set (inodes d) \<Longrightarrow> fdata f \<in> set (fimages f)"
  shows "crash d \<lparr>inodes = map (settled \<circ> fdata) (inodes d), entries = entries d,
    dir_images = [entries d], plan = os\<rparr>"
  using crashI [OF assms(1), of "map fdata (inodes d)"] assms(2) by simp

lemma sample_record:
  "\<exists>j' d'. journal_record sample_sha sample_journal (sample_digest b) Reserved (sample_disk [])
     = (Inr True, j', d') \<and> map_of (jindex j') (sample_digest b) = Some Reserved
     \<and> jkind j' = Delivery \<and> (\<exists>d''. crash d' d'' \<and> plan d'' = [])"
proof -
  obtain r j' d' where run:
    "journal_record sample_sha sample_journal (sample_digest b) Reserved (sample_disk []) = (r, j', d')"
    by (metis prod_cases3)
  then have d': "r = Inr True" "jindex j' = [(sample_digest b, Reserved)]" "jkind j' = Delivery"
    "entries d' \<in> set (dir_images d')" "\<And>f. f \<in> set (inodes d') \<Longrightarrow> fdata f \<in> set (fimages f)"
    by (auto simp: journal_record_def append_record_def sample_journal_def opened_def sample_disk_def
        MAX_UNIQUE_ENTRIES_def MAX_RECORDS_def io_bind_def write_all_def sync_all_def io_outcome_def
        update_inode_def)
  with run crash_visible [OF d'(4,5), where os = "[]"] show ?thesis by auto
qed





section \<open>Where recovery rejects what the journal wrote\<close>

lemma replay_append:
  "replay sha kind (cs @ cs') n ix =
     (case replay sha kind cs n ix of Inl e \<Rightarrow> Inl e | Inr (m, ix') \<Rightarrow> replay sha kind cs' m ix')"
  by (induction cs arbitrary: n ix) (auto split: sum.splits)

lemma replay_bad_record:
  assumes "\<And>x. length (sha x) = 32" and "length (digest_bytes dg) = 32" and "m < 2 ^ 64"
    and "m \<noteq> n \<or> \<not> permits kind s \<or> \<not> replay_allowed (map_of ix dg) s"
  shows "replay sha kind (encode_record sha m s dg # cs) n ix = Inl Corrupt"
  using assms(4) decode_encode_record [of m dg sha s] assms(1-3) by auto

lemma open_corrupt:
  assumes "plan d = []" and "i < length (inodes d)" and "fdata (inodes d ! i) = bs"
    and "entries d (file_name kind) = Some (RegularFile i)"
    and "entries d (temp_name (file_name kind)) = None"
    and "bs \<noteq> []" and "length bs \<le> MAX_FILE_BYTES" and "recover_bytes sha kind bs = Inl Corrupt"
  shows "fst (journal_open sha kind d) = Inl Corrupt"
  using assms
  by (simp add: journal_open_def cleanup_temp_def open_active_def file_length_def io_bind_def
      io_return_def io_error_def recover_def read_all_def)

lemma recover_bytes_chunks:
  assumes len: "\<And>c. c \<in> set cs \<Longrightarrow> length c = RECORD_LEN"
  shows "recover_bytes sha kind (header_bytes kind @ concat cs) =
    (case replay sha kind cs 1 [] of Inl e \<Rightarrow> Inl e
     | Inr (m, ix) \<Rightarrow> Inr (m - 1, RECORD_LEN * length cs, ix))"
proof -
  have total: "length (concat cs) = RECORD_LEN * length cs" by (rule length_concat_const [OF len])
  have chunks: "chunks_exact RECORD_LEN (concat cs) = cs"
    using chunks_exact_concat [OF len, where t = "[]"] by (simp add: RECORD_LEN_def)
  have body: "length (header_bytes kind @ concat cs) - HEADER_LEN = RECORD_LEN * length cs"
    using total by (simp add: codec_simps)
  have complete: "RECORD_LEN * length cs div RECORD_LEN * RECORD_LEN = RECORD_LEN * length cs"
    by (simp add: RECORD_LEN_def)
  have slice: "take (RECORD_LEN * length cs) (drop HEADER_LEN (header_bytes kind @ concat cs)) = concat cs"
    using total by (simp add: codec_simps)
  show ?thesis
    unfolding recover_bytes_def Let_def body complete slice chunks by (simp add: header_ok_bytes)
qed

lemma recover_bytes_bad_tail:
  assumes sha: "\<And>x. length (sha x) = 32" and dig: "digests_ok l" "length (digest_bytes dg) = 32"
    and ix: "log_index kind l [] = Some ix" and m: "m < 2 ^ 64"
    and bad: "m \<noteq> length l + 1 \<or> \<not> permits kind s \<or> \<not> replay_allowed (map_of ix dg) s"
  shows "recover_bytes sha kind (log_bytes sha kind l @ encode_record sha m s dg) = Inl Corrupt"
proof -
  let ?cs = "log_chunks sha 1 l @ [encode_record sha m s dg]"
  have len: "c \<in> set ?cs \<Longrightarrow> length c = RECORD_LEN" for c
    using log_chunk_length [OF sha dig(1)] length_encode_record [OF dig(2) sha] by auto
  have "replay sha kind (log_chunks sha 1 l) 1 [] = Inr (1 + length l, ix)"
    by (rule replay_log [OF sha ix dig(1) log_length_u64 [OF ix]])
  then have replay: "replay sha kind ?cs 1 [] = Inl Corrupt"
    using replay_bad_record [OF sha dig(2) m, of "1 + length l"] bad by (simp add: replay_append)
  have "log_bytes sha kind l @ encode_record sha m s dg = header_bytes kind @ concat ?cs"
    by (simp add: log_bytes_def)
  then show ?thesis using recover_bytes_chunks [of ?cs sha kind] len replay by (simp del: concat_append)
qed

text \<open>An append on a disk without failures, whatever its sequence number.\<close>

lemma append_quiet:
  assumes "plan d = []" and "jfile j < length (inodes d)" and "inodes d ! jfile j = settled b"
    and "jsequence j + 1 < 2 ^ 64"
  shows "\<exists>d'. append_record sha j dg s d =
      (Inr True, j\<lparr>jsequence := jsequence j + 1, jindex := AList.update dg s (jindex j),
         jrecords := jrecords j + 1\<rparr>, d')
    \<and> inodes d' ! jfile j = settled (b @ encode_record sha (jsequence j + 1) s dg)
    \<and> length (inodes d') = length (inodes d) \<and> entries d' = entries d \<and> plan d' = []
    \<and> dir_images d' = dir_images d"
  using assms
  by (auto simp: append_record_def Let_def io_bind_def write_all_def sync_all_def io_outcome_def
      settled_def sync_file_def append_file_def)

lemma journal_log_file_small:
  assumes sha: "\<And>x. length (sha x) = 32" and jl: "journal_log sha j d l"
    and dig: "length (digest_bytes dg) = 32" and below: "length l < MAX_RECORDS"
  shows "length (log_bytes sha (jkind j) l @ encode_record sha m s dg) \<le> MAX_FILE_BYTES"
    and "log_bytes sha (jkind j) l @ encode_record sha m s dg \<noteq> []"
proof -
  have "length (log_bytes sha (jkind j) l) = HEADER_LEN + RECORD_LEN * length l"
    using jl by (intro length_log_bytes [OF sha]) (simp add: journal_log_def)
  moreover have "length (encode_record sha m s dg) = RECORD_LEN"
    using dig sha by (rule length_encode_record)
  ultimately show "length (log_bytes sha (jkind j) l @ encode_record sha m s dg) \<le> MAX_FILE_BYTES"
    and "log_bytes sha (jkind j) l @ encode_record sha m s dg \<noteq> []"
    using below by (auto simp: MAX_FILE_BYTES_def RECORD_LEN_def HEADER_LEN_def)
qed

lemma bad_append_unrecoverable:
  assumes sha: "\<And>x. length (sha x) = 32" and jl: "journal_log sha j0 d l"
    and dig: "length (digest_bytes dg) = 32" and below: "length l < MAX_RECORDS"
    and plan: "plan d = []" and entry: "entries d (file_name (jkind j)) = Some (RegularFile (jfile j))"
    and temp: "entries d (temp_name (file_name (jkind j))) = None"
    and j: "jkind j = jkind j0" "jfile j = jfile j0" "jindex j = jindex j0" "jsequence j + 1 < 2 ^ 64"
    and bad: "jsequence j \<noteq> length l \<or> \<not> permits (jkind j) s
      \<or> \<not> replay_allowed (map_of (jindex j) dg) s"
  shows "\<exists>j' d'. append_record sha j dg s d = (Inr True, j', d') \<and> plan d' = []
    \<and> fst (journal_open sha (jkind j) d') = Inl Corrupt"
proof -
  from jl j have i: "jfile j < length (inodes d)" and dl: "digests_ok l"
    and b: "inodes d ! jfile j = settled (log_bytes sha (jkind j) l)"
    and ix: "log_index (jkind j) l [] = Some (jindex j)"
    by (simp_all add: journal_log_def)
  obtain j' d' where run: "append_record sha j dg s d = (Inr True, j', d')"
    and d': "inodes d' ! jfile j = settled (log_bytes sha (jkind j) l
        @ encode_record sha (jsequence j + 1) s dg)"
      "length (inodes d') = length (inodes d)" "entries d' = entries d" "plan d' = []"
    using append_quiet [OF plan i b j(4)] by blast
  have "recover_bytes sha (jkind j) (log_bytes sha (jkind j) l
      @ encode_record sha (jsequence j + 1) s dg) = Inl Corrupt"
    using bad by (intro recover_bytes_bad_tail [OF sha dl dig ix j(4)]) auto
  with journal_log_file_small [OF sha jl dig below, of "jsequence j + 1" s] j d' i entry temp
  have "fst (journal_open sha (jkind j) d') = Inl Corrupt"
    by (intro open_corrupt [of d' "jfile j"]) (simp_all del: append_is_Nil_conv)
  with run d' show ?thesis by blast
qed

lemma ledger_inv_entries:
  assumes "ledger_inv sha (j, d)" and "entries d \<in> set (dir_images d)"
  shows "entries d (file_name (jkind j)) = Some (RegularFile (jfile j))"
    and "entries d (temp_name (file_name (jkind j))) = None"
  using assms by (auto simp: ledger_inv_def entry_durable_def)

lemma record_is_append:
  assumes "journal_log sha j d l" and "permits (jkind j) s"
    and "map_of (jindex j) dg = None" and "length (jindex j) < MAX_UNIQUE_ENTRIES"
  shows "length l < MAX_RECORDS" and "journal_record sha j dg s d' = append_record sha j dg s d'"
proof -
  have "record_decision (map_of (jindex j) dg) s = Append" using assms(3) by simp
  moreover from append_below_capacity [OF assms(1) this] assms(4)
  have below: "jrecords j < MAX_RECORDS" by simp
  ultimately show "journal_record sha j dg s d' = append_record sha j dg s d'"
    using assms by (simp add: journal_record_def)
  from below assms(1) show "length l < MAX_RECORDS" by (simp add: journal_log_def)
qed

text \<open>
  The writer accepts what the reader rejects.  \<open>Journal::record\<close> acknowledges a \<open>Completed\<close> record
  for a digest that was never reserved, although \<open>recover\<close> treats that very record as corruption:
  after the acknowledgement the journal no longer opens.
\<close>

lemma completed_without_reservation_unrecoverable:
  assumes "ledger_inv sha (j, d)" and "entries d \<in> set (dir_images d)" and "plan d = []"
    and "jkind j = Delivery" and "length (digest_bytes dg) = 32"
    and "map_of (jindex j) dg = None" and "length (jindex j) < MAX_UNIQUE_ENTRIES"
  shows "\<exists>j' d'. journal_record sha j dg Completed d = (Inr True, j', d') \<and> plan d' = []
    \<and> fst (journal_open sha Delivery d') = Inl Corrupt"
proof -
  from ledger_invD(2) [OF assms(1)] obtain l where jl: "journal_log sha j d l"
    unfolding journal_ok_def by blast
  then have "jsequence j + 1 < 2 ^ 64" using log_length_u64 [of "jkind j" l] by (simp add: journal_log_def)
  moreover have "permits (jkind j) Completed" using assms(4) by simp
  note app = record_is_append [OF jl this assms(6,7)]
  moreover have "\<not> replay_allowed (map_of (jindex j) dg) Completed" using assms(6) by simp
  ultimately show ?thesis
    using bad_append_unrecoverable [OF ledger_invD(1) [OF assms(1)] jl assms(5) app(1) assms(3)
        ledger_inv_entries [OF assms(1,2)], of Completed] assms(4) by simp
qed

lemma completed_without_reservation_unrecoverable_witness:
  "\<exists>j' d'. journal_record sample_sha sample_journal (sample_digest 1) Completed (sample_disk [])
      = (Inr True, j', d') \<and> plan d' = [] \<and> fst (journal_open sample_sha Delivery d') = Inl Corrupt"
  by (rule completed_without_reservation_unrecoverable [OF sample_inv])
    (simp_all add: sample_disk_def sample_journal_def opened_def MAX_UNIQUE_ENTRIES_def)

text \<open>
  A failed append poisons the journal.  \<open>Journal::record\<close> takes the next sequence number before it
  writes.  When that write fails and nothing reaches the file, the next record (a command
  already in the worker's queue) is still written and acknowledged, one number too high, and
  the journal no longer opens.
\<close>

lemma record_after_failure_unrecoverable:
  assumes "ledger_inv sha (j, d)" and "entries d \<in> set (dir_images d)" and "plan d = [IoFail k]"
    and "permits (jkind j) s" and "permits (jkind j) s'"
    and "length (digest_bytes dg) = 32" and "length (digest_bytes dg') = 32"
    and "map_of (jindex j) dg = None" and "map_of (jindex j) dg' = None"
    and "length (jindex j) < MAX_UNIQUE_ENTRIES"
  shows "\<exists>j' d' j'' d''. journal_record sha j dg s d = (Inl Unavailable, j', d')
    \<and> journal_record sha j' dg' s' d' = (Inr True, j'', d'') \<and> plan d'' = []
    \<and> fst (journal_open sha (jkind j) d'') = Inl Corrupt"
proof -
  let ?j = "j\<lparr>jsequence := jsequence j + 1\<rparr>" and ?d = "d\<lparr>plan := []\<rparr>"
  from ledger_invD(2) [OF assms(1)] obtain l where jl: "journal_log sha j d l"
    unfolding journal_ok_def by blast
  then have seq: "jsequence j = length l" and jl': "journal_log sha j ?d l"
    by (simp_all add: journal_log_def)
  have ix: "log_index (jkind j) l [] = Some (jindex j)" using jl by (simp add: journal_log_def)
  have "length l + 2 < 2 ^ 64"
    using log_length_bound [OF ix] by (simp add: MAX_RECORDS_def MAX_UNIQUE_ENTRIES_def)
  with seq have u64: "jsequence j + 1 < 2 ^ 64" "jsequence ?j + 1 < 2 ^ 64" by simp_all
  have first: "journal_record sha j dg s d = (Inl Unavailable, ?j, ?d)"
    using u64 assms(3)
    by (simp add: record_is_append(2) [OF jl assms(4,8,10)] append_record_def io_bind_def io_check_def
        io_outcome_def)
  have below: "length l < MAX_RECORDS" using record_is_append(1) [OF jl assms(5,9,10)] .
  have second: "journal_record sha ?j dg' s' ?d = append_record sha ?j dg' s' ?d"
    using record_is_append(1) [OF jl assms(5,9,10)] jl assms(5,9,10)
    by (simp add: journal_record_def journal_log_def)
  have "\<exists>j' d'. append_record sha ?j dg' s' ?d = (Inr True, j', d') \<and> plan d' = []
      \<and> fst (journal_open sha (jkind ?j) d') = Inl Corrupt"
    using ledger_inv_entries [OF assms(1,2)] u64 seq
    by (intro bad_append_unrecoverable [OF ledger_invD(1) [OF assms(1)] jl' assms(7) below]) simp_all
  then show ?thesis using first second by auto
qed

lemma record_after_failure_unrecoverable_witness:
  "\<exists>j' d' j'' d''. journal_record sample_sha sample_journal (sample_digest 1) Reserved
      (sample_disk [IoFail 0]) = (Inl Unavailable, j', d')
    \<and> journal_record sample_sha j' (sample_digest 2) Reserved d' = (Inr True, j'', d'') \<and> plan d'' = []
    \<and> fst (journal_open sample_sha (jkind sample_journal) d'') = Inl Corrupt"
  by (rule record_after_failure_unrecoverable [OF sample_inv])
    (simp_all add: sample_disk_def sample_journal_def opened_def MAX_UNIQUE_ENTRIES_def)

text \<open>The first open of a journal: the entry is created, the header written and synced.\<close>

lemma open_fresh:
  assumes "plan d = []" and "entries d = (\<lambda>_. None)"
  shows "\<exists>d'. journal_open sha kind d = (Inr (opened kind (length (inodes d)) [] []), d')
    \<and> journal_log sha (opened kind (length (inodes d)) [] []) d' []
    \<and> inodes d' = inodes d @ [settled (header_bytes kind)] \<and> plan d' = []
    \<and> entries d' = [file_name kind \<mapsto> RegularFile (length (inodes d))]
    \<and> dir_images d' = dir_images d @ [entries d']"
proof -
  have "recover_bytes sha kind (header_bytes kind) = Inr (0, 0, [])"
    using header_ok_bytes [of kind "[]"] by (simp add: recover_bytes_def codec_simps)
  then show ?thesis
    using assms
    by (simp add: journal_open_def cleanup_temp_def open_active_def create_entry_def
        set_entries_def file_length_def write_header_def write_all_def sync_all_def read_all_def Let_def
        recover_def io_bind_def io_return_def io_outcome_def update_inode_def opened_def empty_file_def
        append_file_def sync_file_def codec_simps settled_def journal_log_def log_bytes_def digests_ok_def
        del: upt_Suc)
qed

lemma fdata_append_image: "fdata f @ bs \<in> set (fimages (append_file bs f))"
  by (auto simp: fimages_append_file intro!: image_eqI [of _ _ "length bs"])

text \<open>
  A first open that is cut short while the header is written leaves a journal that never opens
  again: any proper non-empty prefix of the header is read as corruption, not as an unfinished
  initialisation.
\<close>

lemma torn_header_unrecoverable:
  assumes "0 < k" and "k < HEADER_LEN"
  shows "\<exists>d' d''. journal_open sha kind (empty_disk [IoOk, IoOk, IoOk, IoOk, IoFail k])
      = (Inl Unavailable, d') \<and> crash d' d'' \<and> plan d'' = []
    \<and> fst (journal_open sha kind d'') = Inl Corrupt"
proof -
  let ?h = "take k (header_bytes kind)" and ?m = "[file_name kind \<mapsto> RegularFile 0]"
  let ?d' = "\<lparr>inodes = [append_file ?h empty_file], entries = ?m, dir_images = [\<lambda>_. None, ?m], plan = []\<rparr>"
  let ?d'' = "\<lparr>inodes = [settled ?h], entries = ?m, dir_images = [?m], plan = []\<rparr>"
  have len: "length ?h = k" using assms by (simp add: codec_simps)
  have "journal_open sha kind (empty_disk [IoOk, IoOk, IoOk, IoOk, IoFail k]) = (Inl Unavailable, ?d')"
    by (simp add: journal_open_def empty_disk_def cleanup_temp_def open_active_def create_entry_def
        set_entries_def file_length_def write_header_def write_all_def io_check_def
        io_bind_def io_return_def io_outcome_def update_inode_def empty_file_def)
  moreover have "crash ?d' ?d''"
    using crash_visible [of ?d' "[]"] fdata_append_image [of empty_file ?h] by (simp add: empty_file_def)
  moreover have "recover_bytes sha kind ?h = Inl Corrupt"
    using len assms by (simp add: recover_bytes_def header_ok_def)
  then have "fst (journal_open sha kind ?d'') = Inl Corrupt"
    using len assms by (intro open_corrupt [of _ 0 ?h])
      (auto simp: MAX_FILE_BYTES_def HEADER_LEN_def)
  ultimately show ?thesis by auto
qed

lemma torn_header_unrecoverable_witness:
  "\<exists>d' d''. journal_open sample_sha Delivery (empty_disk [IoOk, IoOk, IoOk, IoOk, IoFail 7])
      = (Inl Unavailable, d') \<and> crash d' d'' \<and> plan d'' = []
    \<and> fst (journal_open sample_sha Delivery d'') = Inl Corrupt"
  by (rule torn_header_unrecoverable) (simp_all add: HEADER_LEN_def)

lemma record_fresh:
  assumes "journal_log sha j d []" and "jkind j = Delivery" and "plan d = []"
  shows "\<exists>j' d'. journal_record sha j dg Reserved d = (Inr True, j', d')
    \<and> inodes d' ! jfile j = settled (header_bytes Delivery @ encode_record sha 1 Reserved dg)
    \<and> length (inodes d') = length (inodes d) \<and> plan d' = [] \<and> dir_images d' = dir_images d"
proof -
  have j: "jindex j = []" "jsequence j = 0" "jfile j < length (inodes d)"
    "inodes d ! jfile j = settled (header_bytes Delivery)"
    using assms by (simp_all add: journal_log_def log_bytes_def)
  have "journal_record sha j dg Reserved d = append_record sha j dg Reserved d"
    using j assms(2) by (intro record_is_append(2) [OF assms(1)]) (simp_all add: MAX_UNIQUE_ENTRIES_def)
  then show ?thesis using append_quiet [OF assms(3) j(3,4), of sha dg Reserved] j(2) by auto
qed

text \<open>
  The directory entry of a new journal is never synced (only compaction calls
  \<open>sync_directory\<close>), so on a file system that keeps POSIX's freedom a record that was written,
  synced and acknowledged can be gone after a crash: the restart creates an empty journal and
  grants the digest again.
\<close>

lemma fresh_journal_record_lost:
  "\<exists>j d j' d' d'' j3 d3 j4 d4. journal_open sha Delivery (empty_disk []) = (Inr j, d)
    \<and> journal_record sha j dg Reserved d = (Inr True, j', d')
    \<and> crash d' d'' \<and> plan d'' = []
    \<and> journal_open sha Delivery d'' = (Inr j3, d3)
    \<and> journal_record sha j3 dg Reserved d3 = (Inr True, j4, d4)"
proof -
  let ?j = "opened Delivery 0 [] []" and ?h = "header_bytes Delivery"
  obtain d where open1: "journal_open sha Delivery (empty_disk []) = (Inr ?j, d)"
    and jl: "journal_log sha ?j d []" and d: "inodes d = [settled ?h]" "plan d = []"
    "dir_images d = [\<lambda>_. None, entries d]"
    using open_fresh [of "empty_disk []" sha Delivery] by (auto simp: empty_disk_def)
  obtain j' d' where rec1: "journal_record sha ?j dg Reserved d = (Inr True, j', d')"
    and d': "inodes d' ! 0 = settled (?h @ encode_record sha 1 Reserved dg)" "length (inodes d') = 1"
      "dir_images d' = dir_images d"
    using record_fresh [OF jl _ d(2), of dg] d(1) by (auto simp: opened_def)
  let ?d'' = "\<lparr>inodes = map settled [?h @ encode_record sha 1 Reserved dg],
    entries = \<lambda>_. None, dir_images = [\<lambda>_. None], plan = []\<rparr>"
  have crash: "crash d' ?d''" using d' d(3) by (intro crashI) simp_all
  obtain d3 where open2: "journal_open sha Delivery ?d'' = (Inr (opened Delivery 1 [] []), d3)"
    and jl3: "journal_log sha (opened Delivery 1 [] []) d3 []" and plan3: "plan d3 = []"
    using open_fresh [of ?d'' sha Delivery] by auto
  obtain j4 d4 where "journal_record sha (opened Delivery 1 [] []) dg Reserved d3 = (Inr True, j4, d4)"
    using record_fresh [OF jl3 _ plan3, of dg] by (auto simp: opened_def)
  with open1 rec1 crash open2 show ?thesis by fastforce
qed

section \<open>Compaction\<close>

text \<open>
  Compaction never runs.  On every consistent journal \<open>Journal::record\<close> behaves as if its compaction
  branch were absent: a journal that has reached \<open>MAX_RECORDS\<close> holds \<open>MAX_UNIQUE_ENTRIES\<close> completed
  digests, and then every call returns before the branch.
\<close>

lemma compaction_unreachable:
  assumes "ledger_inv sha (j, d)"
  shows "journal_record sha j dg s d = record_without_compaction sha j dg s d"
proof -
  from ledger_invD(2) [OF assms] obtain l where jl: "journal_log sha j d l"
    unfolding journal_ok_def by blast
  show ?thesis
    using append_below_capacity [OF jl, of dg s]
    by (cases "record_decision (map_of (jindex j) dg) s")
      (auto simp: journal_record_def record_without_compaction_def)
qed

lemma compaction_unreachable_witness:
  "journal_record sample_sha sample_journal (sample_digest 1) Reserved (sample_disk [])
    = record_without_compaction sample_sha sample_journal (sample_digest 1) Reserved (sample_disk [])"
  by (rule compaction_unreachable [OF sample_inv])

lemma write_records_quiet:
  "plan d = [] \<Longrightarrow> i < length (inodes d) \<Longrightarrow>
     \<exists>d'. write_records sha i n xs d = (Inr (n + length xs), d') \<and> plan d' = []
       \<and> fdata (inodes d' ! i) =
           fdata (inodes d ! i) @ concat (log_chunks sha (Suc n) (map (\<lambda>(dg, s). (s, dg)) xs))
       \<and> length (inodes d') = length (inodes d) \<and> entries d' = entries d"
proof (induction xs arbitrary: n d)
  case (Cons x xs)
  obtain dg s where x: "x = (dg, s)" by (cases x)
  let ?d = "update_inode i (append_file (encode_record sha (n + 1) s dg)) d"
  from Cons.IH [of ?d "n + 1"] Cons.prems show ?case
    by (simp add: x io_bind_def write_all_def io_outcome_def)
qed (simp add: io_return_def)

lemma compact_quiet:
  assumes "plan d = []" and "entries d (temp_name (file_name (jkind j))) = None"
    and "entries d (file_name (jkind j)) \<noteq> Some DirectoryEntry"
  shows "\<exists>j' d'. compact sha j d = (Inr j', d') \<and> plan d' = [] \<and> jfile j' < length (inodes d')
    \<and> fdata (inodes d' ! jfile j') = log_bytes sha (jkind j) (compact_log (jindex j))
    \<and> entries d' (file_name (jkind j)) = Some (RegularFile (jfile j'))
    \<and> entries d' (temp_name (file_name (jkind j))) = None"
proof -
  let ?name = "file_name (jkind j)" and ?i = "length (inodes d)"
  let ?d = "update_inode ?i sync_file (update_inode ?i (append_file (header_bytes (jkind j)))
    (set_entries ((entries d)(temp_name ?name \<mapsto> RegularFile ?i)) (d\<lparr>inodes := inodes d @ [empty_file]\<rparr>)))"
  have start: "io_bind (create_temp ?name) (\<lambda>t. io_bind (write_header t (jkind j)) (f t)) d = f ?i () ?d" for f
    using assms by (simp add: create_temp_def create_entry_def Let_def io_bind_def write_header_def
        write_all_def sync_all_def io_outcome_def set_entries_def)
  obtain d1 where d1: "write_records sha ?i 0 (compact_entries (jindex j)) ?d
        = (Inr (length (compact_entries (jindex j))), d1)"
      "plan d1 = []" "length (inodes d1) = length (inodes ?d)" "entries d1 = entries ?d"
      "fdata (inodes d1 ! ?i) = log_bytes sha (jkind j) (compact_log (jindex j))"
    using write_records_quiet [of ?d ?i sha 0 "compact_entries (jindex j)"] assms
    by (auto simp: set_entries_def log_bytes_def compact_log_def empty_file_def)
  show ?thesis
    unfolding compact_def start using d1 assms(1,3)
    by (simp add: io_bind_def sync_all_def rename_temp_def sync_directory_def
        open_active_def set_entries_def io_return_def)
qed

lemma replay_fresh_completed:
  assumes sha: "\<And>x. length (sha x) = 32"
  shows "distinct (map snd l) \<Longrightarrow> (\<And>dg. dg \<in> snd ` set l \<Longrightarrow> map_of ix dg = None)
    \<Longrightarrow> Completed \<in> fst ` set l \<Longrightarrow> digests_ok l \<Longrightarrow> n + length l < 2 ^ 64
    \<Longrightarrow> length ix + length l \<le> MAX_UNIQUE_ENTRIES
    \<Longrightarrow> replay sha kind (log_chunks sha n l) n ix = Inl Corrupt"
proof (induction l arbitrary: n ix)
  case (Cons e l)
  obtain s dg where e: "e = (s, dg)" by (cases e)
  have fresh: "map_of ix dg = None" using Cons.prems(2) e by simp
  have dec: "decode_record sha (encode_record sha n s dg) = Inr (n, s, dg)"
    using Cons.prems e by (intro decode_encode_record sha) (auto simp: digests_ok_def)
  show ?case
  proof (cases "permits kind s \<and> s \<noteq> Completed")
    case False
    then show ?thesis using dec fresh e by auto
  next
    case True
    have len: "length (AList.update dg s ix) = length ix + 1"
      using fresh by (simp add: length_AList_update mem_keys_map_of)
    have rest: "replay sha kind (log_chunks sha (Suc n) l) (Suc n) (AList.update dg s ix) = Inl Corrupt"
    proof (rule Cons.IH)
      show "map_of (AList.update dg s ix) dg' = None" if "dg' \<in> snd ` set l" for dg'
        using that Cons.prems(1,2) e by (auto simp: map_of_AList_update)
    qed (use Cons.prems True e len in \<open>auto simp: digests_ok_def\<close>)
    have "replay_allowed (map_of ix dg) s" using True fresh by (cases s) auto
    then show ?thesis using dec True rest len Cons.prems e by simp
  qed
qed simp

lemma compact_log_facts:
  "set (compact_log ix) = (\<lambda>(dg, s). (s, dg)) ` set ix" "length (compact_log ix) = length ix"
  "distinct (map fst ix) \<Longrightarrow> distinct (map snd (compact_log ix))"
proof -
  have snd: "map snd (compact_log ix) = map fst (compact_entries ix)"
    by (simp add: compact_log_def comp_def case_prod_beta)
  assume "distinct (map fst ix)"
  then have "distinct ix" and "inj_on fst (set ix)" by (simp_all add: distinct_map)
  then show "distinct (map snd (compact_log ix))"
    unfolding snd by (simp add: distinct_map compact_entries_def)
qed (simp_all add: compact_log_def compact_entries_def)

text \<open>
  If compaction did run it would destroy the journal: it writes each digest's last state with a
  single record, and a \<open>Completed\<close> record with no \<open>Reserved\<close> record before it is corruption to
  \<open>recover\<close>.  So an index with one completed delivery, compacted on a disk without failures, is
  never opened again.
\<close>

lemma compaction_unrecoverable:
  assumes sha: "\<And>x. length (sha x) = 32"
    and "plan d = []" and "entries d (temp_name (file_name (jkind j))) = None"
    and "entries d (file_name (jkind j)) \<noteq> Some DirectoryEntry"
    and "distinct (map fst (jindex j))" and "length (jindex j) \<le> MAX_UNIQUE_ENTRIES"
    and "\<And>dg. dg \<in> fst ` set (jindex j) \<Longrightarrow> length (digest_bytes dg) = 32"
    and "Completed \<in> snd ` set (jindex j)"
  shows "\<exists>j' d'. compact sha j d = (Inr j', d')
    \<and> fdata (inodes d' ! jfile j') = log_bytes sha (jkind j) (compact_log (jindex j))
    \<and> fst (journal_open sha (jkind j) d') = Inl Corrupt"
proof -
  let ?l = "compact_log (jindex j)"
  obtain j' d' where run: "compact sha j d = (Inr j', d')" and d': "plan d' = []"
    "jfile j' < length (inodes d')" "fdata (inodes d' ! jfile j') = log_bytes sha (jkind j) ?l"
    "entries d' (file_name (jkind j)) = Some (RegularFile (jfile j'))"
    "entries d' (temp_name (file_name (jkind j))) = None"
    using compact_quiet [OF assms(2-4)] by blast
  have dig: "digests_ok ?l" using assms(7) by (force simp: digests_ok_def compact_log_facts)
  have small: "length ?l \<le> MAX_UNIQUE_ENTRIES" using assms(6) by (simp add: compact_log_facts)
  then have "replay sha (jkind j) (log_chunks sha 1 ?l) 1 [] = Inl Corrupt"
    using assms(5,8)
    by (intro replay_fresh_completed sha dig) (force simp: compact_log_facts MAX_UNIQUE_ENTRIES_def)+
  then have bad: "recover_bytes sha (jkind j) (log_bytes sha (jkind j) ?l) = Inl Corrupt"
    using recover_bytes_chunks [OF log_chunk_length [OF sha dig]] by (simp add: log_bytes_def)
  have "length (log_bytes sha (jkind j) ?l) = HEADER_LEN + RECORD_LEN * length ?l"
    by (rule length_log_bytes [OF sha dig])
  with small have "length (log_bytes sha (jkind j) ?l) \<le> MAX_FILE_BYTES" "log_bytes sha (jkind j) ?l \<noteq> []"
    by (auto simp: MAX_FILE_BYTES_def MAX_RECORDS_def HEADER_LEN_def simp flip: length_0_conv)
  with d' bad have "fst (journal_open sha (jkind j) d') = Inl Corrupt" by (intro open_corrupt)
  with run d' show ?thesis by blast
qed

lemma compaction_unrecoverable_witness:
  "\<exists>j' d'. compact sample_sha (sample_journal\<lparr>jindex := [(sample_digest 1, Completed)]\<rparr>) (sample_disk [])
      = (Inr j', d') \<and> fst (journal_open sample_sha Delivery d') = Inl Corrupt"
proof -
  let ?j = "sample_journal\<lparr>jindex := [(sample_digest 1, Completed)]\<rparr>"
  have "jkind ?j = Delivery" by (simp add: sample_journal_def opened_def)
  with compaction_unrecoverable [of sample_sha "sample_disk []" ?j] show ?thesis
    by (auto simp: sample_sha_def sample_disk_def MAX_UNIQUE_ENTRIES_def)
qed

end
