(* ===== verification/Ledger_Worker.thy ===== *)
theory Ledger_Worker
  imports Ledger_Session
begin

text \<open>
  The journal workers (\<open>Worker\<close>, its two facades and \<open>BridgeLedger\<close> of
  \<open>src/src/nats_bridge/ledger.rs\<close>).  A worker owns a journal and takes commands from a bounded
  queue; a client checks the health flag, sends without waiting, and waits for the reply.
  Both workers keep their files in one directory, so the disk is passed along beside them.
  The relation \<open>worker_step\<close> interleaves clients, the worker thread and stop requests; the
  functions \<open>worker_record\<close> and \<open>worker_lookup\<close> are the calls a client awaits, run to their reply.
\<close>

section \<open>State\<close>

datatype command = Record ledger_digest record_state | Lookup ledger_digest | Stop

datatype reply =
    RecordReply "ledger_error + bool"
  | LookupReply "ledger_error + record_state option"

text \<open>
  \<open>wtickets\<close> numbers the sent commands (their \<open>oneshot\<close> channels); \<open>wchecked\<close> counts the clients
  between their health check and their send.
\<close>

record worker =
  wjournal :: journal
  wqueue :: "(nat \<times> command) list"
  whealthy :: bool
  wstopped :: bool
  wrunning :: bool
  wreplies :: "(nat \<times> reply) list"
  wtickets :: nat
  wchecked :: nat

definition COMMAND_CAPACITY :: nat where
  "COMMAND_CAPACITY = 64"

section \<open>The worker thread\<close>

definition worker_spawn :: "(bytes \<Rightarrow> bytes) \<Rightarrow> journal_kind \<Rightarrow> worker io" where
  "worker_spawn sha kind =
     io_bind (journal_open sha kind) (\<lambda>j. io_return
       \<lparr>wjournal = j, wqueue = [], whealthy = True, wstopped = False, wrunning = True,
        wreplies = [], wtickets = 0, wchecked = 0\<rparr>)"

text \<open>Leaving the loop drops the receiver, and with it every command still queued.\<close>

definition worker_exit :: "worker \<Rightarrow> worker" where
  "worker_exit w = w\<lparr>whealthy := False, wstopped := True, wrunning := False, wqueue := []\<rparr>"

definition worker_reply :: "nat \<Rightarrow> reply \<Rightarrow> worker \<Rightarrow> worker" where
  "worker_reply n r w = w\<lparr>wreplies := (n, r) # wreplies w\<rparr>"

fun worker_execute ::
  "(bytes \<Rightarrow> bytes) \<Rightarrow> nat \<Rightarrow> command \<Rightarrow> worker \<Rightarrow> disk \<Rightarrow> worker \<times> disk" where
  "worker_execute sha n (Record dg s) w d =
     (case journal_record sha (wjournal w) dg s d of
        (r, j, d') \<Rightarrow>
          (worker_reply n (RecordReply r)
             (w\<lparr>wjournal := j, whealthy := whealthy w \<and> \<not> isl r\<rparr>), d'))"
| "worker_execute sha n (Lookup dg) w d =
     (worker_reply n
        (LookupReply (if whealthy w then Inr (map_of (jindex (wjournal w)) dg) else Inl Unavailable)) w, d)"
| "worker_execute sha n Stop w d = (worker_exit w, d)"

text \<open>One round of \<open>while let Ok(command) = receiver.recv()\<close>; on an empty queue it waits.\<close>

fun worker_iteration :: "(bytes \<Rightarrow> bytes) \<Rightarrow> worker \<Rightarrow> disk \<Rightarrow> worker \<times> disk" where
  "worker_iteration sha w d =
     (case wqueue w of
        [] \<Rightarrow> (w, d)
      | (n, c) # q \<Rightarrow>
          if wstopped w then (worker_exit w, d)
          else worker_execute sha n c (w\<lparr>wqueue := q\<rparr>) d)"

section \<open>Clients\<close>

definition try_send :: "command \<Rightarrow> worker \<Rightarrow> (ledger_error + nat) \<times> worker" where
  "try_send c w =
     (if \<not> wrunning w then (Inl Stopped, w)
      else if COMMAND_CAPACITY \<le> length (wqueue w) then (Inl QueueFull, w)
      else (Inr (wtickets w), w\<lparr>wqueue := wqueue w @ [(wtickets w, c)], wtickets := wtickets w + 1\<rparr>))"

definition request_stop :: "worker \<Rightarrow> worker" where
  "request_stop w = snd (try_send Stop (w\<lparr>wstopped := True\<rparr>))"

text \<open>The rounds the worker makes while a client awaits the last command in the queue.\<close>

fun worker_rounds :: "(bytes \<Rightarrow> bytes) \<Rightarrow> nat \<Rightarrow> worker \<Rightarrow> disk \<Rightarrow> worker \<times> disk" where
  "worker_rounds sha 0 w d = (w, d)"
| "worker_rounds sha (Suc k) w d =
     (case worker_iteration sha w d of (w', d') \<Rightarrow> worker_rounds sha k w' d')"

definition worker_call ::
  "(bytes \<Rightarrow> bytes) \<Rightarrow> command \<Rightarrow> worker \<Rightarrow> disk \<Rightarrow> (ledger_error + reply) \<times> worker \<times> disk" where
  "worker_call sha c w d =
     (if \<not> whealthy w then (Inl Unavailable, w, d)
      else case try_send c w of
        (Inl e, w') \<Rightarrow> (Inl e, w', d)
      | (Inr n, w') \<Rightarrow>
          (case worker_rounds sha (length (wqueue w')) w' d of
             (w'', d') \<Rightarrow>
               (case map_of (wreplies w'') n of
                  Some r \<Rightarrow> (Inr r, w'', d')
                | None \<Rightarrow> (Inl Stopped, w'', d'))))"

definition worker_record ::
  "(bytes \<Rightarrow> bytes) \<Rightarrow> ledger_digest \<Rightarrow> record_state \<Rightarrow> worker \<Rightarrow> disk
    \<Rightarrow> (ledger_error + bool) \<times> worker \<times> disk" where
  "worker_record sha dg s w d =
     (case worker_call sha (Record dg s) w d of
        (Inr (RecordReply r), st) \<Rightarrow> (r, st)
      | (Inr (LookupReply _), st) \<Rightarrow> (Inl Stopped, st)
      | (Inl e, st) \<Rightarrow> (Inl e, st))"

definition worker_lookup ::
  "(bytes \<Rightarrow> bytes) \<Rightarrow> ledger_digest \<Rightarrow> worker \<Rightarrow> disk
    \<Rightarrow> (ledger_error + record_state option) \<times> worker \<times> disk" where
  "worker_lookup sha dg w d =
     (case worker_call sha (Lookup dg) w d of
        (Inr (LookupReply r), st) \<Rightarrow> (r, st)
      | (Inr (RecordReply _), st) \<Rightarrow> (Inl Stopped, st)
      | (Inl e, st) \<Rightarrow> (Inl e, st))"

text \<open>\<open>join\<close> returns when the thread has left its loop: here, after the rounds it still makes.\<close>

definition worker_join :: "(bytes \<Rightarrow> bytes) \<Rightarrow> worker \<Rightarrow> disk \<Rightarrow> worker \<times> disk" where
  "worker_join sha w d = (let w' = request_stop w in worker_rounds sha (length (wqueue w')) w' d)"

section \<open>The facades\<close>

datatype reserve_result = ReserveReserved | ReserveSuppressed

definition map_result :: "('a \<Rightarrow> 'b) \<Rightarrow> (ledger_error + 'a) \<times> 's \<Rightarrow> (ledger_error + 'b) \<times> 's" where
  "map_result f p = (case p of (Inl e, st) \<Rightarrow> (Inl e, st) | (Inr x, st) \<Rightarrow> (Inr (f x), st))"

definition record_local_excluded ::
  "(bytes \<Rightarrow> bytes) \<Rightarrow> ledger_digest \<Rightarrow> worker \<Rightarrow> disk \<Rightarrow> (ledger_error + unit) \<times> worker \<times> disk" where
  "record_local_excluded sha dg w d = map_result (\<lambda>_. ()) (worker_record sha dg LocalExcluded w d)"

definition ledger_contains ::
  "(bytes \<Rightarrow> bytes) \<Rightarrow> ledger_digest \<Rightarrow> worker \<Rightarrow> disk \<Rightarrow> (ledger_error + bool) \<times> worker \<times> disk" where
  "ledger_contains sha dg w d = map_result (\<lambda>st. st = Some LocalExcluded) (worker_lookup sha dg w d)"

definition check_and_reserve ::
  "(bytes \<Rightarrow> bytes) \<Rightarrow> ledger_digest \<Rightarrow> worker \<Rightarrow> disk
    \<Rightarrow> (ledger_error + reserve_result) \<times> worker \<times> disk" where
  "check_and_reserve sha dg w d =
     map_result (\<lambda>inserted. if inserted then ReserveReserved else ReserveSuppressed)
       (worker_record sha dg Reserved w d)"

definition mark_completed ::
  "(bytes \<Rightarrow> bytes) \<Rightarrow> ledger_digest \<Rightarrow> worker \<Rightarrow> disk \<Rightarrow> (ledger_error + unit) \<times> worker \<times> disk" where
  "mark_completed sha dg w d = map_result (\<lambda>_. ()) (worker_record sha dg Completed w d)"

definition is_suppressed ::
  "(bytes \<Rightarrow> bytes) \<Rightarrow> ledger_digest \<Rightarrow> worker \<Rightarrow> disk \<Rightarrow> (ledger_error + bool) \<times> worker \<times> disk" where
  "is_suppressed sha dg w d =
     map_result (\<lambda>st. st = Some Reserved \<or> st = Some Completed) (worker_lookup sha dg w d)"

section \<open>Both ledgers\<close>

record bridge_ledger =
  exclusion :: worker
  delivery :: worker

datatype ledger_open_error =
    ExclusionFailed ledger_error
  | DeliveryFailed ledger_error worker

definition bridge_ledger_open ::
  "(bytes \<Rightarrow> bytes) \<Rightarrow> disk \<Rightarrow> (ledger_open_error + bridge_ledger) \<times> disk" where
  "bridge_ledger_open sha d =
     (case worker_spawn sha Exclusion d of
        (Inl e, d') \<Rightarrow> (Inl (ExclusionFailed e), d')
      | (Inr x, d') \<Rightarrow>
          (case worker_spawn sha Delivery d' of
             (Inl e, d'') \<Rightarrow> (Inl (DeliveryFailed e x), d'')
           | (Inr y, d'') \<Rightarrow> (Inr \<lparr>exclusion = x, delivery = y\<rparr>, d'')))"

definition bridge_ledger_request_stop :: "bridge_ledger \<Rightarrow> bridge_ledger" where
  "bridge_ledger_request_stop b =
     b\<lparr>exclusion := request_stop (exclusion b), delivery := request_stop (delivery b)\<rparr>"

definition bridge_ledger_join ::
  "(bytes \<Rightarrow> bytes) \<Rightarrow> bridge_ledger \<Rightarrow> disk \<Rightarrow> bridge_ledger \<times> disk" where
  "bridge_ledger_join sha b d =
     (case worker_join sha (exclusion b) d of
        (x, d') \<Rightarrow> (case worker_join sha (delivery b) d' of
           (y, d'') \<Rightarrow> (b\<lparr>exclusion := x, delivery := y\<rparr>, d'')))"

section \<open>Interleavings\<close>

datatype worker_event =
    Checked bool
  | Sent command "ledger_error + nat"
  | Executed nat command "reply option"
  | StopRequested

inductive worker_step ::
  "(bytes \<Rightarrow> bytes) \<Rightarrow> worker \<times> disk \<Rightarrow> worker_event \<Rightarrow> worker \<times> disk \<Rightarrow> bool" for sha where
  check_pass: "whealthy w \<Longrightarrow> worker_step sha (w, d) (Checked True) (w\<lparr>wchecked := wchecked w + 1\<rparr>, d)"
| check_refuse: "\<not> whealthy w \<Longrightarrow> worker_step sha (w, d) (Checked False) (w, d)"
| send: "wchecked w = Suc k \<Longrightarrow> c \<noteq> Stop \<Longrightarrow> try_send c (w\<lparr>wchecked := k\<rparr>) = (r, w')
    \<Longrightarrow> worker_step sha (w, d) (Sent c r) (w', d)"
| execute: "wqueue w = (n, c) # q \<Longrightarrow> worker_iteration sha w d = (w', d')
    \<Longrightarrow> worker_step sha (w, d) (Executed n c (map_of (wreplies w') n)) (w', d')"
| stop: "worker_step sha (w, d) StopRequested (request_stop w, d)"

inductive_cases worker_stepE: "worker_step sha (w, d) e (w', d')"

text \<open>
  What every reachable worker satisfies: the queue is bounded and closed once the thread has
  left, and every ticket is unused, queued once or answered.
\<close>

definition worker_ok :: "worker \<Rightarrow> bool" where
  "worker_ok w \<longleftrightarrow>
     length (wqueue w) \<le> COMMAND_CAPACITY
     \<and> (\<not> wrunning w \<longrightarrow> wqueue w = [] \<and> \<not> whealthy w \<and> wstopped w)
     \<and> distinct (map fst (wqueue w) @ map fst (wreplies w))
     \<and> (\<forall>n\<in>set (map fst (wqueue w) @ map fst (wreplies w)). n < wtickets w)"

definition worker_idle :: "worker \<Rightarrow> bool" where
  "worker_idle w \<longleftrightarrow> wrunning w \<and> \<not> wstopped w \<and> wqueue w = []"

fun worker_grants :: "worker_event \<Rightarrow> ledger_digest \<Rightarrow> bool" where
  "worker_grants (Executed n (Record dg s) (Some (RecordReply (Inr b)))) dg' \<longleftrightarrow>
     dg = dg' \<and> s \<noteq> Completed \<and> b"
| "worker_grants _ _ \<longleftrightarrow> False"

definition worker_held :: "worker \<times> disk \<Rightarrow> ledger_digest \<Rightarrow> bool" where
  "worker_held st dg \<longleftrightarrow> map_of (jindex (wjournal (fst st))) dg \<noteq> None"

section \<open>The worker invariant\<close>

lemma compact_index: "compact sha j d = (Inr j', d') \<Longrightarrow> jindex j' = jindex j \<and> jkind j' = jkind j"
  by (auto simp: compact_def io_bind_def io_return_def split: prod.splits sum.splits)

lemma append_record_index:
  "append_record sha j dg s d = (r, j', d') \<Longrightarrow>
     jindex j' = (if r = Inr True then AList.update dg s (jindex j) else jindex j) \<and> r \<noteq> Inr False
     \<and> jkind j' = jkind j"
  by (auto simp: append_record_def Let_def split: prod.splits sum.splits if_splits)

lemma journal_record_index:
  assumes "journal_record sha j dg s d = (r, j', d')"
  shows "jindex j' = (if r = Inr True then AList.update dg s (jindex j) else jindex j)"
    and "r = Inr True \<Longrightarrow> record_decision (map_of (jindex j) dg) s = Append"
    and "r = Inr False \<Longrightarrow> record_decision (map_of (jindex j) dg) s = AlreadyRecorded"
    and "jkind j' = jkind j" and "r = Inr b \<Longrightarrow> permits (jkind j) s"
  using assms
  by (auto simp: journal_record_def dest!: compact_index append_record_index
      split: if_splits record_verdict.splits prod.splits sum.splits)

lemma record_fresh_index:
  assumes "journal_record sha j dg s d = (r, j', d')"
  shows "map_of (jindex j) k \<noteq> None \<Longrightarrow> map_of (jindex j') k \<noteq> None"
    and "r = Inr True \<Longrightarrow> s \<noteq> Completed \<Longrightarrow> map_of (jindex j) dg = None \<and> map_of (jindex j') dg \<noteq> None"
proof -
  show "map_of (jindex j) k \<noteq> None \<Longrightarrow> map_of (jindex j') k \<noteq> None"
    using journal_record_index(1) [OF assms] by (simp add: map_of_AList_update)
  assume "r = Inr True" "s \<noteq> Completed"
  then show "map_of (jindex j) dg = None \<and> map_of (jindex j') dg \<noteq> None"
    using journal_record_index [OF assms]
    by (cases "map_of (jindex j) dg"; cases s; (cases "the (map_of (jindex j) dg)")?)
      (auto simp: map_of_AList_update)
qed

lemma worker_ok_exit [simp]: "worker_ok w \<Longrightarrow> worker_ok (worker_exit w)"
  by (auto simp: worker_ok_def worker_exit_def COMMAND_CAPACITY_def)

lemma worker_ok_try_send: "worker_ok w \<Longrightarrow> worker_ok (snd (try_send c w))"
  by (force simp: worker_ok_def try_send_def less_Suc_eq)

lemma worker_ok_checked [simp]: "worker_ok (w\<lparr>wchecked := k\<rparr>) = worker_ok w"
  by (simp add: worker_ok_def)

lemma worker_ok_request_stop: "worker_ok w \<Longrightarrow> worker_ok (request_stop w)"
  unfolding request_stop_def by (rule worker_ok_try_send) (simp add: worker_ok_def)

lemma worker_ok_pop:
  assumes "worker_ok w" and "wqueue w = (n, c) # q"
  shows "worker_ok (worker_reply n r (w\<lparr>wqueue := q\<rparr>))" and "wrunning w"
  using assms by (auto simp: worker_ok_def worker_reply_def)

lemma worker_ok_update [simp]: "wrunning w \<Longrightarrow> worker_ok (w\<lparr>wjournal := j, whealthy := h\<rparr>) = worker_ok w"
  by (simp add: worker_ok_def)

lemma worker_ok_iteration:
  assumes "worker_ok w" and "worker_iteration sha w d = (w', d')"
  shows "worker_ok w'"
proof (cases "wqueue w")
  case Nil
  then show ?thesis using assms by simp
next
  case (Cons e q)
  obtain n c where e: "e = (n, c)" by (cases e)
  note pop = worker_ok_pop [OF assms(1) Cons [unfolded e]]
  show ?thesis
  proof (cases "wstopped w")
    case True
    then show ?thesis using assms Cons e by auto
  next
    case live: False
    show ?thesis
    proof (cases c)
      case (Record dg s)
      obtain r j d'' where "journal_record sha (wjournal w) dg s d = (r, j, d'')" by (metis prod_cases3)
      then have "w' = (worker_reply n (RecordReply r) (w\<lparr>wqueue := q\<rparr>))\<lparr>wjournal := j, whealthy := whealthy w \<and> \<not> isl r\<rparr>"
        using assms(2) Cons e live Record by (auto simp: worker_reply_def)
      then show ?thesis using pop by (simp add: worker_reply_def)
    next
      case (Lookup dg)
      then show ?thesis using assms(2) Cons e live pop(1) by auto
    next
      case Stop
      have "worker_ok (w\<lparr>wqueue := q\<rparr>)" using assms(1) Cons by (auto simp: worker_ok_def)
      then show ?thesis using assms(2) Cons e live Stop by auto
    qed
  qed
qed

text \<open>What a round does to the index, to the health flag and to the reply of its command.\<close>

lemma worker_iteration_effect:
  assumes ok: "worker_ok w" and q: "wqueue w = (n, c) # q"
    and run: "worker_iteration sha w d = (w', d')"
  shows "map_of (jindex (wjournal w)) k \<noteq> None \<Longrightarrow> map_of (jindex (wjournal w')) k \<noteq> None"
    and "whealthy w' \<Longrightarrow> whealthy w"
    and "worker_grants (Executed n c (map_of (wreplies w') n)) k
      \<Longrightarrow> map_of (jindex (wjournal w)) k = None \<and> map_of (jindex (wjournal w')) k \<noteq> None"
    and "map_of (wreplies w') n = Some (LookupReply r) \<Longrightarrow> \<not> whealthy w \<Longrightarrow> r = Inl Unavailable"
proof -
  have fresh: "map_of (wreplies w) n = None"
    using ok q by (force simp: worker_ok_def map_of_eq_None_iff)
  consider (stopped) "wstopped w" "w' = worker_exit w" "d' = d"
    | (execute) "\<not> wstopped w" "worker_execute sha n c (w\<lparr>wqueue := q\<rparr>) d = (w', d')"
    using run q by (auto split: if_splits)
  note how = this
  show "map_of (jindex (wjournal w)) k \<noteq> None \<Longrightarrow> map_of (jindex (wjournal w')) k \<noteq> None"
    by (cases rule: how; cases c)
      (auto simp: worker_exit_def worker_reply_def dest: record_fresh_index(1) split: prod.splits)
  show "whealthy w' \<Longrightarrow> whealthy w"
    by (cases rule: how; cases c) (auto simp: worker_exit_def worker_reply_def split: prod.splits)
  show "worker_grants (Executed n c (map_of (wreplies w') n)) k
      \<Longrightarrow> map_of (jindex (wjournal w)) k = None \<and> map_of (jindex (wjournal w')) k \<noteq> None"
    using fresh
    by (cases rule: how; cases c)
      (auto simp: worker_exit_def worker_reply_def dest: record_fresh_index(2)
        split: prod.splits elim!: worker_grants.elims(2))
  show "map_of (wreplies w') n = Some (LookupReply r) \<Longrightarrow> \<not> whealthy w \<Longrightarrow> r = Inl Unavailable"
    using fresh
    by (cases rule: how; cases c) (auto simp: worker_exit_def worker_reply_def split: prod.splits if_splits)
qed

lemma try_send_simps [simp]:
  "wjournal (snd (try_send c w)) = wjournal w" "whealthy (snd (try_send c w)) = whealthy w"
  "wreplies (snd (try_send c w)) = wreplies w" "wstopped (snd (try_send c w)) = wstopped w"
  "wrunning (snd (try_send c w)) = wrunning w"
  by (simp_all add: try_send_def)

lemma request_stop_simps [simp]:
  "wjournal (request_stop w) = wjournal w" "whealthy (request_stop w) = whealthy w"
  "wreplies (request_stop w) = wreplies w" "wstopped (request_stop w) = True"
  "wrunning (request_stop w) = wrunning w"
  by (simp_all add: request_stop_def)

lemma worker_step_ok: "worker_step sha st e st' \<Longrightarrow> worker_ok (fst st) \<Longrightarrow> worker_ok (fst st')"
proof (induction rule: worker_step.induct)
  case (send w k c r w' d)
  then show ?case using worker_ok_try_send [of "w\<lparr>wchecked := k\<rparr>" c] by simp
next
  case (execute w n c q d w' d')
  then show ?case using worker_ok_iteration [OF _ execute.hyps(2)] by simp
next
  case (stop w d)
  then show ?case by (simp add: worker_ok_request_stop)
qed simp_all

section \<open>The worker grants once\<close>

lemma worker_step_effect:
  "worker_step sha st e st' \<Longrightarrow> worker_ok (fst st) \<Longrightarrow>
     (worker_held st k \<longrightarrow> worker_held st' k)
     \<and> (worker_grants e k \<longrightarrow> \<not> worker_held st k \<and> worker_held st' k)
     \<and> (whealthy (fst st') \<longrightarrow> whealthy (fst st))"
proof (induction rule: worker_step.induct)
  case (send w j c r w' d)
  then show ?case using try_send_simps [of c "w\<lparr>wchecked := j\<rparr>"] by (simp add: worker_held_def)
next
  case (execute w n c q d w' d')
  then show ?case
    using worker_iteration_effect [OF _ execute.hyps] by (auto simp: worker_held_def)
qed (simp_all add: worker_held_def)

interpretation worker: grant_once "worker_step sha" worker_grants worker_held "\<lambda>st. worker_ok (fst st)" for sha
  by unfold_locales (use worker_step_ok worker_step_effect in blast)+

lemma worker_spawn_ok:
  assumes "worker_spawn sha kind d = (Inr w, d')"
  shows "worker_ok w" and "whealthy w" and "wqueue w = []" and "wrunning w" and "\<not> wstopped w"
    and "journal_open sha kind d = (Inr (wjournal w), d')"
  using assms
  by (auto simp: worker_spawn_def io_bind_def io_return_def worker_ok_def COMMAND_CAPACITY_def
      split: prod.splits sum.splits)

lemma unhealthy_runs:
  "runs (worker_step sha) st es st' \<Longrightarrow> worker_ok (fst st) \<Longrightarrow> \<not> whealthy (fst st) \<Longrightarrow> \<not> whealthy (fst st')"
  by (induction rule: runs.induct) (use worker_step_effect worker_step_ok in blast)+

section \<open>Calls run to their reply\<close>

lemma worker_call_idle:
  assumes "whealthy w" "wrunning w" "\<not> wstopped w" "wqueue w = []"
  shows "worker_call sha c w d =
    (case worker_execute sha (wtickets w) c (w\<lparr>wtickets := wtickets w + 1\<rparr>) d of
       (w', d') \<Rightarrow> (case map_of (wreplies w') (wtickets w) of
           Some r \<Rightarrow> (Inr r, w', d') | None \<Rightarrow> (Inl Stopped, w', d')))"
proof -
  have upd: "w\<lparr>wtickets := k, wqueue := []\<rparr> = w\<lparr>wtickets := k\<rparr>" for k
    using assms(4) by (cases w) simp
  show ?thesis
    using assms by (simp add: worker_call_def try_send_def COMMAND_CAPACITY_def upd split: prod.split)
qed

lemma worker_record_idle:
  assumes "whealthy w" "worker_idle w"
    and "journal_record sha (wjournal w) dg s d = (r, j, d')"
  shows "\<exists>w'. worker_record sha dg s w d = (r, w', d') \<and> wjournal w' = j
    \<and> whealthy w' = (\<not> isl r) \<and> worker_idle w'"
  using assms
  by (auto simp: worker_record_def worker_idle_def worker_call_idle worker_reply_def)

lemma worker_lookup_idle:
  assumes "whealthy w" "worker_idle w"
  shows "\<exists>w'. worker_lookup sha dg w d = (Inr (map_of (jindex (wjournal w)) dg), w', d)
    \<and> wjournal w' = wjournal w \<and> whealthy w' \<and> worker_idle w'"
  using assms
  by (auto simp: worker_lookup_def worker_idle_def worker_call_idle worker_reply_def)

lemma worker_record_unhealthy:
  "\<not> whealthy w \<Longrightarrow> worker_record sha dg s w d = (Inl Unavailable, w, d)"
  by (simp add: worker_record_def worker_call_def)

lemma worker_lookup_unhealthy:
  "\<not> whealthy w \<Longrightarrow> worker_lookup sha dg w d = (Inl Unavailable, w, d)"
  by (simp add: worker_lookup_def worker_call_def)

section \<open>Properties\<close>

text \<open>
  However clients, the worker thread and stop requests interleave, a worker fresh from
  \<open>Worker::spawn\<close> answers \<open>Ok(true)\<close> to at most one first record of a digest: a second reservation is
  never granted, also after the journal failed.
\<close>

lemma worker_reserves_once:
  assumes "worker_spawn sha kind d = (Inr w, d')" and "runs (worker_step sha) (w, d') es st"
  shows "length (filter (\<lambda>e. worker_grants e dg) es) \<le> 1
    \<and> (\<forall>e\<in>set es. worker_grants e dg \<longrightarrow> worker_held st dg)"
  using worker.grants_at_most_once [OF assms(2)] worker.granted_held [OF assms(2)]
    worker_spawn_ok(1) [OF assms(1)] by auto

lemma sample_spawn:
  "\<exists>w d. worker_spawn sample_sha Delivery (empty_disk []) = (Inr w, d) \<and> plan d = []
     \<and> journal_log sample_sha (wjournal w) d [] \<and> jkind (wjournal w) = Delivery"
  using open_fresh [of "empty_disk []" sample_sha Delivery]
  by (auto simp: worker_spawn_def io_bind_def io_return_def empty_disk_def opened_def)

lemma sample_worker_run:
  assumes "whealthy w" "worker_idle w" "wchecked w = 0" "wreplies w = []"
    and "journal_record sha (wjournal w) dg s d = (r, j, d')"
  shows "\<exists>w' n. runs (worker_step sha) (w, d) [Checked True, Sent (Record dg s) (Inr n),
      Executed n (Record dg s) (Some (RecordReply r))] (w', d')"
proof -
  let ?n = "wtickets w"
  let ?w1 = "w\<lparr>wchecked := Suc 0\<rparr>" and ?w2 = "w\<lparr>wqueue := [(?n, Record dg s)], wtickets := Suc ?n\<rparr>"
  obtain w3 where run: "worker_iteration sha ?w2 d = (w3, d')" and rep: "map_of (wreplies w3) ?n = Some (RecordReply r)"
    using assms by (simp add: worker_idle_def worker_reply_def)
  have "w\<lparr>wchecked := 0\<rparr> = w" using assms(3) by (cases w) simp
  then have "try_send (Record dg s) (?w1\<lparr>wchecked := 0\<rparr>) = (Inr ?n, ?w2)"
    using assms(2) by (simp add: worker_idle_def try_send_def COMMAND_CAPACITY_def)
  then have "worker_step sha (?w1, d) (Sent (Record dg s) (Inr ?n)) (?w2, d)"
    by (intro send [where k = 0]) simp_all
  moreover have "worker_step sha (w, d) (Checked True) (?w1, d)"
    using check_pass [of w sha d] assms(1,3) by simp
  moreover have "worker_step sha (?w2, d) (Executed ?n (Record dg s) (Some (RecordReply r))) (w3, d')"
    using execute [of ?w2 ?n "Record dg s" "[]" sha d w3 d'] run rep by simp
  ultimately show ?thesis by (blast intro: runs_Nil runs_Cons)
qed

lemma worker_reserves_once_witness:
  "\<exists>w d n es st. worker_spawn sample_sha Delivery (empty_disk []) = (Inr w, d)
    \<and> es = [Checked True, Sent (Record (sample_digest 1) Reserved) (Inr n),
        Executed n (Record (sample_digest 1) Reserved) (Some (RecordReply (Inr True)))]
    \<and> runs (worker_step sample_sha) (w, d) es st
    \<and> length (filter (\<lambda>e. worker_grants e (sample_digest 1)) es) \<le> 1
    \<and> worker_held st (sample_digest 1)"
proof -
  obtain w d where spawn: "worker_spawn sample_sha Delivery (empty_disk []) = (Inr w, d)" and d: "plan d = []"
    "journal_log sample_sha (wjournal w) d []" "jkind (wjournal w) = Delivery"
    using sample_spawn by blast
  obtain j d' where "journal_record sample_sha (wjournal w) (sample_digest 1) Reserved d = (Inr True, j, d')"
    using record_fresh [OF d(2,3,1)] by blast
  moreover have "worker_idle w" "wchecked w = 0" "wreplies w = []"
    using spawn by (auto simp: worker_idle_def worker_spawn_def io_bind_def io_return_def
        split: prod.splits sum.splits)
  ultimately obtain w' n where run: "runs (worker_step sample_sha) (w, d)
      [Checked True, Sent (Record (sample_digest 1) Reserved) (Inr n),
       Executed n (Record (sample_digest 1) Reserved) (Some (RecordReply (Inr True)))] (w', d')"
    using sample_worker_run worker_spawn_ok(2) [OF spawn] by blast
  from worker_reserves_once [OF spawn this, of "sample_digest 1"] spawn run show ?thesis by auto
qed

lemma failed_record_unhealthy:
  assumes ok: "worker_ok w" and q: "wqueue w = (n, c) # q"
    and run: "worker_iteration sha w d = (w', d')"
    and failed: "map_of (wreplies w') n = Some (RecordReply (Inl e))"
  shows "\<not> whealthy w'"
proof -
  have "map_of (wreplies w) n = None" using ok q by (force simp: worker_ok_def map_of_eq_None_iff)
  then show ?thesis
    using run failed q by (cases c) (auto simp: worker_exit_def worker_reply_def split: if_splits prod.splits)
qed

lemma step_failed_unhealthy:
  "worker_step sha st ev st' \<Longrightarrow> worker_ok (fst st) \<Longrightarrow> ev = Executed n c (Some (RecordReply (Inl e)))
    \<Longrightarrow> \<not> whealthy (fst st')"
proof (induction rule: worker_step.induct)
  case (execute w m c' q d w' d')
  then show ?case using failed_record_unhealthy [OF _ execute.hyps] by auto
qed simp_all

lemma runs_failed_unhealthy:
  "runs (worker_step sha) st es st' \<Longrightarrow> worker_ok (fst st)
    \<Longrightarrow> Executed n c (Some (RecordReply (Inl e))) \<in> set es \<Longrightarrow> \<not> whealthy (fst st')"
proof (induction rule: runs.induct)
  case (runs_Cons s ev s' es s'')
  have ok': "worker_ok (fst s')" by (rule worker_step_ok [OF runs_Cons.hyps(1) runs_Cons.prems(1)])
  show ?case
  proof (cases "ev = Executed n c (Some (RecordReply (Inl e)))")
    case True
    with runs_Cons.hyps(1) runs_Cons.prems(1) have "\<not> whealthy (fst s')"
      by (rule step_failed_unhealthy)
    then show ?thesis using unhealthy_runs [OF runs_Cons.hyps(2) ok'] by simp
  next
    case False
    then show ?thesis using runs_Cons.IH [OF ok'] runs_Cons.prems(2) by simp
  qed
qed simp

text \<open>
  C9: Fail closed.  After any record command failed, whatever else happens, every later
  \<open>record\<close> and \<open>lookup\<close> call answers \<open>Unavailable\<close> and touches neither the worker nor the disk.
\<close>

theorem worker_fails_closed:
  assumes "worker_spawn sha kind d = (Inr w, d')" and "runs (worker_step sha) (w, d') es (w', d'')"
    and "Executed n c (Some (RecordReply (Inl e))) \<in> set es"
  shows "worker_record sha dg s w' d'' = (Inl Unavailable, w', d'')
    \<and> worker_lookup sha dg w' d'' = (Inl Unavailable, w', d'')"
proof -
  have "\<not> whealthy w'"
    using runs_failed_unhealthy [OF assms(2)] worker_spawn_ok(1) [OF assms(1)] assms(3) by auto
  then show ?thesis by (simp add: worker_record_unhealthy worker_lookup_unhealthy)
qed

theorem worker_fails_closed_witness:
  "\<exists>w d n w' d''. worker_spawn sample_sha Delivery (empty_disk []) = (Inr w, d)
    \<and> runs (worker_step sample_sha) (w, d) [Checked True, Sent (Record (sample_digest 1) LocalExcluded) (Inr n),
        Executed n (Record (sample_digest 1) LocalExcluded) (Some (RecordReply (Inl Corrupt)))] (w', d'')
    \<and> worker_record sample_sha (sample_digest 2) Reserved w' d'' = (Inl Unavailable, w', d'')"
proof -
  obtain w d where spawn: "worker_spawn sample_sha Delivery (empty_disk []) = (Inr w, d)"
    and kind: "jkind (wjournal w) = Delivery"
    using sample_spawn by blast
  have "journal_record sample_sha (wjournal w) (sample_digest 1) LocalExcluded d = (Inl Corrupt, wjournal w, d)"
    using kind by (simp add: journal_record_def)
  moreover have "worker_idle w" "wchecked w = 0" "wreplies w = []"
    using spawn by (auto simp: worker_idle_def worker_spawn_def io_bind_def io_return_def
        split: prod.splits sum.splits)
  ultimately obtain w' n d' where run: "runs (worker_step sample_sha) (w, d)
      [Checked True, Sent (Record (sample_digest 1) LocalExcluded) (Inr n),
       Executed n (Record (sample_digest 1) LocalExcluded) (Some (RecordReply (Inl Corrupt)))] (w', d')"
    using sample_worker_run worker_spawn_ok(2) [OF spawn] by blast
  from worker_fails_closed [OF spawn this] spawn run show ?thesis by fastforce
qed

lemma worker_rounds_exited:
  "wqueue w = [] \<Longrightarrow> worker_rounds sha k w d = (w, d)"
  by (induction k) simp_all

text \<open>
  Shutdown.  \<open>join\<close> always comes back, also when the queue was full and the \<open>Stop\<close> command could
  not be sent: the thread leaves at its next command, executes none of the commands still
  queued, writes nothing more, and answers all of them with \<open>Stopped\<close>.
\<close>

lemma worker_join_stops:
  assumes "worker_ok w"
  shows "\<exists>w'. worker_join sha w d = (w', d) \<and> \<not> wrunning w' \<and> \<not> whealthy w' \<and> wqueue w' = []
    \<and> wreplies w' = wreplies w \<and> try_send c w' = (Inl Stopped, w')"
proof (cases "wrunning w")
  case False
  then have "wqueue (request_stop w) = []" "wrunning (request_stop w) = False"
    "whealthy (request_stop w) = False"
    using assms by (simp_all add: request_stop_def try_send_def worker_ok_def)
  then show ?thesis by (simp add: worker_join_def try_send_def)
next
  case True
  then have "wqueue (request_stop w) \<noteq> []"
    by (auto simp: request_stop_def try_send_def COMMAND_CAPACITY_def)
  then obtain e q where "wqueue (request_stop w) = e # q" by (auto simp: neq_Nil_conv)
  then show ?thesis
    by (cases e) (simp add: worker_join_def Let_def worker_rounds_exited worker_exit_def try_send_def)
qed

lemma worker_join_stops_witness:
  "\<exists>w d w'. worker_spawn sample_sha Delivery (empty_disk []) = (Inr w, d)
    \<and> worker_join sample_sha w d = (w', d) \<and> \<not> wrunning w'"
proof -
  obtain w d where spawn: "worker_spawn sample_sha Delivery (empty_disk []) = (Inr w, d)"
    using sample_spawn by blast
  from worker_join_stops [OF worker_spawn_ok(1) [OF this], of sample_sha d] spawn show ?thesis by blast
qed

lemma check_and_reserve_idle:
  assumes "whealthy w" "worker_idle w" and "check_and_reserve sha dg w d = (Inr r, w', d')"
  shows "\<exists>b. journal_record sha (wjournal w) dg Reserved d = (Inr b, wjournal w', d')
    \<and> r = (if b then ReserveReserved else ReserveSuppressed) \<and> whealthy w' \<and> worker_idle w'"
proof -
  obtain x j e where rec: "journal_record sha (wjournal w) dg Reserved d = (x, j, e)" by (metis prod_cases3)
  obtain w3 where "worker_record sha dg Reserved w d = (x, w3, e)" "wjournal w3 = j"
    "whealthy w3 = (\<not> isl x)" "worker_idle w3"
    using worker_record_idle [OF assms(1,2) rec] by blast
  then show ?thesis
    using assms(3) rec by (cases x) (auto simp: check_and_reserve_def map_result_def)
qed

lemma reserved_state:
  assumes run: "journal_record sha j dg Reserved d = (Inr b, j', d')"
  shows "map_of (jindex j') dg \<in> {Some Reserved, Some Completed}"
    and "journal_record sha j' dg Reserved d'' = (Inr False, j', d'')"
proof -
  have "map_of (jindex j) dg \<in> {Some Reserved, Some Completed}" if "\<not> b"
    using that journal_record_index(3) [OF run]
    by (cases "map_of (jindex j) dg"; (cases "the (map_of (jindex j) dg)")?) auto
  then show state: "map_of (jindex j') dg \<in> {Some Reserved, Some Completed}"
    using journal_record_index(1) [OF run] by (cases b) (auto simp: map_of_AList_update)
  then show "journal_record sha j' dg Reserved d'' = (Inr False, j', d'')"
    using journal_record_index(4,5) [OF run] by (auto simp: journal_record_def)
qed

text \<open>
  \<open>DeliveryLedger\<close> as its clients see it.  Whenever \<open>check_and_reserve\<close> answers at all, the digest is
  suppressed from then on: \<open>is_suppressed\<close> answers true and a second \<open>check_and_reserve\<close> answers
  \<open>Suppressed\<close>, neither touching the disk.
\<close>

lemma reserve_then_suppressed:
  assumes "whealthy w" and "worker_idle w" and "check_and_reserve sha dg w d = (Inr r, w', d')"
  shows "fst (is_suppressed sha dg w' d') = Inr True
    \<and> (\<exists>w''. check_and_reserve sha dg w' d' = (Inr ReserveSuppressed, w'', d'))"
proof -
  obtain b where rec: "journal_record sha (wjournal w) dg Reserved d = (Inr b, wjournal w', d')"
    and w': "whealthy w'" "worker_idle w'"
    using check_and_reserve_idle [OF assms] by blast
  obtain w3 where "worker_lookup sha dg w' d' = (Inr (map_of (jindex (wjournal w')) dg), w3, d')"
    using worker_lookup_idle [OF w'] by blast
  moreover obtain w4 where "worker_record sha dg Reserved w' d' = (Inr False, w4, d')"
    using worker_record_idle [OF w' reserved_state(2) [OF rec]] by blast
  ultimately show ?thesis
    using reserved_state(1) [OF rec] by (auto simp: is_suppressed_def check_and_reserve_def map_result_def)
qed

lemma reserve_then_suppressed_witness:
  "\<exists>w d w' d'. check_and_reserve sample_sha (sample_digest 1) w d = (Inr ReserveReserved, w', d')
    \<and> fst (is_suppressed sample_sha (sample_digest 1) w' d') = Inr True"
proof -
  obtain w d where spawn: "worker_spawn sample_sha Delivery (empty_disk []) = (Inr w, d)" and d: "plan d = []"
    "journal_log sample_sha (wjournal w) d []" "jkind (wjournal w) = Delivery"
    using sample_spawn by blast
  have idle: "whealthy w" "worker_idle w"
    using worker_spawn_ok [OF spawn] by (simp_all add: worker_idle_def)
  obtain j e where "journal_record sample_sha (wjournal w) (sample_digest 1) Reserved d = (Inr True, j, e)"
    using record_fresh [OF d(2,3,1)] by blast
  from worker_record_idle [OF idle this] obtain w' where
    run: "check_and_reserve sample_sha (sample_digest 1) w d = (Inr ReserveReserved, w', e)"
    by (auto simp: check_and_reserve_def map_result_def)
  from reserve_then_suppressed [OF idle this] run show ?thesis by blast
qed

end
