(* ===== verification/Ledger_Isolation.thy ===== *)
theory Ledger_Isolation
  imports Ledger_Worker
begin

text \<open>
  The two journals live in one directory but do not disturb each other
  (\<open>BridgeLedger::open\<close> of \<open>src/src/nats_bridge/ledger.rs\<close>).  A frame rule for the disk
  operations shows that opening one journal, whatever it finds and whichever system call
  fails, leaves the other journal's file and directory entry as they were.
\<close>

section \<open>Frames\<close>

definition apart :: "nat \<Rightarrow> string set \<Rightarrow> disk \<Rightarrow> bool" where
  "apart i names d \<longleftrightarrow> i < length (inodes d) \<and> (\<forall>n\<in>names. entries d n \<noteq> Some (RegularFile i))"

definition untouched :: "nat \<Rightarrow> string set \<Rightarrow> disk \<Rightarrow> disk \<Rightarrow> bool" where
  "untouched i names d d' \<longleftrightarrow>
     length (inodes d) \<le> length (inodes d') \<and> inodes d' ! i = inodes d ! i
     \<and> (\<forall>n. n \<notin> names \<longrightarrow> entries d' n = entries d n)
     \<and> (\<forall>m'\<in>set (dir_images d'). \<exists>m\<in>insert (entries d) (set (dir_images d)).
          \<forall>n. n \<notin> names \<longrightarrow> m' n = m n)"

definition keeps :: "nat \<Rightarrow> string set \<Rightarrow> 'a io \<Rightarrow> bool" where
  "keeps i names m \<longleftrightarrow>
     (\<forall>d r d'. apart i names d \<longrightarrow> m d = (r, d') \<longrightarrow> apart i names d' \<and> untouched i names d d')"

definition journal_names :: "journal_kind \<Rightarrow> string set" where
  "journal_names kind = {file_name kind, temp_name (file_name kind)}"

text \<open>A directory whose delivery journal is damaged.\<close>

definition damaged_disk :: disk where
  "damaged_disk =
     (let m = [file_name Exclusion \<mapsto> RegularFile 0, file_name Delivery \<mapsto> RegularFile 1]
      in \<lparr>inodes = [settled (header_bytes Exclusion), settled [0]], entries = m, dir_images = [m], plan = []\<rparr>)"

lemma untouched_refl [simp]: "untouched i names d d"
  by (auto simp: untouched_def)

lemma untouched_trans:
  assumes "untouched i names d d'" and "untouched i names d' d''"
  shows "untouched i names d d''"
proof -
  have "\<exists>m\<in>insert (entries d) (set (dir_images d)). \<forall>n. n \<notin> names \<longrightarrow> m'' n = m n"
    if "m'' \<in> set (dir_images d'')" for m''
  proof -
    from that assms(2) obtain m' where "m' \<in> insert (entries d') (set (dir_images d'))"
      and m': "\<forall>n. n \<notin> names \<longrightarrow> m'' n = m' n"
      unfolding untouched_def by blast
    then consider "m' = entries d'" | "m' \<in> set (dir_images d')" by blast
    then show ?thesis
    proof cases
      case 1
      then show ?thesis using m' assms(1) unfolding untouched_def by auto
    next
      case 2
      with assms(1) obtain m where "m \<in> insert (entries d) (set (dir_images d))"
        "\<forall>n. n \<notin> names \<longrightarrow> m' n = m n"
        unfolding untouched_def by blast
      then show ?thesis using m' by auto
    qed
  qed
  then show ?thesis using assms unfolding untouched_def by auto
qed

lemma keeps_return [simp]: "keeps i names (io_return x)" "keeps i names (io_error e)"
  by (simp_all add: keeps_def io_return_def io_error_def)

lemma keeps_plan:
  "untouched i names d (d\<lparr>plan := os\<rparr>)" "apart i names (d\<lparr>plan := os\<rparr>) = apart i names d"
  by (auto simp: untouched_def apart_def)

lemma keeps_check [simp]: "keeps i names io_check"
  unfolding keeps_def
proof (intro allI impI)
  fix d r d' assume "apart i names d" "io_check d = (r, d')"
  then show "apart i names d' \<and> untouched i names d d'"
    by (cases rule: io_check_cases [of d]) (auto simp: keeps_plan)
qed

lemma keeps_bind:
  assumes "keeps i names m"
    and "\<And>d d' x. apart i names d \<Longrightarrow> m d = (Inr x, d') \<Longrightarrow> Q x" and "\<And>x. Q x \<Longrightarrow> keeps i names (f x)"
  shows "keeps i names (io_bind m f)"
  unfolding keeps_def
proof (intro allI impI)
  fix d r d' assume ap: "apart i names d" and run: "io_bind m f d = (r, d')"
  obtain y d1 where m: "m d = (y, d1)" by fastforce
  then have one: "apart i names d1" "untouched i names d d1" using assms(1) ap unfolding keeps_def by blast+
  show "apart i names d' \<and> untouched i names d d'"
  proof (cases y)
    case (Inl e)
    then show ?thesis using run m one by (simp add: io_bind_def)
  next
    case (Inr x)
    then have "keeps i names (f x)" using assms(2,3) ap m by blast
    moreover have "f x d1 = (r, d')" using run m Inr by (simp add: io_bind_def)
    ultimately show ?thesis using one unfolding keeps_def by (blast intro: untouched_trans)
  qed
qed

lemmas keeps_then = keeps_bind [where Q = "\<lambda>_. True", simplified]

lemma keeps_update:
  assumes "k \<noteq> i"
  shows "apart i names (update_inode k g d) = apart i names d" "untouched i names d (update_inode k g d)"
  using assms by (auto simp: apart_def untouched_def)

lemma keeps_simple:
  assumes "\<And>d. apart i names d \<Longrightarrow> apart i names (g d) \<and> untouched i names d (g d)"
  shows "keeps i names (\<lambda>d. (h d, g d))"
  using assms by (simp add: keeps_def)

lemma keeps_files:
  assumes "k \<noteq> i"
  shows "keeps i names (write_all k bs)" "keeps i names (sync_all k)" "keeps i names (set_len k n)"
    "keeps i names (read_all k)" "keeps i names (file_length k)"
proof -
  show "keeps i names (write_all k bs)"
    unfolding keeps_def
  proof (intro allI impI)
    fix d r d' assume "apart i names d" "write_all k bs d = (r, d')"
    then show "apart i names d' \<and> untouched i names d d'"
      using untouched_trans [OF keeps_plan(1) keeps_update(2) [OF assms]] keeps_update(1) [OF assms]
      by (cases rule: write_all_cases [of k bs d]) (auto simp: keeps_plan)
  qed
qed (auto simp: sync_all_def set_len_def read_all_def file_length_def intro!: keeps_then keeps_simple
    intro: keeps_update(2) [OF assms] simp: keeps_update(1) [OF assms])

lemma untouched_entries:
  assumes "\<And>n. n \<notin> names \<Longrightarrow> m n = entries d n"
  shows "untouched i names d (set_entries m d)"
  using assms by (auto simp: untouched_def set_entries_def)

lemma keeps_create:
  assumes "n \<in> names"
  shows "keeps i names (create_entry n)"
  unfolding keeps_def
proof (intro allI impI)
  fix d r d' assume "apart i names d" "create_entry n d = (r, d')"
  then show "apart i names d' \<and> untouched i names d d'"
    using assms by (auto simp: create_entry_def Let_def apart_def untouched_def set_entries_def nth_append split: if_splits)
qed

lemma keeps_case:
  assumes "n \<in> names" and "keeps i names A" and "\<And>k. k \<noteq> i \<Longrightarrow> keeps i names (B k)"
  shows "keeps i names (\<lambda>d. case entries d n of None \<Rightarrow> A d
    | Some (RegularFile k) \<Rightarrow> B k d | Some _ \<Rightarrow> (Inl e, d))"
  using assms unfolding keeps_def
  by (auto split: option.splits dentry.splits) (metis apart_def)+

lemma keeps_open_active: "n \<in> names \<Longrightarrow> keeps i names (open_active n)"
  unfolding open_active_def by (intro keeps_then keeps_check keeps_case keeps_create keeps_return)

lemma keeps_cleanup_temp:
  assumes "temp_name n \<in> names"
  shows "keeps i names (cleanup_temp n)"
  unfolding cleanup_temp_def
proof (intro keeps_then keeps_check keeps_case assms keeps_simple)
  fix d assume "apart i names d"
  then show "apart i names (set_entries ((entries d)(temp_name n := None)) d)
      \<and> untouched i names d (set_entries ((entries d)(temp_name n := None)) d)"
    using assms by (auto simp: apart_def set_entries_def intro!: untouched_entries [unfolded set_entries_def])
qed auto

lemma open_active_apart:
  assumes "apart i names d" "n \<in> names" "open_active n d = (Inr k, d')"
  shows "k \<noteq> i"
  using assms
  by (cases rule: io_check_cases [of d])
    (auto simp: open_active_def apart_def io_bind_def create_entry_def io_return_def Let_def
      split: option.splits dentry.splits prod.splits sum.splits)

lemma keeps_recover: "k \<noteq> i \<Longrightarrow> keeps i names (recover sha k kind)"
  unfolding recover_def
  by (intro keeps_then keeps_check keeps_files) (auto intro!: keeps_then keeps_files split: sum.split)

lemma keeps_journal_open: "keeps i (journal_names kind) (journal_open sha kind)"
  unfolding journal_open_def
proof (rule keeps_then)
  let ?N = "journal_names kind"
  show "keeps i ?N (cleanup_temp (file_name kind))" by (rule keeps_cleanup_temp) (simp add: journal_names_def)
  have name: "file_name kind \<in> ?N" by (simp add: journal_names_def)
  show "keeps i ?N (io_bind (open_active (file_name kind)) (\<lambda>k. io_bind (file_length k) (\<lambda>len.
      io_bind (if len = 0 then write_header k kind
               else if MAX_FILE_BYTES < len then io_error Capacity else io_return ()) (\<lambda>_.
      io_bind (recover sha k kind) (\<lambda>(sequence, records, index).
        io_return \<lparr>jkind = kind, jfile = k, jsequence = sequence, jrecords = records, jindex = index\<rparr>)))))"
    by (rule keeps_bind [where Q = "\<lambda>k. k \<noteq> i"], rule keeps_open_active [OF name],
        erule open_active_apart [OF _ name], assumption)
      (auto simp: write_header_def intro!: keeps_then keeps_files keeps_recover)
qed

section \<open>The exclusion journal survives\<close>

lemma ledger_inv_untouched:
  assumes inv: "ledger_inv sha (j, d)" and un: "untouched (jfile j) names d d'"
    and "entries d \<in> set (dir_images d)"
    and out: "file_name (jkind j) \<notin> names" "temp_name (file_name (jkind j)) \<notin> names"
  shows "ledger_inv sha (j, d')"
proof -
  have "entry_durable j d'"
    using ledger_invD(3) [OF inv] un assms(3) out unfolding entry_durable_def untouched_def by (metis insertE)
  then show ?thesis
    using inv un by (auto simp: ledger_inv_def journal_ok_def journal_log_def untouched_def)
qed

lemma file_names_distinct:
  "file_name Exclusion \<notin> journal_names Delivery" "temp_name (file_name Exclusion) \<notin> journal_names Delivery"
  by (simp_all add: journal_names_def temp_name_def)

text \<open>
  A bad delivery journal cannot poison the exclusion journal.  Once the exclusion worker is up,
  \<open>BridgeLedger::open\<close> hands out that same healthy worker whatever becomes of the delivery
  journal (damaged, unreadable, or failing at any system call), and the exclusion journal's
  file and entry are as durable and consistent as before.
\<close>

lemma delivery_failure_keeps_exclusion:
  assumes "worker_spawn sha Exclusion d = (Inr x, d1)" and "jkind (wjournal x) = Exclusion"
    and "ledger_inv sha (wjournal x, d1)" and "entries d1 \<in> set (dir_images d1)"
    and "apart (jfile (wjournal x)) (journal_names Delivery) d1"
    and "bridge_ledger_open sha d = (r, d')"
  shows "ledger_inv sha (wjournal x, d') \<and> whealthy x
    \<and> (case r of Inl (ExclusionFailed _) \<Rightarrow> False | Inl (DeliveryFailed _ y) \<Rightarrow> y = x
       | Inr b \<Rightarrow> exclusion b = x)"
proof -
  obtain y d2 where open2: "journal_open sha Delivery d1 = (y, d2)" by fastforce
  have "untouched (jfile (wjournal x)) (journal_names Delivery) d1 d2"
    using keeps_journal_open assms(5) open2 unfolding keeps_def by blast
  then have "ledger_inv sha (wjournal x, d2)"
    using assms(2) file_names_distinct by (intro ledger_inv_untouched [OF assms(3) _ assms(4)]) simp_all
  moreover have "d' = d2"
    using assms(1,6) open2
    by (cases y) (auto simp: bridge_ledger_open_def worker_spawn_def [of sha Delivery] io_bind_def io_return_def)
  moreover have "case r of Inl (ExclusionFailed _) \<Rightarrow> False | Inl (DeliveryFailed _ y) \<Rightarrow> y = x
       | Inr b \<Rightarrow> exclusion b = x"
    using assms(1,6) open2
    by (cases y) (auto simp: bridge_ledger_open_def worker_spawn_def [of sha Delivery] io_bind_def io_return_def)
  ultimately show ?thesis using worker_spawn_ok(2) [OF assms(1)] by simp
qed

lemma damaged_disk_spawn:
  "\<exists>x d1. worker_spawn sample_sha Exclusion damaged_disk = (Inr x, d1) \<and> wjournal x = opened Exclusion 0 [] []
    \<and> ledger_inv sample_sha (wjournal x, d1) \<and> entries d1 = entries damaged_disk
    \<and> dir_images d1 = dir_images damaged_disk \<and> plan d1 = []"
proof -
  have "length (sample_sha x) = 32" for x by (simp add: sample_sha_def)
  moreover have "log_index Exclusion [] [] = Some []" "digests_ok []" by (simp_all add: digests_ok_def)
  ultimately obtain d1 where d1: "journal_open sample_sha Exclusion damaged_disk = (Inr (opened Exclusion 0 [] []), d1)"
    "journal_log sample_sha (opened Exclusion 0 [] []) d1 []" "entries d1 = entries damaged_disk"
    "dir_images d1 = dir_images damaged_disk" "plan d1 = []"
    using open_log [of sample_sha Exclusion "[]" "[]" "[]" damaged_disk 0]
    by (auto simp: damaged_disk_def Let_def RECORD_LEN_def log_bytes_def temp_name_def)
  then have "entry_durable (opened Exclusion 0 [] []) d1"
    by (simp add: entry_durable_def opened_def damaged_disk_def Let_def temp_name_def)
  then show ?thesis
    using d1 by (auto simp: worker_spawn_def io_bind_def io_return_def ledger_inv_def journal_ok_def sample_sha_def)
qed

lemma delivery_failure_keeps_exclusion_witness:
  "\<exists>x d'. bridge_ledger_open sample_sha damaged_disk = (Inl (DeliveryFailed Corrupt x), d')
    \<and> ledger_inv sample_sha (wjournal x, d') \<and> whealthy x"
proof -
  obtain x d1 where spawn: "worker_spawn sample_sha Exclusion damaged_disk = (Inr x, d1)"
    and x: "wjournal x = opened Exclusion 0 [] []" "ledger_inv sample_sha (wjournal x, d1)"
    and d1: "entries d1 = entries damaged_disk" "dir_images d1 = dir_images damaged_disk" "plan d1 = []"
    using damaged_disk_spawn by blast
  have "apart 1 (journal_names Exclusion) damaged_disk"
    by (simp add: apart_def damaged_disk_def Let_def journal_names_def temp_name_def)
  then have "untouched 1 (journal_names Exclusion) damaged_disk d1"
    using keeps_journal_open worker_spawn_ok(6) [OF spawn] unfolding keeps_def by blast
  then have files: "fdata (inodes d1 ! 1) = [0]" "1 < length (inodes d1)"
    by (auto simp: untouched_def damaged_disk_def Let_def)
  have "recover_bytes sample_sha Delivery [0] = Inl Corrupt"
    by (simp add: recover_bytes_def header_ok_def HEADER_LEN_def)
  then have "fst (journal_open sample_sha Delivery d1) = Inl Corrupt"
    using d1 files by (intro open_corrupt [of d1 1 "[0]"])
      (simp_all add: damaged_disk_def Let_def temp_name_def MAX_FILE_BYTES_def HEADER_LEN_def)
  then obtain d' where "journal_open sample_sha Delivery d1 = (Inl Corrupt, d')"
    by (metis prod.collapse)
  then have run: "bridge_ledger_open sample_sha damaged_disk = (Inl (DeliveryFailed Corrupt x), d')"
    using spawn by (simp add: bridge_ledger_open_def worker_spawn_def [of _ Delivery] io_bind_def)
  have "entries d1 \<in> set (dir_images d1)" "apart (jfile (wjournal x)) (journal_names Delivery) d1"
    using d1 x(1) files
    by (auto simp: damaged_disk_def Let_def apart_def opened_def journal_names_def temp_name_def)
  with delivery_failure_keeps_exclusion [OF spawn _ x(2) _ _ run] x(1) run show ?thesis
    by (auto simp: opened_def)
qed

end
