(* ===== verification/Node_Store.thy ===== *)
theory Node_Store
  imports Json Store_Crypto Node_Preflight Bridge_Config Ledger_Isolation
begin

text \<open>
  The document operations of the node (\<open>SidecarNode\<close> in \<open>src/src/node.rs\<close>): writing, reading,
  deleting and listing documents, and the local-exclusion record that precedes every mutation
  of a mapped collection.  The document store and the CRDT conversion belong to the mesh
  library and are the parameters \<open>node_env\<close>; a store operation may fail, and a failing write may
  leave any state behind.  The lemmas show the write-ahead of the exclusion record, that a
  create never overwrites, and when reading gives back what was written.
\<close>

section \<open>Environment and state\<close>

record ('n, 'd, 's) node_env =
  ne_serde :: "'n serde"
  ne_to_automerge :: "'n json \<Rightarrow> 'd option \<Rightarrow> 'd option"
  ne_of_automerge :: "'d \<Rightarrow> 'n json"
  ne_view :: "'d \<Rightarrow> am_value"
  ne_encoded_len :: "'d \<Rightarrow> nat"
  ne_get :: "string \<Rightarrow> 's \<Rightarrow> 'd option option"
  ne_put :: "string \<Rightarrow> 'd \<Rightarrow> 's \<Rightarrow> bool \<times> 's"
  ne_delete :: "string \<Rightarrow> 's \<Rightarrow> bool \<times> 's"
  ne_keys :: "string \<Rightarrow> 's \<Rightarrow> string list option"
  ne_crypto :: crypto_lib
  ne_sha :: "bytes \<Rightarrow> bytes"

datatype change_type = UpsertChange | DeleteChange

record change_event =
  ce_collection :: string
  ce_doc_id :: string
  ce_type :: change_type
  ce_json :: "string option"

record installed_ledger =
  il_collections :: "string set"
  il_exclusion :: "worker option"
  il_delivery :: "worker option"

record 's node =
  n_store :: 's
  n_cipher :: "store_cipher option"
  n_ledger :: "installed_ledger option"
  n_disk :: disk
  n_changes :: "change_event list"

datatype write_mode = Upsert | CreateOnly

datatype write_error =
    AlreadyExists | InvalidInput | Encryption | Conversion | StoreRead | StoreWrite | LedgerFailed

definition doc_key :: "string \<Rightarrow> string \<Rightarrow> string" where
  "doc_key coll doc_id = coll @ '':'' @ doc_id"

definition MAX_BRIDGE_AUTOMERGE_BYTES :: nat where
  "MAX_BRIDGE_AUTOMERGE_BYTES = 8 * 1048576"

section \<open>The bridge ledger\<close>

record ledger_health =
  exclusion_healthy :: bool
  delivery_healthy :: bool

definition worker_up :: "worker option \<Rightarrow> bool" where
  "worker_up w = (case w of None \<Rightarrow> False | Some x \<Rightarrow> whealthy x)"

definition ledger_health_of :: "installed_ledger \<Rightarrow> ledger_health" where
  "ledger_health_of l =
     \<lparr>exclusion_healthy = worker_up (il_exclusion l), delivery_healthy = worker_up (il_delivery l)\<rparr>"

definition install_bridge_ledger ::
  "('n, 'd, 's) node_env \<Rightarrow> string list \<Rightarrow> 's node \<Rightarrow> (ledger_error + ledger_health) \<times> 's node" where
  "install_bridge_ledger env colls nd =
     (case n_ledger nd of
        Some l \<Rightarrow>
          if il_collections l \<noteq> set colls then (Inl Corrupt, nd) else (Inr (ledger_health_of l), nd)
      | None \<Rightarrow>
          (case bridge_ledger_open (ne_sha env) (n_disk nd) of
             (r, d) \<Rightarrow>
               let (x, y) = (case r of
                     Inr b \<Rightarrow> (Some (exclusion b), Some (delivery b))
                   | Inl (DeliveryFailed _ w) \<Rightarrow> (Some w, None)
                   | Inl (ExclusionFailed _) \<Rightarrow> (None, None));
                   l = \<lparr>il_collections = set colls, il_exclusion = x, il_delivery = y\<rparr>
               in (Inr (ledger_health_of l), nd\<lparr>n_ledger := Some l, n_disk := d\<rparr>)))"

definition bridge_ledgers :: "'s node \<Rightarrow> (worker option \<times> worker option) option" where
  "bridge_ledgers nd = map_option (\<lambda>l. (il_exclusion l, il_delivery l)) (n_ledger nd)"

definition record_local_exclusion ::
  "('n, 'd, 's) node_env \<Rightarrow> string \<Rightarrow> string \<Rightarrow> 's node \<Rightarrow> (ledger_error + unit) \<times> 's node" where
  "record_local_exclusion env coll doc_id nd =
     (case n_ledger nd of
        None \<Rightarrow> (Inr (), nd)
      | Some l \<Rightarrow>
          if coll \<notin> il_collections l then (Inr (), nd)
          else case il_exclusion l of
            None \<Rightarrow> (Inl Unavailable, nd)
          | Some w \<Rightarrow>
              (case record_local_excluded (ne_sha env) (document_digest (ne_sha env) coll doc_id) w (n_disk nd) of
                 (r, w', d') \<Rightarrow>
                   (r, nd\<lparr>n_ledger := Some (l\<lparr>il_exclusion := Some w'\<rparr>), n_disk := d'\<rparr>)))"

section \<open>Writing\<close>

definition ciphertext_json :: "string \<Rightarrow> 'n json" where
  "ciphertext_json c = JObject [(''value'', JString c)]"

text \<open>What is handed to the conversion: the parsed value, or its encryption as a wrapped string.\<close>

definition stored_json ::
  "('n, 'd, 's) node_env \<Rightarrow> store_cipher option \<Rightarrow> bytes \<Rightarrow> string \<Rightarrow> 'n json \<Rightarrow> write_error + 'n json" where
  "stored_json env cipher nonce json_data parsed =
     (case cipher of
        Some c \<Rightarrow>
          (case cipher_encrypt (ne_crypto env) c nonce json_data of
             Inl _ \<Rightarrow> Inl Encryption | Inr x \<Rightarrow> Inr (ciphertext_json x))
      | None \<Rightarrow> Inr parsed)"

text \<open>The critical section under \<open>lock_doc\<close>.\<close>

definition write_locked ::
  "('n, 'd, 's) node_env \<Rightarrow> string \<Rightarrow> bytes \<Rightarrow> string \<Rightarrow> 'n json \<Rightarrow> write_mode \<Rightarrow> 's node
    \<Rightarrow> (write_error + unit) \<times> 's node" where
  "write_locked env key nonce json_data parsed mode nd =
     (case ne_get env key (n_store nd) of
        None \<Rightarrow> (Inl StoreRead, nd)
      | Some existing \<Rightarrow>
          if mode = CreateOnly \<and> existing \<noteq> None then (Inl AlreadyExists, nd)
          else
            let base = (case mode of Upsert \<Rightarrow> existing | CreateOnly \<Rightarrow> None)
            in case stored_json env (n_cipher nd) nonce json_data parsed of
                 Inl e \<Rightarrow> (Inl e, nd)
               | Inr v \<Rightarrow>
                   (case ne_to_automerge env v base of
                      None \<Rightarrow> (Inl Conversion, nd)
                    | Some doc \<Rightarrow>
                        (case ne_put env key doc (n_store nd) of
                           (ok, s) \<Rightarrow> (if ok then Inr () else Inl StoreWrite, nd\<lparr>n_store := s\<rparr>))))"

definition write_document ::
  "('n, 'd, 's) node_env \<Rightarrow> bytes \<Rightarrow> string \<Rightarrow> string \<Rightarrow> string \<Rightarrow> write_mode \<Rightarrow> 's node
    \<Rightarrow> (write_error + unit) \<times> 's node" where
  "write_document env nonce coll doc_id json_data mode nd =
     (case from_str (ne_serde env) json_data of
        None \<Rightarrow> (Inl InvalidInput, nd)
      | Some parsed \<Rightarrow>
          (case record_local_exclusion env coll doc_id nd of
             (Inl _, nd') \<Rightarrow> (Inl LedgerFailed, nd')
           | (Inr _, nd') \<Rightarrow>
               write_locked env (doc_key coll doc_id) nonce json_data parsed mode nd'))"

definition put_document where
  "put_document env nonce coll doc_id json_data nd = write_document env nonce coll doc_id json_data Upsert nd"

definition create_bridge_document where
  "create_bridge_document env nonce coll doc_id envelope_json nd =
     write_document env nonce coll doc_id envelope_json CreateOnly nd"

definition delete_document ::
  "('n, 'd, 's) node_env \<Rightarrow> string \<Rightarrow> string \<Rightarrow> 's node \<Rightarrow> (write_error + unit) \<times> 's node" where
  "delete_document env coll doc_id nd =
     (case record_local_exclusion env coll doc_id nd of
        (Inl _, nd') \<Rightarrow> (Inl LedgerFailed, nd')
      | (Inr _, nd') \<Rightarrow>
          (case ne_delete env (doc_key coll doc_id) (n_store nd') of
             (ok, s) \<Rightarrow>
               if ok
               then (Inr (), nd'\<lparr>n_store := s, n_changes := n_changes nd' @
                       [\<lparr>ce_collection = coll, ce_doc_id = doc_id, ce_type = DeleteChange, ce_json = None\<rparr>]\<rparr>)
               else (Inl StoreWrite, nd'\<lparr>n_store := s\<rparr>)))"

section \<open>Reading\<close>

datatype read_error = StoreReadFailed | DecryptFailed | SerializeFailed

definition encrypted_value :: "'n json \<Rightarrow> string option" where
  "encrypted_value v =
     (case Option.bind (json_get ''value'' v) as_str of
        Some s \<Rightarrow> if is_encrypted s then Some s else None
      | None \<Rightarrow> None)"

definition maybe_decrypt :: "crypto_lib \<Rightarrow> store_cipher option \<Rightarrow> string option \<Rightarrow> read_error + string option" where
  "maybe_decrypt lib cipher value =
     (case value of
        Some v \<Rightarrow>
          if is_encrypted v then
            (case cipher of
               Some c \<Rightarrow> (case cipher_decrypt lib c v of Inl _ \<Rightarrow> Inl DecryptFailed | Inr p \<Rightarrow> Inr (Some p))
             | None \<Rightarrow> Inr (Some v))
          else Inr (Some v)
      | None \<Rightarrow> Inr None)"

definition get_document ::
  "('n, 'd, 's) node_env \<Rightarrow> string \<Rightarrow> string \<Rightarrow> 's node \<Rightarrow> read_error + string option" where
  "get_document env coll doc_id nd =
     (case ne_get env (doc_key coll doc_id) (n_store nd) of
        None \<Rightarrow> Inl StoreReadFailed
      | Some None \<Rightarrow> Inr None
      | Some (Some doc) \<Rightarrow>
          let json = ne_of_automerge env doc
          in case encrypted_value json of
               Some s \<Rightarrow> maybe_decrypt (ne_crypto env) (n_cipher nd) (Some s)
             | None \<Rightarrow>
                 (case to_str (ne_serde env) json of None \<Rightarrow> Inl SerializeFailed | Some t \<Rightarrow> Inr (Some t)))"

definition get_bridge_document ::
  "('n, 'd, 's) node_env \<Rightarrow> string \<Rightarrow> string \<Rightarrow> 's node \<Rightarrow> read_error + string option" where
  "get_bridge_document env coll doc_id nd =
     (if length coll > MAX_BRIDGE_IDENTITY_BYTES \<or> length doc_id > MAX_BRIDGE_IDENTITY_BYTES then Inr None
      else case ne_get env (doc_key coll doc_id) (n_store nd) of
        None \<Rightarrow> Inl StoreReadFailed
      | Some None \<Rightarrow> Inr None
      | Some (Some doc) \<Rightarrow>
          if ne_encoded_len env doc > MAX_BRIDGE_AUTOMERGE_BYTES then Inr None
          else if \<not> preflight_event_document (ne_view env doc) then Inr None
          else
            let json = ne_of_automerge env doc;
                value = (case encrypted_value json of
                   Some e \<Rightarrow>
                     (case n_cipher nd of
                        None \<Rightarrow> Inr None
                      | Some c \<Rightarrow> (case cipher_decrypt (ne_crypto env) c e of
                          Inl _ \<Rightarrow> Inl DecryptFailed | Inr p \<Rightarrow> Inr (Some p)))
                 | None \<Rightarrow>
                     (case to_str (ne_serde env) json of None \<Rightarrow> Inl SerializeFailed | Some t \<Rightarrow> Inr (Some t)))
            in case value of
                 Inr (Some t) \<Rightarrow> Inr (if length t \<le> MAX_BRIDGE_EVENT_JSON_BYTES then Some t else None)
               | other \<Rightarrow> other)"

definition list_documents :: "('n, 'd, 's) node_env \<Rightarrow> string \<Rightarrow> 's node \<Rightarrow> read_error + string list" where
  "list_documents env coll nd =
     (let prefix = coll @ '':''
      in case ne_keys env prefix (n_store nd) of
           None \<Rightarrow> Inl StoreReadFailed
         | Some keys \<Rightarrow> Inr (List.map_filter (\<lambda>k. strip_prefix k prefix) keys))"

section \<open>Local exclusion\<close>

definition locally_excluded :: "('n, 'd, 's) node_env \<Rightarrow> string \<Rightarrow> string \<Rightarrow> 's node \<Rightarrow> bool" where
  "locally_excluded env coll doc_id nd \<longleftrightarrow>
     (\<exists>l w. n_ledger nd = Some l \<and> il_exclusion l = Some w
        \<and> map_of (jindex (wjournal w)) (document_digest (ne_sha env) coll doc_id) = Some LocalExcluded)"

text \<open>A mapped collection, with no call of the exclusion worker under way.\<close>

definition mapped :: "string \<Rightarrow> 's node \<Rightarrow> bool" where
  "mapped coll nd \<longleftrightarrow>
     (\<exists>l. n_ledger nd = Some l \<and> coll \<in> il_collections l
        \<and> (case il_exclusion l of None \<Rightarrow> True | Some w \<Rightarrow> worker_idle w))"

definition exclusion_down :: "'s node \<Rightarrow> bool" where
  "exclusion_down nd \<longleftrightarrow> (\<exists>l. n_ledger nd = Some l \<and> \<not> worker_up (il_exclusion l))"

text \<open>A store whose operations succeed, for witnesses.\<close>

definition sample_node_env :: "(nat, nat json, (string \<times> nat json) list) node_env" where
  "sample_node_env =
     \<lparr>ne_serde = \<lparr>from_str = (\<lambda>s. if s = [] then None else Some (JObject [(''value'', JString s)])),
                  to_str = (\<lambda>v. Option.bind (json_get ''value'' v) as_str)\<rparr>,
      ne_to_automerge = (\<lambda>v base. Some v), ne_of_automerge = (\<lambda>d. d), ne_view = (\<lambda>d. AmMap []),
      ne_encoded_len = (\<lambda>d. 0), ne_get = (\<lambda>k s. Some (map_of s k)),
      ne_put = (\<lambda>k d s. (True, AList.update k d s)), ne_delete = (\<lambda>k s. (True, AList.delete k s)),
      ne_keys = (\<lambda>p s. Some (filter (\<lambda>k. starts_with k p) (map fst s))),
      ne_crypto = sample_crypto, ne_sha = sample_sha\<rparr>"

definition sample_node :: "(string \<times> nat json) list node" where
  "sample_node = \<lparr>n_store = [], n_cipher = None, n_ledger = None, n_disk = empty_disk [], n_changes = []\<rparr>"

definition sample_mapped_node :: "worker option \<Rightarrow> disk \<Rightarrow> (string \<times> nat json) list node" where
  "sample_mapped_node w d =
     sample_node\<lparr>n_ledger := Some \<lparr>il_collections = {''frames''}, il_exclusion = w, il_delivery = None\<rparr>,
       n_disk := d\<rparr>"

lemma local_excluded_call:
  assumes idle: "worker_idle w" and run: "record_local_excluded sha dg w d = (r, w', d')"
  shows "worker_idle w'" and "r = Inr x \<Longrightarrow> whealthy w \<and> map_of (jindex (wjournal w')) dg = Some LocalExcluded
    \<and> journal_record sha (wjournal w) dg LocalExcluded d = (Inr True, wjournal w', d')
      \<or> whealthy w \<and> map_of (jindex (wjournal w')) dg = Some LocalExcluded \<and> wjournal w' = wjournal w \<and> d' = d"
proof -
  have "worker_idle w' \<and> (r = Inr x \<longrightarrow> whealthy w \<and> map_of (jindex (wjournal w')) dg = Some LocalExcluded
    \<and> journal_record sha (wjournal w) dg LocalExcluded d = (Inr True, wjournal w', d')
      \<or> whealthy w \<and> map_of (jindex (wjournal w')) dg = Some LocalExcluded \<and> wjournal w' = wjournal w \<and> d' = d)"
  proof (cases "whealthy w")
    case False
    then show ?thesis
      using run idle by (auto simp: record_local_excluded_def worker_record_unhealthy map_result_def)
  next
    case True
    obtain y j e where rec: "journal_record sha (wjournal w) dg LocalExcluded d = (y, j, e)" by (metis prod_cases3)
    obtain w1 where w1: "worker_record sha dg LocalExcluded w d = (y, w1, e)" "wjournal w1 = j" "worker_idle w1"
      using worker_record_idle [OF True idle rec] by blast
    then have w': "w' = w1" "d' = e" "r = Inr x \<Longrightarrow> \<exists>b. y = Inr b"
      using run by (auto simp: record_local_excluded_def map_result_def split: sum.splits)
    have "map_of (jindex j) dg = Some LocalExcluded" if "y = Inr True"
      using journal_record_index(1) [OF rec] that by (simp add: map_of_AList_update)
    moreover have "map_of (jindex j) dg = Some LocalExcluded \<and> j = wjournal w \<and> e = d" if "y = Inr False"
    proof -
      have "record_decision (map_of (jindex (wjournal w)) dg) LocalExcluded = AlreadyRecorded"
        using journal_record_index(3) [OF rec that] .
      moreover from this rec have "j = wjournal w \<and> e = d" by (auto simp: journal_record_def split: if_splits)
      ultimately show ?thesis
        by (cases "map_of (jindex (wjournal w)) dg"; (cases "the (map_of (jindex (wjournal w)) dg)")?) auto
    qed
    ultimately show ?thesis using w1 w' rec True by (metis (full_types))
  qed
  then show "worker_idle w'" and "r = Inr x \<Longrightarrow> whealthy w \<and> map_of (jindex (wjournal w')) dg = Some LocalExcluded
    \<and> journal_record sha (wjournal w) dg LocalExcluded d = (Inr True, wjournal w', d')
      \<or> whealthy w \<and> map_of (jindex (wjournal w')) dg = Some LocalExcluded \<and> wjournal w' = wjournal w \<and> d' = d"
    by auto
qed

lemma record_local_exclusion_frame:
  assumes "record_local_exclusion env coll doc_id nd = (r, nd')"
  shows "n_store nd' = n_store nd" and "n_cipher nd' = n_cipher nd" and "n_changes nd' = n_changes nd"
  using assms
  by (auto simp: record_local_exclusion_def split: option.splits if_splits prod.splits)

lemma record_local_exclusion_mapped:
  assumes "mapped coll nd" and "record_local_exclusion env coll doc_id nd = (Inr x, nd')"
  shows "locally_excluded env coll doc_id nd'"
proof -
  obtain l where l: "n_ledger nd = Some l" "coll \<in> il_collections l"
    and idle: "\<And>w. il_exclusion l = Some w \<Longrightarrow> worker_idle w"
    using assms(1) by (auto simp: mapped_def split: option.splits)
  obtain w r w' d' where w: "il_exclusion l = Some w"
    and call: "record_local_excluded (ne_sha env) (document_digest (ne_sha env) coll doc_id) w (n_disk nd) = (r, w', d')"
    and nd': "r = Inr x" "nd' = nd\<lparr>n_ledger := Some (l\<lparr>il_exclusion := Some w'\<rparr>), n_disk := d'\<rparr>"
    using assms(2) l by (auto simp: record_local_exclusion_def split: option.splits prod.splits)
  then show ?thesis
    using local_excluded_call(2) [OF idle [OF w] call] by (auto simp: locally_excluded_def)
qed

lemma record_local_exclusion_down:
  assumes "exclusion_down nd" and "mapped coll nd"
  shows "\<exists>nd'. record_local_exclusion env coll doc_id nd = (Inl Unavailable, nd') \<and> n_store nd' = n_store nd"
proof -
  obtain l where l: "n_ledger nd = Some l" "coll \<in> il_collections l" "\<not> worker_up (il_exclusion l)"
    using assms by (auto simp: mapped_def exclusion_down_def)
  then show ?thesis
    by (auto simp: record_local_exclusion_def worker_up_def record_local_excluded_def worker_record_unhealthy
        map_result_def split: option.splits)
qed

lemma write_locked_ledger:
  "write_locked env key nonce js parsed mode nd = (r, nd') \<Longrightarrow> n_ledger nd' = n_ledger nd"
  by (auto simp: write_locked_def Let_def split: option.splits if_splits sum.splits prod.splits)

section \<open>Properties\<close>

lemma sample_exclusion:
  "\<exists>w d j d'. worker_idle w \<and> whealthy w
     \<and> journal_record sample_sha (wjournal w) dg LocalExcluded d = (Inr True, j, d')"
proof -
  obtain d where open1: "journal_open sample_sha Exclusion (empty_disk []) = (Inr (opened Exclusion 0 [] []), d)"
    and jl: "journal_log sample_sha (opened Exclusion 0 [] []) d []" and plan: "plan d = []"
    using open_fresh [of "empty_disk []" sample_sha Exclusion] by (auto simp: empty_disk_def)
  let ?j = "opened Exclusion 0 [] []"
  have "journal_record sample_sha ?j dg LocalExcluded d = append_record sample_sha ?j dg LocalExcluded d"
    by (rule record_is_append(2) [OF jl]) (simp_all add: opened_def MAX_UNIQUE_ENTRIES_def)
  moreover have "\<exists>j d'. append_record sample_sha ?j dg LocalExcluded d = (Inr True, j, d')"
    using jl append_quiet [OF plan, of ?j "log_bytes sample_sha Exclusion []" sample_sha dg LocalExcluded]
    by (auto simp: journal_log_def opened_def)
  ultimately show ?thesis
    by (intro exI [of _ "\<lparr>wjournal = ?j, wqueue = [], whealthy = True, wstopped = False, wrunning = True,
        wreplies = [], wtickets = 0, wchecked = 0\<rparr>"] exI [of _ d]) (simp add: worker_idle_def)
qed

text \<open>
  C3: Write-ahead of the exclusion record.  Whenever a write or delete of a mapped collection reports
  success, or has touched the store at all, the document's digest is in the exclusion journal.
\<close>

theorem mapped_mutation_excluded:
  assumes "mapped coll nd"
    and "(r, nd') = write_document env nonce coll doc_id js mode nd \<or> (r, nd') = delete_document env coll doc_id nd"
    and "r = Inr () \<or> n_store nd' \<noteq> n_store nd"
  shows "locally_excluded env coll doc_id nd'"
proof -
  obtain x nd1 where ex: "record_local_exclusion env coll doc_id nd = (x, nd1)" by fastforce
  note frame = record_local_exclusion_frame [OF ex]
  have ok: "x = Inr ()"
    using assms(2,3) ex frame
    by (cases x) (auto simp: write_document_def delete_document_def split: option.splits)
  then have "locally_excluded env coll doc_id nd1"
    using record_local_exclusion_mapped [OF assms(1)] ex by blast
  moreover have "n_ledger nd' = n_ledger nd1"
    using assms(2,3) ex ok
    by (auto simp: write_document_def delete_document_def split: option.splits prod.splits if_splits
        dest: write_locked_ledger [OF sym] sym)
  ultimately show ?thesis by (simp add: locally_excluded_def)
qed

theorem mapped_mutation_excluded_witness:
  "\<exists>w d nd'. write_document sample_node_env [] ''frames'' ''a'' ''x'' Upsert (sample_mapped_node (Some w) d) = (Inr (), nd')
    \<and> locally_excluded sample_node_env ''frames'' ''a'' nd'"
proof -
  obtain w d j d' where w: "worker_idle w" "whealthy w"
    "journal_record sample_sha (wjournal w) (document_digest sample_sha ''frames'' ''a'') LocalExcluded d = (Inr True, j, d')"
    using sample_exclusion by blast
  let ?nd = "sample_mapped_node (Some w) d"
  have m: "mapped ''frames'' ?nd" using w(1) by (simp add: mapped_def sample_mapped_node_def)
  obtain w' where "worker_record sample_sha (document_digest sample_sha ''frames'' ''a'') LocalExcluded w d = (Inr True, w', d')"
    using worker_record_idle [OF w(2,1,3)] by blast
  then obtain nd' where run: "write_document sample_node_env [] ''frames'' ''a'' ''x'' Upsert ?nd = (Inr (), nd')"
    by (simp add: write_document_def record_local_exclusion_def sample_mapped_node_def sample_node_env_def
        record_local_excluded_def map_result_def write_locked_def stored_json_def sample_node_def)
  from mapped_mutation_excluded [OF m disjI1 [OF run [symmetric]]] run show ?thesis by blast
qed

text \<open>
  Fail closed.  While the exclusion journal is missing or unhealthy every write and delete of a
  mapped collection is refused and the store is left alone.
\<close>

lemma exclusion_outage_blocks:
  assumes "mapped coll nd" and "exclusion_down nd"
    and "(r, nd') = write_document env nonce coll doc_id js mode nd \<or> (r, nd') = delete_document env coll doc_id nd"
  shows "isl r \<and> n_store nd' = n_store nd"
proof -
  obtain nd1 where "record_local_exclusion env coll doc_id nd = (Inl Unavailable, nd1)" "n_store nd1 = n_store nd"
    using record_local_exclusion_down [OF assms(2,1)] by blast
  then show ?thesis
    using assms(3) by (auto simp: write_document_def delete_document_def split: option.splits)
qed

lemma exclusion_outage_blocks_witness:
  "\<exists>r nd'. delete_document sample_node_env ''frames'' ''a'' (sample_mapped_node None (empty_disk [])) = (r, nd')
    \<and> isl r \<and> n_store nd' = []"
proof -
  let ?nd = "sample_mapped_node None (empty_disk [])"
  obtain r nd' where run: "delete_document sample_node_env ''frames'' ''a'' ?nd = (r, nd')" by fastforce
  have "mapped ''frames'' ?nd" "exclusion_down ?nd" "n_store ?nd = []"
    by (simp_all add: mapped_def exclusion_down_def sample_mapped_node_def worker_up_def sample_node_def)
  with exclusion_outage_blocks [OF _ _ disjI2 [OF run [symmetric]]] run show ?thesis by auto
qed

text \<open>
  Creating never overwrites.  When the document exists, or the store cannot tell, the create is
  refused and the store is left alone.
\<close>

lemma create_never_overwrites:
  assumes "ne_get env (doc_key coll doc_id) (n_store nd) \<noteq> Some None"
    and "create_bridge_document env nonce coll doc_id js nd = (r, nd')"
  shows "isl r \<and> n_store nd' = n_store nd"
proof -
  obtain x nd1 where ex: "record_local_exclusion env coll doc_id nd = (x, nd1)" by fastforce
  note frame = record_local_exclusion_frame [OF ex]
  show ?thesis
    using assms ex frame
    by (cases x) (auto simp: create_bridge_document_def write_document_def write_locked_def
        split: option.splits)
qed

lemma create_never_overwrites_witness:
  "\<exists>r nd'. create_bridge_document sample_node_env [] ''c'' ''a'' ''x'' (sample_node\<lparr>n_store := [(''c:a'', JNull)]\<rparr>) = (r, nd')
    \<and> isl r \<and> n_store nd' = [(''c:a'', JNull)]"
proof -
  let ?nd = "sample_node\<lparr>n_store := [(''c:a'', JNull)]\<rparr>"
  obtain r nd' where run: "create_bridge_document sample_node_env [] ''c'' ''a'' ''x'' ?nd = (r, nd')" by fastforce
  from create_never_overwrites [OF _ run] run show ?thesis
    by (auto simp: sample_node_env_def doc_key_def)
qed

lemma write_Inr:
  assumes "write_document env nonce coll doc_id js mode nd = (Inr x, nd')"
  obtains parsed v base doc s where "from_str (ne_serde env) js = Some parsed"
    and "stored_json env (n_cipher nd) nonce js parsed = Inr v" and "ne_to_automerge env v base = Some doc"
    and "ne_put env (doc_key coll doc_id) doc s = (True, n_store nd')" and "n_cipher nd' = n_cipher nd"
proof -
  obtain y nd1 where ex: "record_local_exclusion env coll doc_id nd = (y, nd1)" by fastforce
  note frame = record_local_exclusion_frame [OF ex]
  obtain parsed where p: "from_str (ne_serde env) js = Some parsed"
    using assms by (auto simp: write_document_def split: option.splits)
  have w: "write_locked env (doc_key coll doc_id) nonce js parsed mode nd1 = (Inr x, nd')"
    using assms ex p by (cases y) (auto simp: write_document_def)
  then obtain e v doc where e: "ne_get env (doc_key coll doc_id) (n_store nd1) = Some e"
    and v: "stored_json env (n_cipher nd1) nonce js parsed = Inr v"
    and doc: "ne_to_automerge env v (case mode of Upsert \<Rightarrow> e | CreateOnly \<Rightarrow> None) = Some doc"
    and put: "ne_put env (doc_key coll doc_id) doc (n_store nd1) = (True, n_store nd')"
    and "n_cipher nd' = n_cipher nd1"
    by (auto simp: write_locked_def Let_def split: option.splits if_splits sum.splits prod.splits)
  then show ?thesis using that p frame by simp
qed

text \<open>
  C33: Encrypted documents round-trip.  With a cipher configured, reading a document just written returns
  the very text that was written, given that the store returns what was put, the conversion
  keeps the one-field wrapper, and the cipher inverts itself.
\<close>

theorem encrypted_write_read:
  assumes put: "\<And>k d s s'. ne_put env k d s = (True, s') \<Longrightarrow> ne_get env k s' = Some (Some d)"
    and conv: "\<And>c base d. ne_to_automerge env (ciphertext_json c) base = Some d \<Longrightarrow> ne_of_automerge env d = ciphertext_json c"
    and b64: "\<And>b. b64_decode (ne_crypto env) (b64_encode (ne_crypto env) b) = Some b"
    and aes: "\<And>k n x y. aes_encrypt (ne_crypto env) k n x = Some y \<Longrightarrow> aes_decrypt (ne_crypto env) k n y = Some x"
    and "n_cipher nd = Some c" and "length nonce = NONCE_LEN" and "utf8_valid (as_bytes js)"
    and "write_document env nonce coll doc_id js mode nd = (Inr (), nd')"
  shows "get_document env coll doc_id nd' = Inr (Some js)"
proof -
  obtain parsed v base doc s where w: "stored_json env (n_cipher nd) nonce js parsed = Inr v"
    "ne_to_automerge env v base = Some doc" "ne_put env (doc_key coll doc_id) doc s = (True, n_store nd')"
    "n_cipher nd' = n_cipher nd"
    using write_Inr [OF assms(8)] by metis
  then obtain x where x: "cipher_encrypt (ne_crypto env) c nonce js = Inr x" "v = ciphertext_json x"
    using assms(5) by (auto simp: stored_json_def split: sum.splits)
  have "ne_of_automerge env doc = ciphertext_json x" using conv w(2) x(2) by blast
  moreover have "is_encrypted x" by (rule is_encrypted_encrypt [OF x(1)])
  moreover have "cipher_decrypt (ne_crypto env) c x = Inr js"
    by (rule decrypt_encrypt [OF x(1) assms(6,7) b64 aes])
  ultimately show ?thesis
    using put [OF w(3)] w(4) assms(5)
    by (simp add: get_document_def encrypted_value_def ciphertext_json_def maybe_decrypt_def)
qed

theorem encrypted_write_read_witness:
  "\<exists>nd'. write_document sample_node_env (replicate 12 1) ''c'' ''a'' ''x''  Upsert
      (sample_node\<lparr>n_cipher := Some (StoreCipher [])\<rparr>) = (Inr (), nd')
    \<and> get_document sample_node_env ''c'' ''a'' nd' = Inr (Some ''x'')"
proof -
  let ?nd = "sample_node\<lparr>n_cipher := Some (StoreCipher [])\<rparr>"
  obtain nd' where run: "write_document sample_node_env (replicate 12 1) ''c'' ''a'' ''x''  Upsert ?nd = (Inr (), nd')"
    by (simp add: write_document_def record_local_exclusion_def sample_node_def sample_node_env_def
        write_locked_def stored_json_def cipher_encrypt_def sample_crypto_def)
  have "utf8_valid (as_bytes ''x'')" by code_simp
  then have "get_document sample_node_env ''c'' ''a'' nd' = Inr (Some ''x'')"
    by (intro encrypted_write_read [OF _ _ _ _ _ _ _ run])
      (auto simp: sample_node_env_def sample_crypto_def NONCE_LEN_def map_of_AList_update)
  with run show ?thesis by blast
qed

text \<open>
  A plain document that looks encrypted is not returned as written.  Without a cipher, a document
  with a string field \<open>value\<close> that starts with the encryption prefix is read back as that bare
  string: not JSON, and without the document's other fields.
\<close>

lemma plain_prefix_not_returned:
  assumes "\<And>k d s s'. ne_put env k d s = (True, s') \<Longrightarrow> ne_get env k s' = Some (Some d)"
    and "\<And>base d. ne_to_automerge env (JObject kvs) base = Some d \<Longrightarrow> ne_of_automerge env d = JObject kvs"
    and "from_str (ne_serde env) js = Some (JObject kvs)"
    and "map_of kvs ''value'' = Some (JString (ENC_PREFIX @ x))" and "n_cipher nd = None"
    and "write_document env nonce coll doc_id js mode nd = (Inr (), nd')"
  shows "get_document env coll doc_id nd' = Inr (Some (ENC_PREFIX @ x))"
proof -
  obtain v base doc s where w: "stored_json env (n_cipher nd) nonce js (JObject kvs) = Inr v"
    "ne_to_automerge env v base = Some doc" "ne_put env (doc_key coll doc_id) doc s = (True, n_store nd')"
    "n_cipher nd' = n_cipher nd"
    using write_Inr [OF assms(6)] assms(3) by (metis option.inject)
  then have "v = JObject kvs" using assms(5) by (simp add: stored_json_def)
  then have "ne_of_automerge env doc = JObject kvs" using w(2) assms(2) by blast
  then show ?thesis
    using assms(1) [OF w(3)] w(4) assms(4,5)
    by (simp add: get_document_def encrypted_value_def maybe_decrypt_def is_encrypted_def starts_with_def)
qed

lemma plain_prefix_not_returned_witness:
  "\<exists>nd'. write_document sample_node_env [] ''c'' ''a'' (ENC_PREFIX @ ''z'') Upsert sample_node = (Inr (), nd')
    \<and> get_document sample_node_env ''c'' ''a'' nd' = Inr (Some (ENC_PREFIX @ ''z''))"
proof -
  obtain nd' where run: "write_document sample_node_env [] ''c'' ''a'' (ENC_PREFIX @ ''z'') Upsert sample_node = (Inr (), nd')"
    by (simp add: write_document_def record_local_exclusion_def sample_node_def sample_node_env_def
        write_locked_def stored_json_def)
  have "get_document sample_node_env ''c'' ''a'' nd' = Inr (Some (ENC_PREFIX @ ''z''))"
    by (rule plain_prefix_not_returned [OF _ _ _ _ _ run, where kvs = "[(''value'', JString (ENC_PREFIX @ ''z''))]"])
      (auto simp: sample_node_env_def sample_node_def map_of_AList_update)
  with run show ?thesis by blast
qed

text \<open>
  C38: A colon in the collection name evades local exclusion.  Writing document \<open>y\<close> of collection
  \<open>c:x\<close> stores under the key of document \<open>x:y\<close> of the mapped collection \<open>c\<close>, but no exclusion
  record is made, because mapped collections contain no colon.
\<close>

theorem colon_collection_evades:
  assumes "n_ledger nd = Some l" and "\<And>m. m \<in> il_collections l \<Longrightarrow> valid_collection m"
    and "write_document env nonce (c @ '':'' @ x) y js mode nd = (r, nd')"
  shows "doc_key (c @ '':'' @ x) y = doc_key c (x @ '':'' @ y) \<and> n_ledger nd' = n_ledger nd \<and> n_disk nd' = n_disk nd"
proof -
  have "\<not> valid_collection (c @ '':'' @ x)"
    by (cases c) (auto simp: valid_collection_def is_ascii_alphanumeric_def)
  then have "record_local_exclusion env (c @ '':'' @ x) y nd = (Inr (), nd)"
    using assms(1,2) by (auto simp: record_local_exclusion_def)
  then show ?thesis
    using assms(3)
    by (auto simp: doc_key_def write_document_def write_locked_def Let_def
        split: option.splits if_splits sum.splits prod.splits)
qed

theorem colon_collection_evades_witness:
  "\<exists>nd'. write_document sample_node_env [] ''frames:x'' ''y'' ''v'' Upsert (sample_mapped_node None (empty_disk [])) = (Inr (), nd')
    \<and> map_of (n_store nd') (doc_key ''frames'' ''x:y'') \<noteq> None
    \<and> \<not> locally_excluded sample_node_env ''frames'' ''x:y'' nd'"
proof -
  let ?nd = "sample_mapped_node None (empty_disk [])"
  obtain nd' where run: "write_document sample_node_env [] (''frames'' @ '':'' @ ''x'') ''y'' ''v'' Upsert ?nd = (Inr (), nd')"
    and stored: "map_of (n_store nd') (doc_key (''frames'' @ '':'' @ ''x'') ''y'') \<noteq> None"
    by (simp add: write_document_def record_local_exclusion_def sample_mapped_node_def sample_node_env_def
        write_locked_def stored_json_def sample_node_def map_of_AList_update doc_key_def)
  have "valid_collection ''frames''" by code_simp
  then have "doc_key (''frames'' @ '':'' @ ''x'') ''y'' = doc_key ''frames'' (''x'' @ '':'' @ ''y'') \<and> n_ledger nd' = n_ledger ?nd
      \<and> n_disk nd' = n_disk ?nd"
    by (intro colon_collection_evades [OF _ _ run]) (auto simp: sample_mapped_node_def)
  with run stored show ?thesis
    by (auto simp: locally_excluded_def sample_mapped_node_def)
qed

end
