(* ===== verification/Query_Matcher.thy ===== *)
theory Query_Matcher
  imports Json
begin

text \<open>
  Subscription filters (\<open>src/src/query.rs\<close>): building a matcher from the wire query with its
  nesting limit, evaluating it on a document, and the per-event decision.  The wire message
  is generated from the protocol file; equality and ordering of numbers are the JSON
  library's, passed as \<open>num_ops\<close>.
\<close>

section \<open>Wire queries\<close>

datatype query_node = QueryNode "query_q option"
  and query_q =
    QAll
  | QEq string string
  | QLt string string
  | QGt string string
  | QAnd "query_node list"
  | QOr "query_node list"
  | QNot query_node

section \<open>Matchers\<close>

datatype 'n matcher =
    MAll
  | MEq string "'n json"
  | MLt string "'n json"
  | MGt string "'n json"
  | MAnd "'n matcher list"
  | MOr "'n matcher list"
  | MNot "'n matcher"

datatype query_error = EmptyNode | InvalidJsonValue string | EmptyField | TooDeep nat

definition MAX_DEPTH :: nat where
  "MAX_DEPTH = 16"

datatype ordering = Less | Equal | Greater

record 'n num_ops =
  num_eq :: "'n \<Rightarrow> 'n \<Rightarrow> bool"
  num_cmp :: "'n \<Rightarrow> 'n \<Rightarrow> ordering option"

definition validate_field :: "string \<Rightarrow> query_error + string" where
  "validate_field f = (if f = [] then Inl EmptyField else Inr f)"

definition parse_value :: "'n serde \<Rightarrow> string \<Rightarrow> query_error + 'n json" where
  "parse_value sd raw = (case from_str sd raw of None \<Rightarrow> Inl (InvalidJsonValue raw) | Some v \<Rightarrow> Inr v)"

text \<open>The field is validated before the value is parsed.\<close>

definition build_cmp ::
  "'n serde \<Rightarrow> (string \<Rightarrow> 'n json \<Rightarrow> 'n matcher) \<Rightarrow> string \<Rightarrow> string \<Rightarrow> query_error + 'n matcher" where
  "build_cmp sd mk f raw =
     (case validate_field f of
        Inl e \<Rightarrow> Inl e
      | Inr f' \<Rightarrow> (case parse_value sd raw of Inl e \<Rightarrow> Inl e | Inr v \<Rightarrow> Inr (mk f' v)))"

fun build :: "'n serde \<Rightarrow> query_node \<Rightarrow> nat \<Rightarrow> query_error + 'n matcher"
  and build_all :: "'n serde \<Rightarrow> query_node list \<Rightarrow> nat \<Rightarrow> query_error + 'n matcher list" where
  "build sd (QueryNode q) depth =
     (if depth = 0 then Inl (TooDeep MAX_DEPTH)
      else case q of
        None \<Rightarrow> Inl EmptyNode
      | Some QAll \<Rightarrow> Inr MAll
      | Some (QEq f v) \<Rightarrow> build_cmp sd MEq f v
      | Some (QLt f v) \<Rightarrow> build_cmp sd MLt f v
      | Some (QGt f v) \<Rightarrow> build_cmp sd MGt f v
      | Some (QAnd cs) \<Rightarrow> (case build_all sd cs (depth - 1) of Inl e \<Rightarrow> Inl e | Inr ms \<Rightarrow> Inr (MAnd ms))
      | Some (QOr cs) \<Rightarrow> (case build_all sd cs (depth - 1) of Inl e \<Rightarrow> Inl e | Inr ms \<Rightarrow> Inr (MOr ms))
      | Some (QNot c) \<Rightarrow> (case build sd c (depth - 1) of Inl e \<Rightarrow> Inl e | Inr m \<Rightarrow> Inr (MNot m)))"
| "build_all sd [] depth = Inr []"
| "build_all sd (c # cs) depth =
     (case build sd c depth of
        Inl e \<Rightarrow> Inl e
      | Inr m \<Rightarrow> (case build_all sd cs depth of Inl e \<Rightarrow> Inl e | Inr ms \<Rightarrow> Inr (m # ms)))"

definition from_proto :: "'n serde \<Rightarrow> query_node \<Rightarrow> query_error + 'n matcher" where
  "from_proto sd q = build sd q MAX_DEPTH"

section \<open>Evaluation\<close>

text \<open>Objects are sorted by key, so they are compared entry by entry.\<close>

fun json_eq :: "'n num_ops \<Rightarrow> 'n json \<Rightarrow> 'n json \<Rightarrow> bool"
  and json_eq_all :: "'n num_ops \<Rightarrow> 'n json list \<Rightarrow> 'n json list \<Rightarrow> bool"
  and json_eq_obj :: "'n num_ops \<Rightarrow> (string \<times> 'n json) list \<Rightarrow> (string \<times> 'n json) list \<Rightarrow> bool" where
  "json_eq ops JNull JNull = True"
| "json_eq ops (JBool a) (JBool b) = (a = b)"
| "json_eq ops (JNumber a) (JNumber b) = num_eq ops a b"
| "json_eq ops (JString a) (JString b) = (a = b)"
| "json_eq ops (JArray a) (JArray b) = json_eq_all ops a b"
| "json_eq ops (JObject a) (JObject b) = json_eq_obj ops a b"
| "json_eq ops _ _ = False"
| "json_eq_all ops [] [] = True"
| "json_eq_all ops (x # xs) (y # ys) = (json_eq ops x y \<and> json_eq_all ops xs ys)"
| "json_eq_all ops _ _ = False"
| "json_eq_obj ops [] [] = True"
| "json_eq_obj ops ((k, x) # xs) ((l, y) # ys) = (k = l \<and> json_eq ops x y \<and> json_eq_obj ops xs ys)"
| "json_eq_obj ops _ _ = False"

fun json_compare :: "'n num_ops \<Rightarrow> 'n json \<Rightarrow> 'n json \<Rightarrow> ordering option" where
  "json_compare ops (JString x) (JString y) = Some (if x < y then Less else if x = y then Equal else Greater)"
| "json_compare ops (JNumber x) (JNumber y) = num_cmp ops x y"
| "json_compare ops _ _ = None"

fun eval :: "'n num_ops \<Rightarrow> 'n matcher \<Rightarrow> 'n json \<Rightarrow> bool" where
  "eval ops MAll doc = True"
| "eval ops (MEq f v) doc = (case json_get f doc of None \<Rightarrow> False | Some w \<Rightarrow> json_eq ops w v)"
| "eval ops (MLt f v) doc = (Option.bind (json_get f doc) (\<lambda>w. json_compare ops w v) = Some Less)"
| "eval ops (MGt f v) doc = (Option.bind (json_get f doc) (\<lambda>w. json_compare ops w v) = Some Greater)"
| "eval ops (MAnd ms) doc = (\<forall>m\<in>set ms. eval ops m doc)"
| "eval ops (MOr ms) doc = (\<exists>m\<in>set ms. eval ops m doc)"
| "eval ops (MNot m) doc = (\<not> eval ops m doc)"

definition matches_upsert :: "'n serde \<Rightarrow> 'n num_ops \<Rightarrow> 'n matcher \<Rightarrow> string \<Rightarrow> bool" where
  "matches_upsert sd ops m json_data =
     (case from_str sd json_data of None \<Rightarrow> False | Some doc \<Rightarrow> eval ops m doc)"

definition event_passes ::
  "'n serde \<Rightarrow> 'n num_ops \<Rightarrow> string list \<Rightarrow> 'n matcher option \<Rightarrow> string \<Rightarrow> string option \<Rightarrow> bool" where
  "event_passes sd ops collections m coll json_data =
     (if collections \<noteq> [] \<and> coll \<notin> set collections then False
      else case (m, json_data) of
        (None, _) \<Rightarrow> True
      | (Some _, None) \<Rightarrow> True
      | (Some m', Some data) \<Rightarrow> matches_upsert sd ops m' data)"

section \<open>What a query means\<close>

text \<open>A reference semantics on the wire query itself, with no limit and no matcher.\<close>

fun query_height :: "query_node \<Rightarrow> nat"
  and query_height_all :: "query_node list \<Rightarrow> nat" where
  "query_height (QueryNode q) =
     Suc (case q of
        Some (QAnd cs) \<Rightarrow> query_height_all cs
      | Some (QOr cs) \<Rightarrow> query_height_all cs
      | Some (QNot c) \<Rightarrow> query_height c
      | _ \<Rightarrow> 0)"
| "query_height_all [] = 0"
| "query_height_all (c # cs) = max (query_height c) (query_height_all cs)"

definition cmp_wf :: "'n serde \<Rightarrow> string \<Rightarrow> string \<Rightarrow> bool" where
  "cmp_wf sd f raw \<longleftrightarrow> f \<noteq> [] \<and> from_str sd raw \<noteq> None"

fun query_wf :: "'n serde \<Rightarrow> query_node \<Rightarrow> bool"
  and query_wf_all :: "'n serde \<Rightarrow> query_node list \<Rightarrow> bool" where
  "query_wf sd (QueryNode q) =
     (case q of
        None \<Rightarrow> False
      | Some QAll \<Rightarrow> True
      | Some (QEq f v) \<Rightarrow> cmp_wf sd f v
      | Some (QLt f v) \<Rightarrow> cmp_wf sd f v
      | Some (QGt f v) \<Rightarrow> cmp_wf sd f v
      | Some (QAnd cs) \<Rightarrow> query_wf_all sd cs
      | Some (QOr cs) \<Rightarrow> query_wf_all sd cs
      | Some (QNot c) \<Rightarrow> query_wf sd c)"
| "query_wf_all sd [] = True"
| "query_wf_all sd (c # cs) = (query_wf sd c \<and> query_wf_all sd cs)"

text \<open>Does the field's value stand in the given order to the query's value?\<close>

definition field_ordered ::
  "'n serde \<Rightarrow> 'n num_ops \<Rightarrow> ordering \<Rightarrow> string \<Rightarrow> string \<Rightarrow> 'n json \<Rightarrow> bool" where
  "field_ordered sd ops r f raw doc \<longleftrightarrow>
     (\<exists>w v. json_get f doc = Some w \<and> from_str sd raw = Some v \<and> json_compare ops w v = Some r)"

fun query_sem :: "'n serde \<Rightarrow> 'n num_ops \<Rightarrow> query_node \<Rightarrow> 'n json \<Rightarrow> bool"
  and query_sem_all :: "'n serde \<Rightarrow> 'n num_ops \<Rightarrow> query_node list \<Rightarrow> 'n json \<Rightarrow> bool"
  and query_sem_any :: "'n serde \<Rightarrow> 'n num_ops \<Rightarrow> query_node list \<Rightarrow> 'n json \<Rightarrow> bool" where
  "query_sem sd ops (QueryNode q) doc =
     (case q of
        None \<Rightarrow> False
      | Some QAll \<Rightarrow> True
      | Some (QEq f raw) \<Rightarrow> (\<exists>w v. json_get f doc = Some w \<and> from_str sd raw = Some v \<and> json_eq ops w v)
      | Some (QLt f raw) \<Rightarrow> field_ordered sd ops Less f raw doc
      | Some (QGt f raw) \<Rightarrow> field_ordered sd ops Greater f raw doc
      | Some (QAnd cs) \<Rightarrow> query_sem_all sd ops cs doc
      | Some (QOr cs) \<Rightarrow> query_sem_any sd ops cs doc
      | Some (QNot c) \<Rightarrow> \<not> query_sem sd ops c doc)"
| "query_sem_all sd ops [] doc = True"
| "query_sem_all sd ops (c # cs) doc = (query_sem sd ops c doc \<and> query_sem_all sd ops cs doc)"
| "query_sem_any sd ops [] doc = False"
| "query_sem_any sd ops (c # cs) doc = (query_sem sd ops c doc \<or> query_sem_any sd ops cs doc)"

lemma build_cmp_Inr:
  "build_cmp sd mk f raw = Inr m \<longleftrightarrow> f \<noteq> [] \<and> (\<exists>v. from_str sd raw = Some v \<and> m = mk f v)"
  by (auto simp: build_cmp_def validate_field_def parse_value_def split: option.splits)

lemma build_cmp_isl: "isl (build_cmp sd mk f raw) \<longleftrightarrow> \<not> cmp_wf sd f raw"
  by (auto simp: build_cmp_def validate_field_def parse_value_def cmp_wf_def split: option.splits)

lemma build_isl:
  "isl (build sd q depth) \<longleftrightarrow> \<not> (query_height q \<le> depth \<and> query_wf sd q)"
  "isl (build_all sd qs depth) \<longleftrightarrow> \<not> (query_height_all qs \<le> depth \<and> query_wf_all sd qs)"
  by (induction sd q depth and sd qs depth rule: build_build_all.induct)
    (auto simp: build_cmp_isl split: option.splits query_q.splits sum.splits)

lemma build_eval:
  "build sd q depth = Inr m \<Longrightarrow> eval ops m doc = query_sem sd ops q doc"
  "build_all sd qs depth = Inr ms \<Longrightarrow>
     (\<forall>m\<in>set ms. eval ops m doc) = query_sem_all sd ops qs doc
     \<and> (\<exists>m\<in>set ms. eval ops m doc) = query_sem_any sd ops qs doc"
proof (induction sd q depth and sd qs depth arbitrary: m and ms rule: build_build_all.induct)
  case (1 sd q depth)
  then show ?case
    by (auto simp: build_cmp_Inr field_ordered_def bind_eq_Some_conv
        split: if_splits option.splits query_q.splits sum.splits)
qed (auto split: sum.splits)

text \<open>
  C35: Subscription queries.  \<open>from_proto\<close> accepts exactly the well-formed queries of at most 16 levels,
  and the matcher it builds decides every document as the wire query's own meaning does.
\<close>

theorem query_built_exactly:
  "case from_proto sd q of
     Inl e \<Rightarrow> \<not> (query_height q \<le> 16 \<and> query_wf sd q)
   | Inr m \<Rightarrow> query_height q \<le> 16 \<and> query_wf sd q \<and> (\<forall>doc. eval ops m doc = query_sem sd ops q doc)"
proof (cases "from_proto sd q")
  case (Inl e)
  then show ?thesis using build_isl(1) [of sd q MAX_DEPTH] by (simp add: from_proto_def MAX_DEPTH_def)
next
  case (Inr m)
  then show ?thesis
    using build_isl(1) [of sd q MAX_DEPTH] build_eval(1) [of sd q MAX_DEPTH m ops]
    by (simp add: from_proto_def MAX_DEPTH_def)
qed

end
