(* ===== verification/Attachment_Config.thy ===== *)
theory Attachment_Config
  imports Peat_Prelude
begin

text \<open>
  Unix paths as \<open>std::path\<close> reads them, and the attachment configuration
  (\<open>src/src/attachments/config.rs\<close>).  A path is its string; what the operating system answers about
  paths is the parameter \<^emph>\<open>file system view\<close>.
\<close>

section \<open>Paths\<close>

datatype path_component = RootDir | CurDir | ParentDir | NormalDir string

fun split_slash :: "string \<Rightarrow> string list" where
  "split_slash [] = [[]]"
| "split_slash (c # s) =
     (if c = CHR ''/'' then [] # split_slash s
      else case split_slash s of [] \<Rightarrow> [[c]] | p # ps \<Rightarrow> (c # p) # ps)"

definition body_component :: "string \<Rightarrow> path_component option" where
  "body_component p =
     (if p = [] \<or> p = ''.'' then None else if p = ''..'' then Some ParentDir else Some (NormalDir p))"

text \<open>\<open>Path::components\<close>: empty parts and \<open>.\<close> vanish, except a \<open>.\<close> in front of a relative path.\<close>

definition components :: "string \<Rightarrow> path_component list" where
  "components s =
     (if starts_with s ''/'' then [RootDir] else if hd (split_slash s) = ''.'' then [CurDir] else [])
     @ List.map_filter body_component (split_slash s)"

definition path_join :: "string \<Rightarrow> string \<Rightarrow> string" where
  "path_join a b =
     (if starts_with b ''/'' then b
      else if a = [] \<or> last a = CHR ''/'' then a @ b else a @ ''/'' @ b)"

definition path_starts_with :: "string \<Rightarrow> string \<Rightarrow> bool" where
  "path_starts_with p base \<longleftrightarrow> prefix (components base) (components p)"

lemma split_slash_not_Nil [simp]: "split_slash s \<noteq> []"
  by (induction s) (auto split: list.split)

lemma split_slash_no_slash: "p \<in> set (split_slash s) \<Longrightarrow> CHR ''/'' \<notin> set p"
  by (induction s arbitrary: p) (auto split: list.splits if_splits)

lemma split_slash_append:
  "split_slash (a @ CHR ''/'' # b) = split_slash a @ split_slash b"
  by (induction a) (auto split: list.split)

section \<open>The file system as the process sees it\<close>

record fs_view =
  fs_canonicalize :: "string \<Rightarrow> string option"
  fs_is_dir :: "string \<Rightarrow> bool"
  fs_exists :: "string \<Rightarrow> bool"
  fs_create_dir_all :: "string \<Rightarrow> bool"
  fs_metadata :: "string \<Rightarrow> (bool \<times> u64) option"

section \<open>Configuration\<close>

datatype attachment_priority = Bulk | Low | Routine | Priority | Critical

datatype attachment_config_error =
    RootMissingSeparator string | RootInvalidName string | RootDuplicateName string
  | RootCanonicalise string string | RootNotDirectory string string
  | InboxBadPath string | InboxNotDirectory string string

record attachment_limits =
  ac_max_file_bytes :: u64
  ac_max_bundle_bytes :: u64
  ac_max_files_per_bundle :: nat
  ac_max_node_list_len :: nat
  ac_max_concurrent_distributions :: nat
  ac_queue_when_full :: bool
  ac_default_priority :: attachment_priority
  ac_discovery_grace_secs :: nat
  ac_handle_retention_secs :: nat
  ac_max_known_bundles :: nat
  ac_inbox_poll_secs :: nat
  ac_outbox_watch :: bool
  ac_outbox_poll_secs :: nat

record attachment_config = attachment_limits +
  ac_roots :: "(string \<times> string) list"
  ac_inbox_path :: "string option"

definition attachment_limits_default :: attachment_limits where
  "attachment_limits_default =
     \<lparr>ac_max_file_bytes = 256 * 1024 * 1024, ac_max_bundle_bytes = 1024 * 1024 * 1024,
      ac_max_files_per_bundle = 64, ac_max_node_list_len = 256, ac_max_concurrent_distributions = 4,
      ac_queue_when_full = False, ac_default_priority = Routine, ac_discovery_grace_secs = 30,
      ac_handle_retention_secs = 86400, ac_max_known_bundles = 4096, ac_inbox_poll_secs = 1,
      ac_outbox_watch = False, ac_outbox_poll_secs = 2\<rparr>"

definition is_valid_root_name :: "string \<Rightarrow> bool" where
  "is_valid_root_name name \<longleftrightarrow> name \<noteq> [] \<and> list_all (\<lambda>c. is_ascii_alphanumeric c \<or> c = CHR ''_'' \<or> c = CHR ''-'') name"

definition parse_root_spec :: "fs_view \<Rightarrow> string \<Rightarrow> attachment_config_error + string \<times> string" where
  "parse_root_spec fs spec =
     (case split_once (CHR ''='') spec of
        None \<Rightarrow> Inl (RootMissingSeparator spec)
      | Some (name, raw_path) \<Rightarrow>
          if \<not> is_valid_root_name name then Inl (RootInvalidName name)
          else case fs_canonicalize fs raw_path of
            None \<Rightarrow> Inl (RootCanonicalise name raw_path)
          | Some canonical \<Rightarrow>
              if \<not> fs_is_dir fs canonical then Inl (RootNotDirectory name canonical)
              else Inr (name, canonical))"

fun parse_roots ::
  "fs_view \<Rightarrow> string list \<Rightarrow> (string \<times> string) list \<Rightarrow> attachment_config_error + (string \<times> string) list" where
  "parse_roots fs [] roots = Inr roots"
| "parse_roots fs (spec # specs) roots =
     (if spec = [] then parse_roots fs specs roots
      else case parse_root_spec fs spec of
        Inl e \<Rightarrow> Inl e
      | Inr (name, path) \<Rightarrow>
          if map_of roots name \<noteq> None then Inl (RootDuplicateName name)
          else parse_roots fs specs ((name, path) # roots))"

definition canonicalise_or_create_inbox :: "fs_view \<Rightarrow> string \<Rightarrow> attachment_config_error + string" where
  "canonicalise_or_create_inbox fs raw_path =
     (if \<not> fs_exists fs raw_path \<and> \<not> fs_create_dir_all fs raw_path then Inl (InboxBadPath raw_path)
      else case fs_canonicalize fs raw_path of
        None \<Rightarrow> Inl (InboxBadPath raw_path)
      | Some canonical \<Rightarrow>
          if \<not> fs_is_dir fs canonical then Inl (InboxNotDirectory raw_path canonical) else Inr canonical)"

definition attachment_config_from_raw ::
  "fs_view \<Rightarrow> string list \<Rightarrow> string option \<Rightarrow> attachment_limits \<Rightarrow> attachment_config_error + attachment_config" where
  "attachment_config_from_raw fs raw_roots inbox limits =
     (case parse_roots fs raw_roots [] of
        Inl e \<Rightarrow> Inl e
      | Inr roots \<Rightarrow>
          (case inbox of
             None \<Rightarrow> Inr (attachment_limits.extend limits \<lparr>ac_roots = roots, ac_inbox_path = None\<rparr>)
           | Some p \<Rightarrow>
               (case canonicalise_or_create_inbox fs p of
                  Inl e \<Rightarrow> Inl e
                | Inr q \<Rightarrow> Inr (attachment_limits.extend limits \<lparr>ac_roots = roots, ac_inbox_path = Some q\<rparr>))))"

definition has_roots :: "attachment_config \<Rightarrow> bool" where
  "has_roots cfg \<longleftrightarrow> ac_roots cfg \<noteq> []"

definition lookup_root :: "attachment_config \<Rightarrow> string \<Rightarrow> string option" where
  "lookup_root cfg name = map_of (ac_roots cfg) name"

section \<open>Roots\<close>

definition root_ok :: "fs_view \<Rightarrow> string \<times> string \<Rightarrow> bool" where
  "root_ok fs r \<longleftrightarrow> is_valid_root_name (fst r) \<and> fs_is_dir fs (snd r) \<and> (\<exists>raw. fs_canonicalize fs raw = Some (snd r))"

lemma parse_root_spec_ok: "parse_root_spec fs spec = Inr r \<Longrightarrow> root_ok fs r"
  by (force simp: parse_root_spec_def root_ok_def split: option.splits prod.splits if_splits)

lemma parse_roots_ok:
  "parse_roots fs specs roots = Inr roots' \<Longrightarrow> distinct (map fst roots) \<Longrightarrow> list_all (root_ok fs) roots
    \<Longrightarrow> distinct (map fst roots') \<and> list_all (root_ok fs) roots'"
proof (induction fs specs roots rule: parse_roots.induct)
  case (2 fs spec specs roots)
  show ?case
  proof (cases "spec = []")
    case True
    then show ?thesis using 2 by simp
  next
    case False
    then obtain name path where spec: "parse_root_spec fs spec = Inr (name, path)"
      and new: "map_of roots name = None"
      using "2.prems"(1) by (auto split: sum.splits if_splits)
    then have "parse_roots fs specs ((name, path) # roots) = Inr roots'" using "2.prems"(1) False by simp
    moreover have "distinct (map fst ((name, path) # roots))" using new "2.prems"(2) by (simp add: map_of_eq_None_iff)
    moreover have "list_all (root_ok fs) ((name, path) # roots)"
      using parse_root_spec_ok [OF spec] "2.prems"(3) by simp
    ultimately show ?thesis using "2.IH"(2) [OF False spec refl] new by simp
  qed
qed simp

lemma config_roots_ok:
  assumes "attachment_config_from_raw fs raw inbox limits = Inr cfg"
  shows "distinct (map fst (ac_roots cfg)) \<and> list_all (root_ok fs) (ac_roots cfg)"
proof -
  obtain roots where "parse_roots fs raw [] = Inr roots" "ac_roots cfg = roots"
    using assms by (auto simp: attachment_config_from_raw_def attachment_limits.defs split: sum.splits option.splits)
  then show ?thesis using parse_roots_ok [of fs raw "[]" roots] by simp
qed

end
