(* ===== verification/Attachment_Validate.thy ===== *)
theory Attachment_Validate
  imports Attachment_Config
begin

text \<open>
  Validation of a send request (\<open>src/src/attachments/validate.rs\<close>), rule by rule in the code's order.
  An error is its Connect code and the rule that failed; message texts are left out.
\<close>

section \<open>Requests and results\<close>

datatype connect_code =
    InvalidArgument | ResourceExhausted | FailedPrecondition | AlreadyExists | CodeNotFound | CodeInternal
  | Unimplemented

record file_spec =
  fp_root_name :: string
  fp_relative_path :: string
  fp_size_bytes :: u64
  fp_sha256 :: bytes
  fp_content_type :: "string option"
  fp_display_name :: "string option"

datatype scope_spec = AllNodesScope | NodeListScope "string list" | FormationScope | CapableScope

text \<open>The \<open>scope\<close> field may be missing, and so may its variant.\<close>

record send_request =
  sq_files :: "file_spec list"
  sq_scope :: "scope_spec option option"
  sq_bundle_id :: "string option"
  sq_priority :: "attachment_priority option"

datatype validated_scope = AllNodes | NodeList "string list"

record validated_file =
  vf_file_index :: nat
  vf_absolute_path :: string
  vf_root_name :: string
  vf_relative_path :: string
  vf_size_bytes :: u64
  vf_sha256 :: bytes
  vf_content_type :: "string option"
  vf_display_name :: "string option"

record validated_bundle =
  vb_files :: "validated_file list"
  vb_scope :: validated_scope
  vb_bundle_id :: "string option"

datatype rule_violation =
    NoFiles | TooManyFiles | SizeOverflow | BundleTooLarge | ScopeMissing | ScopeUnset | NodeListEmpty
  | NodeListTooLong | FormationUnsupported | CapableUnsupported | ShaLength nat | UnknownRoot nat
  | PathEmpty nat | PathAbsolute nat | PathParent nat | PathRooted nat | PathUnresolved nat | PathEscapes nat
  | StatFailed nat | NotRegular nat | SizeMismatch nat | FileTooLarge nat

section \<open>Rules\<close>

fun checked_sum :: "u64 \<Rightarrow> u64 list \<Rightarrow> u64 option" where
  "checked_sum acc [] = Some acc"
| "checked_sum acc (x # xs) = (if unat acc + unat x < 2 ^ 64 then checked_sum (acc + x) xs else None)"

definition validate_scope ::
  "scope_spec option option \<Rightarrow> attachment_config \<Rightarrow> (connect_code \<times> rule_violation) + validated_scope" where
  "validate_scope scope cfg =
     (case scope of
        None \<Rightarrow> Inl (InvalidArgument, ScopeMissing)
      | Some None \<Rightarrow> Inl (InvalidArgument, ScopeUnset)
      | Some (Some AllNodesScope) \<Rightarrow> Inr AllNodes
      | Some (Some (NodeListScope ids)) \<Rightarrow>
          if ids = [] then Inl (InvalidArgument, NodeListEmpty)
          else if length ids > ac_max_node_list_len cfg then Inl (ResourceExhausted, NodeListTooLong)
          else Inr (NodeList ids)
      | Some (Some FormationScope) \<Rightarrow> Inl (FailedPrecondition, FormationUnsupported)
      | Some (Some CapableScope) \<Rightarrow> Inl (FailedPrecondition, CapableUnsupported))"

text \<open>The first component that is not allowed decides.\<close>

fun check_components :: "nat \<Rightarrow> path_component list \<Rightarrow> (connect_code \<times> rule_violation) option" where
  "check_components i [] = None"
| "check_components i (ParentDir # cs) = Some (InvalidArgument, PathParent i)"
| "check_components i (RootDir # cs) = Some (InvalidArgument, PathRooted i)"
| "check_components i (CurDir # cs) = check_components i cs"
| "check_components i (NormalDir _ # cs) = check_components i cs"

definition resolve_file ::
  "fs_view \<Rightarrow> nat \<Rightarrow> file_spec \<Rightarrow> string \<Rightarrow> attachment_config \<Rightarrow> (connect_code \<times> rule_violation) + validated_file" where
  "resolve_file fs i f root cfg =
     (case fs_canonicalize fs (path_join root (fp_relative_path f)) of
        None \<Rightarrow> Inl (InvalidArgument, PathUnresolved i)
      | Some canonical \<Rightarrow>
          if \<not> path_starts_with canonical root then Inl (InvalidArgument, PathEscapes i)
          else case fs_metadata fs canonical of
            None \<Rightarrow> Inl (InvalidArgument, StatFailed i)
          | Some (is_file, len) \<Rightarrow>
              if \<not> is_file then Inl (InvalidArgument, NotRegular i)
              else if len \<noteq> fp_size_bytes f then Inl (InvalidArgument, SizeMismatch i)
              else if fp_size_bytes f > ac_max_file_bytes cfg then Inl (ResourceExhausted, FileTooLarge i)
              else Inr \<lparr>vf_file_index = i, vf_absolute_path = canonical, vf_root_name = fp_root_name f,
                vf_relative_path = fp_relative_path f, vf_size_bytes = fp_size_bytes f, vf_sha256 = fp_sha256 f,
                vf_content_type = fp_content_type f, vf_display_name = fp_display_name f\<rparr>)"

definition validate_file ::
  "fs_view \<Rightarrow> nat \<Rightarrow> file_spec \<Rightarrow> attachment_config \<Rightarrow> (connect_code \<times> rule_violation) + validated_file" where
  "validate_file fs i f cfg =
     (if length (fp_sha256 f) \<noteq> 32 then Inl (InvalidArgument, ShaLength i)
      else case lookup_root cfg (fp_root_name f) of
        None \<Rightarrow> Inl (InvalidArgument, UnknownRoot i)
      | Some root \<Rightarrow>
          if fp_relative_path f = [] then Inl (InvalidArgument, PathEmpty i)
          else if starts_with (fp_relative_path f) ''/'' then Inl (InvalidArgument, PathAbsolute i)
          else case check_components i (components (fp_relative_path f)) of
            Some e \<Rightarrow> Inl e
          | None \<Rightarrow> resolve_file fs i f root cfg)"

fun validate_files ::
  "fs_view \<Rightarrow> nat \<Rightarrow> file_spec list \<Rightarrow> attachment_config \<Rightarrow> (connect_code \<times> rule_violation) + validated_file list" where
  "validate_files fs i [] cfg = Inr []"
| "validate_files fs i (f # fs') cfg =
     (case validate_file fs i f cfg of
        Inl e \<Rightarrow> Inl e
      | Inr v \<Rightarrow> (case validate_files fs (Suc i) fs' cfg of Inl e \<Rightarrow> Inl e | Inr vs \<Rightarrow> Inr (v # vs)))"

definition validate_request ::
  "fs_view \<Rightarrow> send_request \<Rightarrow> attachment_config \<Rightarrow> (connect_code \<times> rule_violation) + validated_bundle" where
  "validate_request fs req cfg =
     (if sq_files req = [] then Inl (InvalidArgument, NoFiles)
      else if length (sq_files req) > ac_max_files_per_bundle cfg then Inl (ResourceExhausted, TooManyFiles)
      else case checked_sum 0 (map fp_size_bytes (sq_files req)) of
        None \<Rightarrow> Inl (ResourceExhausted, SizeOverflow)
      | Some total_bytes \<Rightarrow>
          if total_bytes > ac_max_bundle_bytes cfg then Inl (ResourceExhausted, BundleTooLarge)
          else case validate_scope (sq_scope req) cfg of
            Inl e \<Rightarrow> Inl e
          | Inr scope \<Rightarrow>
              (case validate_files fs 0 (sq_files req) cfg of
                 Inl e \<Rightarrow> Inl e
               | Inr files \<Rightarrow> Inr \<lparr>vb_files = files, vb_scope = scope, vb_bundle_id = sq_bundle_id req\<rparr>))"

section \<open>Lemmas\<close>

lemma checked_sum_nat: "checked_sum acc xs = Some t \<Longrightarrow> unat t = unat acc + sum_list (map unat xs)"
proof (induction xs arbitrary: acc)
  case (Cons x xs)
  then have "unat (acc + x) = unat acc + unat x" and "checked_sum (acc + x) xs = Some t"
    by (auto simp: unat_word_ariths split: if_splits)
  with Cons.IH show ?case by simp
qed simp

lemma checked_sum_total: "unat acc + sum_list (map unat xs) < 2 ^ 64 \<Longrightarrow> \<exists>t. checked_sum acc xs = Some t"
proof (induction xs arbitrary: acc)
  case (Cons x xs)
  then have "unat acc + unat x < 2 ^ 64" by simp
  moreover from this have "unat (acc + x) = unat acc + unat x" by (simp add: unat_word_ariths)
  ultimately show ?case using Cons by simp
qed simp

lemma check_components_None:
  "check_components i cs = None \<longleftrightarrow> ParentDir \<notin> set cs \<and> RootDir \<notin> set cs"
  by (induction i cs rule: check_components.induct) auto

text \<open>What every accepted file satisfies, against its specification and position.\<close>

definition file_accepted :: "fs_view \<Rightarrow> attachment_config \<Rightarrow> nat \<Rightarrow> file_spec \<Rightarrow> validated_file \<Rightarrow> bool" where
  "file_accepted fs cfg i f v \<longleftrightarrow>
     (\<exists>root. lookup_root cfg (fp_root_name f) = Some root \<and> path_starts_with (vf_absolute_path v) root
        \<and> fs_canonicalize fs (path_join root (fp_relative_path f)) = Some (vf_absolute_path v))
     \<and> fs_metadata fs (vf_absolute_path v) = Some (True, fp_size_bytes f) \<and> fp_size_bytes f \<le> ac_max_file_bytes cfg
     \<and> length (fp_sha256 f) = 32 \<and> fp_relative_path f \<noteq> [] \<and> \<not> starts_with (fp_relative_path f) ''/''
     \<and> ParentDir \<notin> set (components (fp_relative_path f)) \<and> RootDir \<notin> set (components (fp_relative_path f))
     \<and> v = \<lparr>vf_file_index = i, vf_absolute_path = vf_absolute_path v, vf_root_name = fp_root_name f,
            vf_relative_path = fp_relative_path f, vf_size_bytes = fp_size_bytes f, vf_sha256 = fp_sha256 f,
            vf_content_type = fp_content_type f, vf_display_name = fp_display_name f\<rparr>"

lemma validate_file_stages:
  "validate_file fs i f cfg = Inr v \<longleftrightarrow> length (fp_sha256 f) = 32 \<and> fp_relative_path f \<noteq> []
     \<and> \<not> starts_with (fp_relative_path f) ''/'' \<and> check_components i (components (fp_relative_path f)) = None
     \<and> (\<exists>root. lookup_root cfg (fp_root_name f) = Some root \<and> resolve_file fs i f root cfg = Inr v)"
  by (simp add: validate_file_def split: option.split)

lemma resolve_file_exact:
  "resolve_file fs i f root cfg = Inr v \<longleftrightarrow> path_starts_with (vf_absolute_path v) root
     \<and> fs_canonicalize fs (path_join root (fp_relative_path f)) = Some (vf_absolute_path v)
     \<and> fs_metadata fs (vf_absolute_path v) = Some (True, fp_size_bytes f) \<and> fp_size_bytes f \<le> ac_max_file_bytes cfg
     \<and> v = \<lparr>vf_file_index = i, vf_absolute_path = vf_absolute_path v, vf_root_name = fp_root_name f,
            vf_relative_path = fp_relative_path f, vf_size_bytes = fp_size_bytes f, vf_sha256 = fp_sha256 f,
            vf_content_type = fp_content_type f, vf_display_name = fp_display_name f\<rparr>"
  by (cases v) (auto simp: resolve_file_def split: option.splits if_splits)

lemma validate_file_exact: "validate_file fs i f cfg = Inr v \<longleftrightarrow> file_accepted fs cfg i f v"
  unfolding validate_file_stages check_components_None resolve_file_exact file_accepted_def by blast

lemma validate_files_exact:
  "validate_files fs i specs cfg = Inr vs \<longleftrightarrow>
     length vs = length specs \<and> (\<forall>k<length specs. file_accepted fs cfg (i + k) (specs ! k) (vs ! k))"
proof (induction specs arbitrary: i vs)
  case (Cons f specs)
  show ?case
  proof (cases vs)
    case Nil
    then show ?thesis by (auto split: sum.splits)
  next
    case (Cons v ws)
    have "validate_files fs i (f # specs) cfg = Inr (v # ws)
      \<longleftrightarrow> file_accepted fs cfg i f v \<and> validate_files fs (Suc i) specs cfg = Inr ws"
      by (auto simp: validate_file_exact [symmetric] split: sum.splits)
    then show ?thesis using Cons Cons.IH [of "Suc i" ws] by (auto simp: All_less_Suc2)
  qed
qed auto

section \<open>Properties\<close>

text \<open>
  C12: A request is accepted exactly when it has files within the count limit, their sizes add up, as
  numbers, to at most the bundle limit, its scope is accepted, and every file is a regular file of the
  declared size inside its configured root.  Files keep their order and their declared data.
\<close>

theorem validate_request_exact:
  "validate_request fs req cfg = Inr b \<longleftrightarrow>
     sq_files req \<noteq> [] \<and> length (sq_files req) \<le> ac_max_files_per_bundle cfg
     \<and> sum_list (map (unat \<circ> fp_size_bytes) (sq_files req)) \<le> unat (ac_max_bundle_bytes cfg)
     \<and> validate_scope (sq_scope req) cfg = Inr (vb_scope b) \<and> vb_bundle_id b = sq_bundle_id req
     \<and> length (vb_files b) = length (sq_files req)
     \<and> (\<forall>k<length (sq_files req). file_accepted fs cfg k (sq_files req ! k) (vb_files b ! k))"
proof -
  have total: "(\<exists>t. checked_sum 0 xs = Some t \<and> t \<le> m) \<longleftrightarrow> sum_list (map unat xs) \<le> unat m" for xs and m :: u64
  proof
    assume "\<exists>t. checked_sum 0 xs = Some t \<and> t \<le> m"
    then show "sum_list (map unat xs) \<le> unat m" using checked_sum_nat [of 0 xs] by (auto simp: word_le_nat_alt)
  next
    assume le: "sum_list (map unat xs) \<le> unat m"
    have "unat m < 2 ^ LENGTH(64)" by (rule unsigned_less)
    with le have "sum_list (map unat xs) < 2 ^ 64" by simp
    then obtain t where "checked_sum 0 xs = Some t" using checked_sum_total [of 0 xs] by auto
    then show "\<exists>t. checked_sum 0 xs = Some t \<and> t \<le> m" using le checked_sum_nat [of 0 xs t] by (auto simp: word_le_nat_alt)
  qed
  have "validate_request fs req cfg = Inr b \<longleftrightarrow>
     sq_files req \<noteq> [] \<and> length (sq_files req) \<le> ac_max_files_per_bundle cfg
     \<and> (\<exists>t. checked_sum 0 (map fp_size_bytes (sq_files req)) = Some t \<and> t \<le> ac_max_bundle_bytes cfg)
     \<and> validate_scope (sq_scope req) cfg = Inr (vb_scope b) \<and> vb_bundle_id b = sq_bundle_id req
     \<and> validate_files fs 0 (sq_files req) cfg = Inr (vb_files b)"
    by (cases b) (auto simp: validate_request_def split: option.splits sum.splits if_splits)
  then show ?thesis by (simp add: total validate_files_exact comp_def)
qed

definition sample_fs :: fs_view where
  "sample_fs = \<lparr>fs_canonicalize = Some, fs_is_dir = (\<lambda>p. p = ''/o''), fs_exists = (\<lambda>_. True),
     fs_create_dir_all = (\<lambda>_. True), fs_metadata = (\<lambda>p. if p = ''/o/f'' then Some (True, 3) else None)\<rparr>"

definition sample_config :: attachment_config where
  "sample_config = attachment_limits.extend attachment_limits_default \<lparr>ac_roots = [(''out'', ''/o'')], ac_inbox_path = None\<rparr>"

definition sample_spec :: file_spec where
  "sample_spec = \<lparr>fp_root_name = ''out'', fp_relative_path = ''f'', fp_size_bytes = 3, fp_sha256 = replicate 32 0,
     fp_content_type = None, fp_display_name = None\<rparr>"

definition sample_request :: send_request where
  "sample_request = \<lparr>sq_files = [sample_spec], sq_scope = Some (Some AllNodesScope), sq_bundle_id = None, sq_priority = None\<rparr>"

lemmas sample_request_defs = sample_fs_def sample_config_def sample_spec_def sample_request_def
  attachment_limits_default_def attachment_limits.defs

definition sample_bundle :: validated_bundle where
  "sample_bundle = \<lparr>vb_files = [\<lparr>vf_file_index = 0, vf_absolute_path = ''/o/f'', vf_root_name = ''out'',
       vf_relative_path = ''f'', vf_size_bytes = 3, vf_sha256 = replicate 32 0, vf_content_type = None,
       vf_display_name = None\<rparr>], vb_scope = AllNodes, vb_bundle_id = None\<rparr>"

lemma sample_file_accepted: "file_accepted sample_fs sample_config 0 sample_spec (hd (vb_files sample_bundle))"
  by (simp add: file_accepted_def sample_request_defs sample_bundle_def lookup_root_def path_starts_with_def
      path_join_def components_def starts_with_def body_component_def List.map_filter_def)

theorem validate_request_exact_witness: "validate_request sample_fs sample_request sample_config = Inr sample_bundle"
proof (rule validate_request_exact [THEN iffD2], intro conjI allI impI)
  fix k
  assume "k < length (sq_files sample_request)"
  then show "file_accepted sample_fs sample_config k (sq_files sample_request ! k) (vb_files sample_bundle ! k)"
    using sample_file_accepted by (simp add: sample_request_def sample_bundle_def)
qed (simp_all add: sample_request_defs sample_bundle_def validate_scope_def)

end
