(* ===== verification/Rpc_Service.thy ===== *)
theory Rpc_Service
  imports Node_Store Query_Matcher Attachment_Validate
begin

text \<open>
  The RPC service (\<open>src/src/service.rs\<close>): typed collections kept as JSON documents, subscriptions, and the
  collection configurations with their file (\<open>node.rs\<close>).  Messages are records with the fields of
  \<open>proto/sidecar.proto\<close>; JSON numbers and floating-point values belong to libraries and are type variables.
\<close>

section \<open>Numbers\<close>

record ('n, 'f) json_numbers =
  num_of_int :: "int \<Rightarrow> 'n"
  num_of_float :: "'f \<Rightarrow> 'n option"
  num_as_i64 :: "'n \<Rightarrow> int option"
  num_as_u64 :: "'n \<Rightarrow> nat option"
  num_as_f64 :: "'n \<Rightarrow> 'f option"
  float_zero :: 'f

text \<open>What \<open>serde_json\<close> promises: it returns the number it was given; a float that is not finite has none.\<close>

definition faithful_numbers :: "('n, 'f) json_numbers \<Rightarrow> bool" where
  "faithful_numbers nums \<longleftrightarrow>
     (\<forall>i. - (2 ^ 63) \<le> i \<and> i < 2 ^ 63 \<longrightarrow> num_as_i64 nums (num_of_int nums i) = Some i)
   \<and> (\<forall>i. 0 \<le> i \<and> i < 2 ^ 63 \<longrightarrow> num_as_u64 nums (num_of_int nums i) = Some (nat i))
   \<and> (\<forall>x n. num_of_float nums x = Some n \<longrightarrow> num_as_f64 nums n = Some x)"

section \<open>Fields\<close>

text \<open>\<open>v[key]\<close> is \<open>null\<close> when there is no such field.\<close>

definition jfield :: "string \<Rightarrow> 'n json \<Rightarrow> 'n json" where
  "jfield k v = (case json_get k v of Some w \<Rightarrow> w | None \<Rightarrow> JNull)"

fun as_number :: "'n json \<Rightarrow> 'n option" where
  "as_number (JNumber n) = Some n"
| "as_number _ = None"

fun as_array :: "'n json \<Rightarrow> 'n json list option" where
  "as_array (JArray xs) = Some xs"
| "as_array _ = None"

definition read_str :: "'n json \<Rightarrow> string" where
  "read_str v = (case as_str v of Some s \<Rightarrow> s | None \<Rightarrow> [])"

definition read_i64 :: "('n, 'f) json_numbers \<Rightarrow> 'n json \<Rightarrow> int" where
  "read_i64 nums v = (case Option.bind (as_number v) (num_as_i64 nums) of Some i \<Rightarrow> i | None \<Rightarrow> 0)"

definition read_u64 :: "('n, 'f) json_numbers \<Rightarrow> 'n json \<Rightarrow> nat" where
  "read_u64 nums v = (case Option.bind (as_number v) (num_as_u64 nums) of Some i \<Rightarrow> i | None \<Rightarrow> 0)"

definition read_opt_f64 :: "('n, 'f) json_numbers \<Rightarrow> 'n json \<Rightarrow> 'f option" where
  "read_opt_f64 nums v = Option.bind (as_number v) (num_as_f64 nums)"

definition read_f64 :: "('n, 'f) json_numbers \<Rightarrow> 'n json \<Rightarrow> 'f" where
  "read_f64 nums v = (case read_opt_f64 nums v of Some x \<Rightarrow> x | None \<Rightarrow> float_zero nums)"

definition read_strs :: "'n json \<Rightarrow> string list" where
  "read_strs v = (case as_array v of Some xs \<Rightarrow> List.map_filter as_str xs | None \<Rightarrow> [])"

definition write_f64 :: "('n, 'f) json_numbers \<Rightarrow> 'f \<Rightarrow> 'n json" where
  "write_f64 nums x = (case num_of_float nums x of Some n \<Rightarrow> JNumber n | None \<Rightarrow> JNull)"

definition write_opt_f64 :: "('n, 'f) json_numbers \<Rightarrow> 'f option \<Rightarrow> 'n json" where
  "write_opt_f64 nums x = (case x of Some y \<Rightarrow> write_f64 nums y | None \<Rightarrow> JNull)"

definition write_opt_str :: "string option \<Rightarrow> 'n json" where
  "write_opt_str x = (case x of Some s \<Rightarrow> JString s | None \<Rightarrow> JNull)"

definition write_strs :: "string list \<Rightarrow> 'n json" where
  "write_strs xs = JArray (map JString xs)"

definition write_i32 :: "('n, 'f) json_numbers \<Rightarrow> 32 word \<Rightarrow> 'n json" where
  "write_i32 nums w = JNumber (num_of_int nums (sint w))"

definition write_u32 :: "('n, 'f) json_numbers \<Rightarrow> 32 word \<Rightarrow> 'n json" where
  "write_u32 nums w = JNumber (num_of_int nums (uint w))"

definition write_i64 :: "('n, 'f) json_numbers \<Rightarrow> 64 word \<Rightarrow> 'n json" where
  "write_i64 nums w = JNumber (num_of_int nums (sint w))"

section \<open>Messages\<close>

record 'f node_message =
  kn_id :: string
  kn_node_type :: string
  kn_name :: string
  kn_status :: "32 word"
  kn_latitude :: 'f
  kn_longitude :: 'f
  kn_altitude_m :: 'f
  kn_readiness :: 'f
  kn_capabilities :: "string list"
  kn_unit_id :: "string option"
  kn_callsign :: "string option"

record 'f cell_message =
  kc_id :: string
  kc_name :: string
  kc_status :: "32 word"
  kc_node_count :: "32 word"
  kc_center_latitude :: 'f
  kc_center_longitude :: 'f
  kc_capabilities :: "string list"
  kc_formation_id :: "string option"
  kc_leader_id :: "string option"

record 'f track_message =
  kt_id :: string
  kt_source_node :: string
  kt_cell_id :: "string option"
  kt_formation_id :: "string option"
  kt_latitude :: 'f
  kt_longitude :: 'f
  kt_altitude_m :: "'f option"
  kt_cep_m :: "'f option"
  kt_heading_deg :: "'f option"
  kt_speed_mps :: "'f option"
  kt_classification :: string
  kt_confidence :: 'f
  kt_category :: "32 word"

record command_message =
  km_id :: string
  km_target_id :: string
  km_command_type :: string
  km_status :: "32 word"
  km_created_at :: "64 word"
  km_expires_at :: "64 word"
  km_payload_json :: string

definition node_to_map :: "('n, 'f) json_numbers \<Rightarrow> 'f node_message \<Rightarrow> 'n json" where
  "node_to_map nums p = JObject
     [(''id'', JString (kn_id p)), (''node_type'', JString (kn_node_type p)), (''name'', JString (kn_name p)),
      (''status'', write_i32 nums (kn_status p)), (''latitude'', write_f64 nums (kn_latitude p)),
      (''longitude'', write_f64 nums (kn_longitude p)), (''altitude_m'', write_f64 nums (kn_altitude_m p)),
      (''readiness'', write_f64 nums (kn_readiness p)), (''capabilities'', write_strs (kn_capabilities p)),
      (''unit_id'', write_opt_str (kn_unit_id p)), (''callsign'', write_opt_str (kn_callsign p))]"

definition map_to_node :: "('n, 'f) json_numbers \<Rightarrow> 'n serde \<Rightarrow> string \<Rightarrow> string \<Rightarrow> 'f node_message option" where
  "map_to_node nums sd i json = map_option (\<lambda>v.
     \<lparr>kn_id = i, kn_node_type = read_str (jfield ''node_type'' v), kn_name = read_str (jfield ''name'' v),
      kn_status = word_of_int (read_i64 nums (jfield ''status'' v)), kn_latitude = read_f64 nums (jfield ''latitude'' v),
      kn_longitude = read_f64 nums (jfield ''longitude'' v), kn_altitude_m = read_f64 nums (jfield ''altitude_m'' v),
      kn_readiness = read_f64 nums (jfield ''readiness'' v), kn_capabilities = read_strs (jfield ''capabilities'' v),
      kn_unit_id = as_str (jfield ''unit_id'' v), kn_callsign = as_str (jfield ''callsign'' v)\<rparr>) (from_str sd json)"

definition cell_to_map :: "('n, 'f) json_numbers \<Rightarrow> 'f cell_message \<Rightarrow> 'n json" where
  "cell_to_map nums c = JObject
     [(''id'', JString (kc_id c)), (''name'', JString (kc_name c)), (''status'', write_i32 nums (kc_status c)),
      (''node_count'', write_u32 nums (kc_node_count c)),
      (''center_latitude'', write_f64 nums (kc_center_latitude c)),
      (''center_longitude'', write_f64 nums (kc_center_longitude c)),
      (''capabilities'', write_strs (kc_capabilities c)), (''formation_id'', write_opt_str (kc_formation_id c)),
      (''leader_id'', write_opt_str (kc_leader_id c))]"

definition map_to_cell :: "('n, 'f) json_numbers \<Rightarrow> 'n serde \<Rightarrow> string \<Rightarrow> string \<Rightarrow> 'f cell_message option" where
  "map_to_cell nums sd i json = map_option (\<lambda>v.
     \<lparr>kc_id = i, kc_name = read_str (jfield ''name'' v),
      kc_status = word_of_int (read_i64 nums (jfield ''status'' v)),
      kc_node_count = word_of_nat (read_u64 nums (jfield ''node_count'' v)),
      kc_center_latitude = read_f64 nums (jfield ''center_latitude'' v),
      kc_center_longitude = read_f64 nums (jfield ''center_longitude'' v),
      kc_capabilities = read_strs (jfield ''capabilities'' v), kc_formation_id = as_str (jfield ''formation_id'' v),
      kc_leader_id = as_str (jfield ''leader_id'' v)\<rparr>) (from_str sd json)"

definition track_to_map :: "('n, 'f) json_numbers \<Rightarrow> 'f track_message \<Rightarrow> 'n json" where
  "track_to_map nums t = JObject
     [(''id'', JString (kt_id t)), (''source_node'', JString (kt_source_node t)),
      (''cell_id'', write_opt_str (kt_cell_id t)), (''formation_id'', write_opt_str (kt_formation_id t)),
      (''latitude'', write_f64 nums (kt_latitude t)), (''longitude'', write_f64 nums (kt_longitude t)),
      (''altitude_m'', write_opt_f64 nums (kt_altitude_m t)), (''cep_m'', write_opt_f64 nums (kt_cep_m t)),
      (''heading_deg'', write_opt_f64 nums (kt_heading_deg t)), (''speed_mps'', write_opt_f64 nums (kt_speed_mps t)),
      (''classification'', JString (kt_classification t)), (''confidence'', write_f64 nums (kt_confidence t)),
      (''category'', write_i32 nums (kt_category t))]"

definition map_to_track :: "('n, 'f) json_numbers \<Rightarrow> 'n serde \<Rightarrow> string \<Rightarrow> string \<Rightarrow> 'f track_message option" where
  "map_to_track nums sd i json = map_option (\<lambda>v.
     \<lparr>kt_id = i, kt_source_node = read_str (jfield ''source_node'' v), kt_cell_id = as_str (jfield ''cell_id'' v),
      kt_formation_id = as_str (jfield ''formation_id'' v), kt_latitude = read_f64 nums (jfield ''latitude'' v),
      kt_longitude = read_f64 nums (jfield ''longitude'' v), kt_altitude_m = read_opt_f64 nums (jfield ''altitude_m'' v),
      kt_cep_m = read_opt_f64 nums (jfield ''cep_m'' v), kt_heading_deg = read_opt_f64 nums (jfield ''heading_deg'' v),
      kt_speed_mps = read_opt_f64 nums (jfield ''speed_mps'' v),
      kt_classification = read_str (jfield ''classification'' v),
      kt_confidence = read_f64 nums (jfield ''confidence'' v),
      kt_category = word_of_int (read_i64 nums (jfield ''category'' v))\<rparr>) (from_str sd json)"

definition command_to_map :: "('n, 'f) json_numbers \<Rightarrow> command_message \<Rightarrow> 'n json" where
  "command_to_map nums c = JObject
     [(''id'', JString (km_id c)), (''target_id'', JString (km_target_id c)),
      (''command_type'', JString (km_command_type c)), (''status'', write_i32 nums (km_status c)),
      (''created_at'', write_i64 nums (km_created_at c)), (''expires_at'', write_i64 nums (km_expires_at c)),
      (''payload_json'', JString (km_payload_json c))]"

definition map_to_command :: "('n, 'f) json_numbers \<Rightarrow> 'n serde \<Rightarrow> string \<Rightarrow> string \<Rightarrow> command_message option" where
  "map_to_command nums sd i json = map_option (\<lambda>v.
     \<lparr>km_id = i, km_target_id = read_str (jfield ''target_id'' v), km_command_type = read_str (jfield ''command_type'' v),
      km_status = word_of_int (read_i64 nums (jfield ''status'' v)),
      km_created_at = word_of_int (read_i64 nums (jfield ''created_at'' v)),
      km_expires_at = word_of_int (read_i64 nums (jfield ''expires_at'' v)),
      km_payload_json = read_str (jfield ''payload_json'' v)\<rparr>) (from_str sd json)"

section \<open>Documents\<close>

text \<open>Every error of the node is an internal error of the call.\<close>

definition rpc_put_document where
  "rpc_put_document env nonce coll doc_id json_data nd =
     (case put_document env nonce coll doc_id json_data nd of
        (Inl _, nd') \<Rightarrow> (Inl CodeInternal, nd') | (Inr _, nd') \<Rightarrow> (Inr (), nd'))"

definition rpc_get_document ::
  "('n, 'd, 's) node_env \<Rightarrow> string \<Rightarrow> string \<Rightarrow> 's node \<Rightarrow> connect_code + string option" where
  "rpc_get_document env coll doc_id nd =
     (case get_document env coll doc_id nd of Inl _ \<Rightarrow> Inl CodeInternal | Inr json \<Rightarrow> Inr json)"

definition rpc_delete_document where
  "rpc_delete_document env coll doc_id nd =
     (case delete_document env coll doc_id nd of
        (Inl _, nd') \<Rightarrow> (Inl CodeInternal, nd') | (Inr _, nd') \<Rightarrow> (Inr (), nd'))"

definition rpc_list_documents ::
  "('n, 'd, 's) node_env \<Rightarrow> string \<Rightarrow> 's node \<Rightarrow> connect_code + string list" where
  "rpc_list_documents env coll nd =
     (case list_documents env coll nd of Inl _ \<Rightarrow> Inl CodeInternal | Inr ids \<Rightarrow> Inr ids)"

section \<open>Typed collections\<close>

definition put_typed ::
  "('n, 'd, 's) node_env \<Rightarrow> bytes \<Rightarrow> string \<Rightarrow> ('m \<Rightarrow> string) \<Rightarrow> ('m \<Rightarrow> 'n json) \<Rightarrow> 'm option \<Rightarrow> 's node
    \<Rightarrow> (connect_code + unit) \<times> 's node" where
  "put_typed env nonce coll ident to_map msg nd =
     (case msg of
        None \<Rightarrow> (Inl InvalidArgument, nd)
      | Some m \<Rightarrow>
          (case to_str (ne_serde env) (to_map m) of
             None \<Rightarrow> (Inl CodeInternal, nd)
           | Some json \<Rightarrow>
               (case put_document env nonce coll (ident m) json nd of
                  (Inl _, nd') \<Rightarrow> (Inl CodeInternal, nd')
                | (Inr _, nd') \<Rightarrow> (Inr (), nd'))))"

text \<open>
  A listing reads the node several times, and other calls run in between: \<open>view k\<close> is the node at the
  \<open>k\<close>-th read.  A document that cannot be read ends the listing with an error, one that is no JSON is left out.
\<close>

fun get_each ::
  "('n, 'd, 's) node_env \<Rightarrow> string \<Rightarrow> (string \<Rightarrow> string \<Rightarrow> 'm option) \<Rightarrow> (nat \<Rightarrow> 's node) \<Rightarrow> nat \<Rightarrow> string list
    \<Rightarrow> connect_code + 'm list" where
  "get_each env coll of_json view k [] = Inr []"
| "get_each env coll of_json view k (i # ids) =
     (case get_document env coll i (view k) of
        Inl _ \<Rightarrow> Inl CodeInternal
      | Inr found \<Rightarrow>
          (case get_each env coll of_json view (Suc k) ids of
             Inl e \<Rightarrow> Inl e
           | Inr ms \<Rightarrow>
               Inr (case found of
                      None \<Rightarrow> ms
                    | Some json \<Rightarrow> (case of_json i json of Some m \<Rightarrow> m # ms | None \<Rightarrow> ms))))"

definition get_typed ::
  "('n, 'd, 's) node_env \<Rightarrow> string \<Rightarrow> (string \<Rightarrow> string \<Rightarrow> 'm option) \<Rightarrow> (nat \<Rightarrow> 's node) \<Rightarrow> connect_code + 'm list" where
  "get_typed env coll of_json view =
     (case list_documents env coll (view 0) of
        Inl _ \<Rightarrow> Inl CodeInternal
      | Inr ids \<Rightarrow> get_each env coll of_json view 1 ids)"

definition put_node where
  "put_node nums env nonce msg nd = put_typed env nonce ''nodes'' kn_id (node_to_map nums) msg nd"

definition get_nodes where
  "get_nodes nums env view = get_typed env ''nodes'' (map_to_node nums (ne_serde env)) view"

definition put_cell where
  "put_cell nums env nonce msg nd = put_typed env nonce ''cells'' kc_id (cell_to_map nums) msg nd"

definition get_cells where
  "get_cells nums env view = get_typed env ''cells'' (map_to_cell nums (ne_serde env)) view"

definition put_track where
  "put_track nums env nonce msg nd = put_typed env nonce ''tracks'' kt_id (track_to_map nums) msg nd"

definition get_tracks where
  "get_tracks nums env view = get_typed env ''tracks'' (map_to_track nums (ne_serde env)) view"

definition put_command where
  "put_command nums env nonce msg nd = put_typed env nonce ''commands'' km_id (command_to_map nums) msg nd"

definition get_commands where
  "get_commands nums env view = get_typed env ''commands'' (map_to_command nums (ne_serde env)) view"

section \<open>Subscriptions\<close>

definition upsert_change :: "string \<Rightarrow> string \<Rightarrow> string \<Rightarrow> change_event" where
  "upsert_change coll i json = \<lparr>ce_collection = coll, ce_doc_id = i, ce_type = UpsertChange, ce_json = Some json\<rparr>"

definition snapshot_frame ::
  "('n, 'd, 's) node_env \<Rightarrow> 'n num_ops \<Rightarrow> 'n matcher option \<Rightarrow> string \<Rightarrow> 's node \<Rightarrow> string \<Rightarrow> change_event list" where
  "snapshot_frame env ops m coll nd i =
     (case get_document env coll i nd of
        Inr (Some json) \<Rightarrow>
          if (case m of Some q \<Rightarrow> matches_upsert (ne_serde env) ops q json | None \<Rightarrow> True)
          then [upsert_change coll i json] else []
      | _ \<Rightarrow> [])"

fun snapshot_docs ::
  "('n, 'd, 's) node_env \<Rightarrow> 'n num_ops \<Rightarrow> 'n matcher option \<Rightarrow> string \<Rightarrow> (nat \<Rightarrow> 's node) \<Rightarrow> nat \<Rightarrow> string list
    \<Rightarrow> change_event list" where
  "snapshot_docs env ops m coll view k [] = []"
| "snapshot_docs env ops m coll view k (i # ids) =
     snapshot_frame env ops m coll (view k) i @ snapshot_docs env ops m coll view (Suc k) ids"

fun subscribe_snapshot ::
  "('n, 'd, 's) node_env \<Rightarrow> 'n num_ops \<Rightarrow> 'n matcher option \<Rightarrow> (nat \<Rightarrow> 's node) \<Rightarrow> nat \<Rightarrow> string list
    \<Rightarrow> connect_code + change_event list" where
  "subscribe_snapshot env ops m view k [] = Inr []"
| "subscribe_snapshot env ops m view k (coll # colls) =
     (case list_documents env coll (view k) of
        Inl _ \<Rightarrow> Inl CodeInternal
      | Inr ids \<Rightarrow>
          (case subscribe_snapshot env ops m view (Suc k + length ids) colls of
             Inl e \<Rightarrow> Inl e
           | Inr rest \<Rightarrow> Inr (snapshot_docs env ops m coll view (Suc k) ids @ rest)))"

text \<open>The live part: a lagging receiver yields an error, which is skipped.\<close>

definition subscribe_live ::
  "'n serde \<Rightarrow> 'n num_ops \<Rightarrow> string list \<Rightarrow> 'n matcher option \<Rightarrow> change_event option list \<Rightarrow> change_event list" where
  "subscribe_live sd ops colls m received =
     List.map_filter (\<lambda>r. case r of
        Some ev \<Rightarrow> if event_passes sd ops colls m (ce_collection ev) (ce_json ev) then Some ev else None
      | None \<Rightarrow> None) received"

text \<open>The query of a request is absent, or bytes that decode to a query or do not.\<close>

definition subscribe_matcher :: "'n serde \<Rightarrow> query_node option option \<Rightarrow> connect_code + 'n matcher option" where
  "subscribe_matcher sd query =
     (case query of
        None \<Rightarrow> Inr None
      | Some None \<Rightarrow> Inl InvalidArgument
      | Some (Some q) \<Rightarrow> (case from_proto sd q of Inl _ \<Rightarrow> Inl InvalidArgument | Inr m \<Rightarrow> Inr (Some m)))"

text \<open>
  \<open>received\<close> is what the broadcast receiver yields; it is created before the first read of the
  snapshot, so an event of a change made during the snapshot is among them.
\<close>

definition subscribe ::
  "('n, 'd, 's) node_env \<Rightarrow> 'n num_ops \<Rightarrow> string list \<Rightarrow> query_node option option \<Rightarrow> (nat \<Rightarrow> 's node)
    \<Rightarrow> change_event option list \<Rightarrow> connect_code + change_event list" where
  "subscribe env ops colls query view received =
     (case subscribe_matcher (ne_serde env) query of
        Inl e \<Rightarrow> Inl e
      | Inr m \<Rightarrow>
          (case subscribe_snapshot env ops m view 0 colls of
             Inl e \<Rightarrow> Inl e
           | Inr snapshot \<Rightarrow> Inr (snapshot @ subscribe_live (ne_serde env) ops colls m received)))"

section \<open>Collection configurations\<close>

datatype stored_deletion_policy = SoftDelete | TombstonePolicy | ImplicitTTL | ImmutablePolicy

record collection_config_entry =
  cf_collection :: string
  cf_deletion_policy :: stored_deletion_policy
  cf_soft_delete_ttl_secs :: "u64 option"
  cf_tombstone_ttl_secs :: "u64 option"

text \<open>The wire form has the policy as an enumeration value.\<close>

record proto_config =
  px_collection :: string
  px_deletion_policy :: "32 word"
  px_soft_delete_ttl_secs :: "u64 option"
  px_tombstone_ttl_secs :: "u64 option"

definition entry_to_proto_config :: "collection_config_entry \<Rightarrow> proto_config" where
  "entry_to_proto_config e =
     \<lparr>px_collection = cf_collection e,
      px_deletion_policy = (case cf_deletion_policy e of
        SoftDelete \<Rightarrow> 1 | TombstonePolicy \<Rightarrow> 2 | ImplicitTTL \<Rightarrow> 3 | ImmutablePolicy \<Rightarrow> 4),
      px_soft_delete_ttl_secs = cf_soft_delete_ttl_secs e, px_tombstone_ttl_secs = cf_tombstone_ttl_secs e\<rparr>"

definition proto_config_to_entry :: "proto_config \<Rightarrow> collection_config_entry" where
  "proto_config_to_entry c =
     \<lparr>cf_collection = px_collection c,
      cf_deletion_policy =
        (if px_deletion_policy c = 2 then TombstonePolicy else if px_deletion_policy c = 3 then ImplicitTTL
         else if px_deletion_policy c = 4 then ImmutablePolicy else SoftDelete),
      cf_soft_delete_ttl_secs = px_soft_delete_ttl_secs c, cf_tombstone_ttl_secs = px_tombstone_ttl_secs c\<rparr>"

text \<open>The table in memory and the content of its file; a write that fails may leave any content behind.\<close>

record config_store =
  cs_configs :: "(string \<times> collection_config_entry) list"
  cs_file :: "string option"

datatype file_write = WriteDone | WriteFails "string option"

definition set_config ::
  "((string \<times> collection_config_entry) list \<Rightarrow> string option) \<Rightarrow> file_write \<Rightarrow> collection_config_entry \<Rightarrow> config_store
    \<Rightarrow> bool \<times> config_store" where
  "set_config render w e cs =
     (let cs1 = cs\<lparr>cs_configs := AList.update (cf_collection e) e (cs_configs cs)\<rparr>
      in case render (cs_configs cs1) of
           None \<Rightarrow> (False, cs1)
         | Some json \<Rightarrow>
             (case w of WriteDone \<Rightarrow> (True, cs1\<lparr>cs_file := Some json\<rparr>) | WriteFails left \<Rightarrow> (False, cs1\<lparr>cs_file := left\<rparr>)))"

definition get_config :: "string \<Rightarrow> config_store \<Rightarrow> collection_config_entry option" where
  "get_config coll cs = map_of (cs_configs cs) coll"

text \<open>What a start-up makes of the file.\<close>

definition load_configs ::
  "(string \<Rightarrow> (string \<times> collection_config_entry) list option) \<Rightarrow> string option \<Rightarrow> (string \<times> collection_config_entry) list" where
  "load_configs parse content =
     (case content of None \<Rightarrow> [] | Some s \<Rightarrow> (case parse s of Some m \<Rightarrow> m | None \<Rightarrow> []))"

definition set_collection_config ::
  "((string \<times> collection_config_entry) list \<Rightarrow> string option) \<Rightarrow> file_write \<Rightarrow> proto_config option \<Rightarrow> config_store
    \<Rightarrow> (connect_code + unit) \<times> config_store" where
  "set_collection_config render w cfg cs =
     (case cfg of
        None \<Rightarrow> (Inl InvalidArgument, cs)
      | Some c \<Rightarrow>
          if px_collection c = [] then (Inl InvalidArgument, cs)
          else case set_config render w (proto_config_to_entry c) cs of
            (ok, cs') \<Rightarrow> (if ok then Inr () else Inl CodeInternal, cs'))"

definition get_collection_config :: "string \<Rightarrow> config_store \<Rightarrow> proto_config option" where
  "get_collection_config coll cs = map_option entry_to_proto_config (get_config coll cs)"

definition list_configs :: "config_store \<Rightarrow> collection_config_entry list" where
  "list_configs cs = map snd (cs_configs cs)"

definition list_collection_configs :: "config_store \<Rightarrow> proto_config list" where
  "list_collection_configs cs = map entry_to_proto_config (list_configs cs)"

section \<open>Types of fields\<close>

datatype field_type = FStr | FOptStr | FStrs | FI32 | FU32 | FI64 | FNum | FOptNum

fun has_type :: "('n, 'f) json_numbers \<Rightarrow> field_type \<Rightarrow> 'n json \<Rightarrow> bool" where
  "has_type nums FStr v = (as_str v \<noteq> None)"
| "has_type nums FOptStr v = (v = JNull \<or> as_str v \<noteq> None)"
| "has_type nums FStrs v = (case as_array v of Some xs \<Rightarrow> list_all (\<lambda>x. as_str x \<noteq> None) xs | None \<Rightarrow> False)"
| "has_type nums FI32 v =
     (case Option.bind (as_number v) (num_as_i64 nums) of Some i \<Rightarrow> - (2 ^ 31) \<le> i \<and> i < 2 ^ 31 | None \<Rightarrow> False)"
| "has_type nums FU32 v =
     (case Option.bind (as_number v) (num_as_u64 nums) of Some i \<Rightarrow> i < 2 ^ 32 | None \<Rightarrow> False)"
| "has_type nums FI64 v = (Option.bind (as_number v) (num_as_i64 nums) \<noteq> None)"
| "has_type nums FNum v = (read_opt_f64 nums v \<noteq> None)"
| "has_type nums FOptNum v = (v = JNull \<or> read_opt_f64 nums v \<noteq> None)"

definition well_typed :: "('n, 'f) json_numbers \<Rightarrow> (string \<times> field_type) list \<Rightarrow> 'n json \<Rightarrow> bool" where
  "well_typed nums tys v = list_all (\<lambda>(k, t). has_type nums t (jfield k v)) tys"

definition node_fields :: "(string \<times> field_type) list" where
  "node_fields = [(''id'', FStr), (''node_type'', FStr), (''name'', FStr), (''status'', FI32), (''latitude'', FNum),
     (''longitude'', FNum), (''altitude_m'', FNum), (''readiness'', FNum), (''capabilities'', FStrs),
     (''unit_id'', FOptStr), (''callsign'', FOptStr)]"

definition cell_fields :: "(string \<times> field_type) list" where
  "cell_fields = [(''id'', FStr), (''name'', FStr), (''status'', FI32), (''node_count'', FU32),
     (''center_latitude'', FNum), (''center_longitude'', FNum), (''capabilities'', FStrs),
     (''formation_id'', FOptStr), (''leader_id'', FOptStr)]"

definition track_fields :: "(string \<times> field_type) list" where
  "track_fields = [(''id'', FStr), (''source_node'', FStr), (''cell_id'', FOptStr), (''formation_id'', FOptStr),
     (''latitude'', FNum), (''longitude'', FNum), (''altitude_m'', FOptNum), (''cep_m'', FOptNum),
     (''heading_deg'', FOptNum), (''speed_mps'', FOptNum), (''classification'', FStr), (''confidence'', FNum),
     (''category'', FI32)]"

definition command_fields :: "(string \<times> field_type) list" where
  "command_fields = [(''id'', FStr), (''target_id'', FStr), (''command_type'', FStr), (''status'', FI32),
     (''created_at'', FI64), (''expires_at'', FI64), (''payload_json'', FStr)]"

text \<open>A float that is a JSON number.\<close>

definition finite_float :: "('n, 'f) json_numbers \<Rightarrow> 'f \<Rightarrow> bool" where
  "finite_float nums x \<longleftrightarrow> num_of_float nums x \<noteq> None"

definition node_floats :: "'f node_message \<Rightarrow> 'f list" where
  "node_floats p = [kn_latitude p, kn_longitude p, kn_altitude_m p, kn_readiness p]"

definition cell_floats :: "'f cell_message \<Rightarrow> 'f list" where
  "cell_floats c = [kc_center_latitude c, kc_center_longitude c]"

definition track_floats :: "'f track_message \<Rightarrow> 'f list" where
  "track_floats t = [kt_latitude t, kt_longitude t, kt_confidence t]"

definition finite_opt :: "('n, 'f) json_numbers \<Rightarrow> 'f option \<Rightarrow> bool" where
  "finite_opt nums x = (case x of None \<Rightarrow> True | Some y \<Rightarrow> finite_float nums y)"

definition track_opt_floats :: "'f track_message \<Rightarrow> 'f option list" where
  "track_opt_floats t = [kt_altitude_m t, kt_cep_m t, kt_heading_deg t, kt_speed_mps t]"

definition same_fields :: "'n json \<Rightarrow> 'n json \<Rightarrow> bool" where
  "same_fields v w \<longleftrightarrow> (\<forall>k. json_get k v = json_get k w)"

text \<open>A text that parses to the fields of \<open>v\<close>, in any order.\<close>

definition text_of :: "'n serde \<Rightarrow> string \<Rightarrow> 'n json \<Rightarrow> bool" where
  "text_of sd t v \<longleftrightarrow> (\<exists>w. from_str sd t = Some w \<and> same_fields w v)"

text \<open>
  Numbers for witnesses: integers, and floats with one value that is not finite.
\<close>

definition sample_numbers :: "(int + int, int option) json_numbers" where
  "sample_numbers =
     \<lparr>num_of_int = Inl, num_of_float = map_option Inr,
      num_as_i64 = (\<lambda>n. case n of Inl i \<Rightarrow> Some i | Inr _ \<Rightarrow> None),
      num_as_u64 = (\<lambda>n. case n of Inl i \<Rightarrow> if 0 \<le> i then Some (nat i) else None | Inr _ \<Rightarrow> None),
      num_as_f64 = (\<lambda>n. case n of Inl i \<Rightarrow> Some (Some i) | Inr i \<Rightarrow> Some (Some i)), float_zero = Some 0\<rparr>"

definition sample_node_message :: "int option node_message" where
  "sample_node_message =
     \<lparr>kn_id = ''n1'', kn_node_type = ''uav'', kn_name = ''N'', kn_status = - 1, kn_latitude = Some 3,
      kn_longitude = Some 4, kn_altitude_m = Some 5, kn_readiness = Some 1, kn_capabilities = [''ir''],
      kn_unit_id = Some ''u'', kn_callsign = None\<rparr>"

definition sample_cell_message :: "int option cell_message" where
  "sample_cell_message =
     \<lparr>kc_id = ''c1'', kc_name = ''C'', kc_status = 2, kc_node_count = - 1, kc_center_latitude = Some 3,
      kc_center_longitude = Some 4, kc_capabilities = [], kc_formation_id = None, kc_leader_id = Some ''n1''\<rparr>"

definition sample_track_message :: "int option track_message" where
  "sample_track_message =
     \<lparr>kt_id = ''t1'', kt_source_node = ''n1'', kt_cell_id = None, kt_formation_id = None, kt_latitude = Some 3,
      kt_longitude = Some 4, kt_altitude_m = Some (Some 9), kt_cep_m = None, kt_heading_deg = None,
      kt_speed_mps = Some (Some 2), kt_classification = ''x'', kt_confidence = Some 1, kt_category = 3\<rparr>"

definition sample_command_message :: command_message where
  "sample_command_message =
     \<lparr>km_id = ''k1'', km_target_id = ''n1'', km_command_type = ''go'', km_status = 1, km_created_at = 5,
      km_expires_at = - 1, km_payload_json = ''{}''\<rparr>"

text \<open>A serializer that knows the four sample documents, and a node over it.\<close>

definition sample_documents :: "(string \<times> (int + int) json) list" where
  "sample_documents =
     [(''p'', node_to_map sample_numbers sample_node_message), (''c'', cell_to_map sample_numbers sample_cell_message),
      (''t'', track_to_map sample_numbers sample_track_message),
      (''k'', command_to_map sample_numbers sample_command_message)]"

definition sample_service_env :: "(int + int, (int + int) json, (string \<times> (int + int) json) list) node_env" where
  "sample_service_env =
     \<lparr>ne_serde = \<lparr>from_str = map_of sample_documents,
                  to_str = (\<lambda>v. if json_get ''node_type'' v \<noteq> None then Some ''p'' else None)\<rparr>,
      ne_to_automerge = (\<lambda>v base. Some v), ne_of_automerge = (\<lambda>d. d), ne_view = (\<lambda>d. AmMap []),
      ne_encoded_len = (\<lambda>d. 0), ne_get = (\<lambda>k s. Some (map_of s k)),
      ne_put = (\<lambda>k d s. (True, AList.update k d s)), ne_delete = (\<lambda>k s. (True, AList.delete k s)),
      ne_keys = (\<lambda>p s. Some (filter (\<lambda>k. starts_with k p) (map fst s))),
      ne_crypto = sample_crypto, ne_sha = sample_sha\<rparr>"

definition sample_service_node :: "(string \<times> (int + int) json) list node" where
  "sample_service_node = \<lparr>n_store = [], n_cipher = None, n_ledger = None, n_disk = empty_disk [], n_changes = []\<rparr>"

section \<open>Reading what was written\<close>

lemma sint32_range: "- (2 ^ 31) \<le> sint (w :: 32 word) \<and> sint w < 2 ^ 31"
  using sint_ge [of w] sint_lt [of w] by simp

lemma sint64_range: "- (2 ^ 63) \<le> sint (w :: 64 word) \<and> sint w < 2 ^ 63"
  using sint_ge [of w] sint_lt [of w] by simp

lemma uint32_range: "0 \<le> uint (w :: 32 word) \<and> uint w < 2 ^ 32"
  using uint_lt2p [of w] by simp

lemma as_i64_written:
  assumes "faithful_numbers nums" and "- (2 ^ 63) \<le> i" and "i < 2 ^ 63"
  shows "num_as_i64 nums (num_of_int nums i) = Some i"
  using assms unfolding faithful_numbers_def by blast

lemma as_u64_written:
  assumes "faithful_numbers nums" and "0 \<le> i" and "i < 2 ^ 63"
  shows "num_as_u64 nums (num_of_int nums i) = Some (nat i)"
  using assms unfolding faithful_numbers_def by blast

lemma as_f64_written: "faithful_numbers nums \<Longrightarrow> num_of_float nums x = Some n \<Longrightarrow> num_as_f64 nums n = Some x"
  unfolding faithful_numbers_def by blast

lemma number_i32:
  assumes "faithful_numbers nums"
  shows "num_as_i64 nums (num_of_int nums (sint (w :: 32 word))) = Some (sint w)"
  using sint32_range [of w] by (intro as_i64_written [OF assms]) simp_all

lemma number_i64:
  assumes "faithful_numbers nums"
  shows "num_as_i64 nums (num_of_int nums (sint (w :: 64 word))) = Some (sint w)"
  using sint64_range [of w] by (intro as_i64_written [OF assms]) simp_all

lemma number_u32:
  assumes "faithful_numbers nums"
  shows "num_as_u64 nums (num_of_int nums (uint (w :: 32 word))) = Some (nat (uint w))"
  using uint32_range [of w] by (intro as_u64_written [OF assms]) simp_all

lemma read_i64_i32: "faithful_numbers nums \<Longrightarrow> read_i64 nums (write_i32 nums w) = sint w"
  by (simp add: read_i64_def write_i32_def number_i32)

lemma read_i64_i64: "faithful_numbers nums \<Longrightarrow> read_i64 nums (write_i64 nums w) = sint w"
  by (simp add: read_i64_def write_i64_def number_i64)

lemma read_u64_u32: "faithful_numbers nums \<Longrightarrow> read_u64 nums (write_u32 nums w) = unat w"
  by (simp add: read_u64_def write_u32_def number_u32)

lemma read_opt_f64_written:
  "faithful_numbers nums \<Longrightarrow> read_opt_f64 nums (write_f64 nums x) = (if finite_float nums x then Some x else None)"
  by (auto simp: read_opt_f64_def write_f64_def finite_float_def as_f64_written split: option.splits)

lemma read_f64_written:
  "faithful_numbers nums \<Longrightarrow> read_f64 nums (write_f64 nums x) = (if finite_float nums x then x else float_zero nums)"
  by (simp add: read_f64_def read_opt_f64_written)

lemma read_opt_f64_opt:
  "faithful_numbers nums \<Longrightarrow> read_opt_f64 nums (write_opt_f64 nums x) = Option.bind x (\<lambda>y. if finite_float nums y then Some y else None)"
  by (cases x) (simp_all add: write_opt_f64_def read_opt_f64_written, simp add: read_opt_f64_def)

lemma as_str_opt [simp]: "as_str (write_opt_str x) = x"
  by (cases x) (simp_all add: write_opt_str_def)

lemma read_str_JString [simp]: "read_str (JString x) = x"
  by (simp add: read_str_def)

lemma read_strs_written [simp]: "read_strs (write_strs xs) = xs"
  by (induction xs) (simp_all add: read_strs_def write_strs_def List.map_filter_def)

lemmas read_written = read_i64_i32 read_i64_i64 read_u64_u32 read_f64_written read_opt_f64_opt

lemma jfield_object: "jfield k (JObject kvs) = (case map_of kvs k of Some w \<Rightarrow> w | None \<Rightarrow> JNull)"
  by (simp add: jfield_def)

lemma same_fields_jfield: "same_fields v w \<Longrightarrow> jfield k v = jfield k w"
  by (simp add: same_fields_def jfield_def)

section \<open>Types of what is written\<close>

lemma type_i32: "faithful_numbers nums \<Longrightarrow> has_type nums FI32 (write_i32 nums w)"
  using sint32_range [of w] by (simp add: write_i32_def number_i32)

lemma type_u32: "faithful_numbers nums \<Longrightarrow> has_type nums FU32 (write_u32 nums w)"
  using unsigned_less [of w, where 'a = nat] by (simp add: write_u32_def number_u32)

lemma type_i64: "faithful_numbers nums \<Longrightarrow> has_type nums FI64 (write_i64 nums w)"
  by (simp add: write_i64_def number_i64)

lemma type_f64: "faithful_numbers nums \<Longrightarrow> has_type nums FNum (write_f64 nums x) \<longleftrightarrow> finite_float nums x"
  by (simp add: read_opt_f64_written)

lemma type_opt_f64: "faithful_numbers nums \<Longrightarrow> has_type nums FOptNum (write_opt_f64 nums x)"
  by (auto simp: write_opt_f64_def write_f64_def read_opt_f64_def as_f64_written split: option.splits)

lemma type_opt_str: "has_type nums FOptStr (write_opt_str x)"
  by (cases x) (simp_all add: write_opt_str_def)

lemma type_strs: "has_type nums FStrs (write_strs xs)"
  by (simp add: write_strs_def list_all_iff)

lemma type_str: "has_type nums FStr (JString x)"
  by simp

lemmas type_written = type_i32 type_u32 type_i64 type_f64 type_opt_f64 type_opt_str type_strs type_str

lemma faithful_sample: "faithful_numbers sample_numbers"
  by (auto simp: faithful_numbers_def sample_numbers_def)

section \<open>Round trips\<close>

lemma node_round_trip:
  assumes "faithful_numbers nums" and "text_of sd t (node_to_map nums p)" and "list_all (finite_float nums) (node_floats p)"
  shows "map_to_node nums sd (kn_id p) t = Some p"
proof -
  obtain w where "from_str sd t = Some w" and "same_fields w (node_to_map nums p)"
    using assms(2) by (auto simp: text_of_def)
  then show ?thesis
    using assms(1,3)
    by (cases p) (simp add: map_to_node_def same_fields_jfield node_to_map_def node_floats_def jfield_object read_written)
qed

lemma cell_round_trip:
  assumes "faithful_numbers nums" and "text_of sd t (cell_to_map nums c)" and "list_all (finite_float nums) (cell_floats c)"
  shows "map_to_cell nums sd (kc_id c) t = Some c"
proof -
  obtain w where "from_str sd t = Some w" and "same_fields w (cell_to_map nums c)"
    using assms(2) by (auto simp: text_of_def)
  then show ?thesis
    using assms(1,3)
    by (cases c) (simp add: map_to_cell_def same_fields_jfield cell_to_map_def cell_floats_def jfield_object read_written)
qed

lemma read_finite_opt:
  "faithful_numbers nums \<Longrightarrow> finite_opt nums x \<Longrightarrow> read_opt_f64 nums (write_opt_f64 nums x) = x"
  by (cases x) (simp_all add: read_opt_f64_opt finite_opt_def)

lemma track_round_trip:
  assumes "faithful_numbers nums" and "text_of sd s (track_to_map nums t)"
    and "list_all (finite_float nums) (track_floats t)" and "list_all (finite_opt nums) (track_opt_floats t)"
  shows "map_to_track nums sd (kt_id t) s = Some t"
proof -
  obtain w where "from_str sd s = Some w" and "same_fields w (track_to_map nums t)"
    using assms(2) by (auto simp: text_of_def)
  then show ?thesis
    using assms(1,3,4)
    by (cases t) (simp add: map_to_track_def same_fields_jfield track_to_map_def track_floats_def track_opt_floats_def
        jfield_object read_i64_i32 read_f64_written read_finite_opt)
qed

lemma command_round_trip:
  assumes "faithful_numbers nums" and "text_of sd t (command_to_map nums k)"
  shows "map_to_command nums sd (km_id k) t = Some k"
proof -
  obtain w where "from_str sd t = Some w" and "same_fields w (command_to_map nums k)"
    using assms(2) by (auto simp: text_of_def)
  then show ?thesis
    using assms(1)
    by (cases k) (simp add: map_to_command_def same_fields_jfield command_to_map_def jfield_object read_written)
qed



text \<open>
  C22: A typed document reads back as the message it was written from.  For any text that parses to
  the written fields, in whatever order, each of the four readers returns the message, provided
  its floats are finite: negative enumeration values, the full range of the counters and
  timestamps and absent optional fields included.
\<close>

theorem typed_messages_round_trip:
  assumes "faithful_numbers nums"
  shows "(text_of sd tp (node_to_map nums p) \<and> list_all (finite_float nums) (node_floats p)
        \<longrightarrow> map_to_node nums sd (kn_id p) tp = Some p)
    \<and> (text_of sd tc (cell_to_map nums c) \<and> list_all (finite_float nums) (cell_floats c)
        \<longrightarrow> map_to_cell nums sd (kc_id c) tc = Some c)
    \<and> (text_of sd tt (track_to_map nums t) \<and> list_all (finite_float nums) (track_floats t)
        \<and> list_all (finite_opt nums) (track_opt_floats t) \<longrightarrow> map_to_track nums sd (kt_id t) tt = Some t)
    \<and> (text_of sd tk (command_to_map nums k) \<longrightarrow> map_to_command nums sd (km_id k) tk = Some k)"
  using node_round_trip [OF assms] cell_round_trip [OF assms] track_round_trip [OF assms] command_round_trip [OF assms]
  by blast

theorem typed_messages_round_trip_witness:
  "map_to_node sample_numbers (ne_serde sample_service_env) ''n1'' ''p'' = Some sample_node_message
    \<and> map_to_cell sample_numbers (ne_serde sample_service_env) ''c1'' ''c'' = Some sample_cell_message
    \<and> map_to_track sample_numbers (ne_serde sample_service_env) ''t1'' ''t'' = Some sample_track_message
    \<and> map_to_command sample_numbers (ne_serde sample_service_env) ''k1'' ''k'' = Some sample_command_message"
proof -
  have texts: "text_of (ne_serde sample_service_env) ''p'' (node_to_map sample_numbers sample_node_message)"
    "text_of (ne_serde sample_service_env) ''c'' (cell_to_map sample_numbers sample_cell_message)"
    "text_of (ne_serde sample_service_env) ''t'' (track_to_map sample_numbers sample_track_message)"
    "text_of (ne_serde sample_service_env) ''k'' (command_to_map sample_numbers sample_command_message)"
    by (simp_all add: text_of_def same_fields_def sample_service_env_def sample_documents_def)
  have floats: "list_all (finite_float sample_numbers) (node_floats sample_node_message)"
    "list_all (finite_float sample_numbers) (cell_floats sample_cell_message)"
    "list_all (finite_float sample_numbers) (track_floats sample_track_message)"
    "list_all (finite_opt sample_numbers) (track_opt_floats sample_track_message)"
    by code_simp+
  have ids: "kn_id sample_node_message = ''n1''" "kc_id sample_cell_message = ''c1''"
    "kt_id sample_track_message = ''t1''" "km_id sample_command_message = ''k1''"
    by code_simp+
  show ?thesis
    using typed_messages_round_trip [OF faithful_sample, of "ne_serde sample_service_env" "''p''" sample_node_message
        "''c''" sample_cell_message "''t''" sample_track_message "''k''" sample_command_message]
      texts floats unfolding ids by blast
qed

section \<open>Put and list\<close>

text \<open>
  What the listing relies on: a stored document is found under its key, and by every scan for a
  prefix of the key that succeeds.
\<close>

definition store_laws :: "('n, 'd, 's) node_env \<Rightarrow> bool" where
  "store_laws env \<longleftrightarrow>
     (\<forall>k d s s'. ne_put env k d s = (True, s') \<longrightarrow> ne_get env k s' = Some (Some d)
        \<and> (\<forall>p keys. starts_with k p \<longrightarrow> ne_keys env p s' = Some keys \<longrightarrow> k \<in> set keys))"

text \<open>The document \<open>v\<close> survives its printing and its conversion: its fields come back.\<close>

definition kept_document :: "('n, 'd, 's) node_env \<Rightarrow> 'n json \<Rightarrow> bool" where
  "kept_document env v \<longleftrightarrow>
     (\<forall>w t. same_fields w v \<longrightarrow> to_str (ne_serde env) w = Some t \<longrightarrow> text_of (ne_serde env) t v)
   \<and> (\<forall>w base d. same_fields w v \<longrightarrow> ne_to_automerge env w base = Some d \<longrightarrow> same_fields (ne_of_automerge env d) v)"

lemma put_typed_Inr:
  assumes "put_typed env nonce coll ident to_map msg nd = (Inr (), nd')"
  shows "\<exists>m t. msg = Some m \<and> to_str (ne_serde env) (to_map m) = Some t
    \<and> write_document env nonce coll (ident m) t Upsert nd = (Inr (), nd')"
  using assms by (auto simp: put_typed_def put_document_def split: option.splits prod.splits sum.splits)

text \<open>A put that succeeded, in a node without a cipher: the next read returns a text of the document.\<close>

lemma put_typed_read:
  assumes "store_laws env" and "kept_document env (to_map m)" and "json_get ''value'' (to_map m) = None"
    and "n_cipher nd = None" and "put_typed env nonce coll ident to_map (Some m) nd = (Inr (), nd')"
    and "get_document env coll (ident m) nd' = Inr found"
  shows "\<exists>t. found = Some t \<and> text_of (ne_serde env) t (to_map m)"
proof -
  obtain t where t: "to_str (ne_serde env) (to_map m) = Some t"
    and w: "write_document env nonce coll (ident m) t Upsert nd = (Inr (), nd')"
    using put_typed_Inr [OF assms(5)] by auto
  obtain parsed v base doc s where v: "from_str (ne_serde env) t = Some parsed"
    "stored_json env (n_cipher nd) nonce t parsed = Inr v" "ne_to_automerge env v base = Some doc"
    "ne_put env (doc_key coll (ident m)) doc s = (True, n_store nd')"
    using write_Inr [OF w] by metis
  have "same_fields parsed (to_map m)"
    using assms(2) t v(1) by (fastforce simp: kept_document_def text_of_def same_fields_def)
  moreover have "v = parsed"
    using v(2) assms(4) by (simp add: stored_json_def)
  ultimately have d: "same_fields (ne_of_automerge env doc) (to_map m)"
    using assms(2) v(3) unfolding kept_document_def by blast
  then have "encrypted_value (ne_of_automerge env doc) = None"
    using assms(3) by (simp add: encrypted_value_def same_fields_def)
  moreover have "ne_get env (doc_key coll (ident m)) (n_store nd') = Some (Some doc)"
    using assms(1) v(4) unfolding store_laws_def by blast
  ultimately obtain u where u: "to_str (ne_serde env) (ne_of_automerge env doc) = Some u" "found = Some u"
    using assms(6) by (auto simp: get_document_def split: option.splits)
  then show ?thesis
    using assms(2) d unfolding kept_document_def by blast
qed

lemma get_each_Inr:
  "get_each env coll f view k ids = Inr ms \<Longrightarrow> i \<in> set ids \<Longrightarrow>
    \<exists>j found. get_document env coll i (view j) = Inr found \<and> (\<forall>t m. found = Some t \<and> f i t = Some m \<longrightarrow> m \<in> set ms)"
proof (induction ids arbitrary: k ms)
  case (Cons h ids)
  obtain found ms' where d: "get_document env coll h (view k) = Inr found"
    and r: "get_each env coll f view (Suc k) ids = Inr ms'"
    and ms: "ms = (case found of None \<Rightarrow> ms' | Some t \<Rightarrow> (case f h t of Some m \<Rightarrow> m # ms' | None \<Rightarrow> ms'))"
    using Cons.prems(1) by (auto split: sum.splits)
  have sub: "set ms' \<subseteq> set ms"
    unfolding ms by (auto split: option.splits)
  show ?case
  proof (cases "i = h")
    case True
    then show ?thesis using d ms by (intro exI [of _ k] exI [of _ found]) auto
  next
    case False
    then show ?thesis using Cons.IH [OF r] Cons.prems(2) sub by (metis set_ConsD subsetD)
  qed
qed simp

lemma listed_document:
  assumes "list_documents env coll nd = Inr ids"
    and "\<And>keys. ne_keys env (coll @ '':'') (n_store nd) = Some keys \<Longrightarrow> doc_key coll i \<in> set keys"
  shows "i \<in> set ids"
proof -
  obtain keys where k: "ne_keys env (coll @ '':'') (n_store nd) = Some keys"
    and ids: "ids = List.map_filter (\<lambda>k. strip_prefix k (coll @ '':'')) keys"
    using assms(1) by (auto simp: list_documents_def Let_def split: option.splits)
  have "strip_prefix (doc_key coll i) (coll @ '':'') = Some i"
    by (simp add: doc_key_def strip_prefix_def starts_with_def)
  then show ?thesis
    using assms(2) [OF k] unfolding ids by (force simp: List.map_filter_def)
qed

lemma put_typed_listed:
  assumes "store_laws env" and "kept_document env (to_map m)" and "json_get ''value'' (to_map m) = None"
    and "n_cipher nd = None" and put: "put_typed env nonce coll ident to_map (Some m) nd = (Inr (), nd')"
    and "\<And>t. text_of (ne_serde env) t (to_map m) \<Longrightarrow> of_json (ident m) t = Some m"
    and got: "get_typed env coll of_json (\<lambda>_. nd') = Inr ms"
  shows "m \<in> set ms"
proof -
  obtain ids where ids: "list_documents env coll nd' = Inr ids"
    and each: "get_each env coll of_json (\<lambda>_. nd') 1 ids = Inr ms"
    using got by (auto simp: get_typed_def split: sum.splits)
  obtain t where "write_document env nonce coll (ident m) t Upsert nd = (Inr (), nd')"
    using put_typed_Inr [OF put] by auto
  then obtain doc s where "ne_put env (doc_key coll (ident m)) doc s = (True, n_store nd')"
    using write_Inr by metis
  moreover have "starts_with (doc_key coll (ident m)) (coll @ '':'')"
    by (simp add: starts_with_def doc_key_def)
  ultimately have "ident m \<in> set ids"
    using assms(1) unfolding store_laws_def by (intro listed_document [OF ids]) blast
  then obtain found where found: "get_document env coll (ident m) nd' = Inr found"
    "\<forall>t m'. found = Some t \<and> of_json (ident m) t = Some m' \<longrightarrow> m' \<in> set ms"
    using get_each_Inr [OF each] by blast
  then show ?thesis
    using put_typed_read [where to_map = to_map and m = m, OF assms(1-4) put] assms(6) by blast
qed


lemma sample_store_laws: "store_laws sample_service_env"
proof -
  have "k \<in> fst ` set (AList.update k d s)" for k :: string and d :: "(int + int) json" and s
    using dom_update [of k d s] by simp
  then show ?thesis
    by (auto simp: store_laws_def sample_service_env_def map_of_AList_update)
qed

lemma sample_kept: "kept_document sample_service_env (node_to_map sample_numbers sample_node_message)"
  by (auto simp: kept_document_def sample_service_env_def sample_documents_def text_of_def same_fields_def split: if_splits)


section \<open>What a subscriber receives\<close>

lemma snapshot_frame_passes:
  assumes "coll \<in> set colls" and "ev \<in> set (snapshot_frame env ops m coll nd i)"
  shows "event_passes (ne_serde env) ops colls m (ce_collection ev) (ce_json ev) \<and> ce_type ev = UpsertChange"
  using assms
  by (auto simp: snapshot_frame_def upsert_change_def event_passes_def split: sum.splits option.splits if_splits)

lemma snapshot_docs_passes:
  "coll \<in> set colls \<Longrightarrow> ev \<in> set (snapshot_docs env ops m coll view k ids) \<Longrightarrow>
    event_passes (ne_serde env) ops colls m (ce_collection ev) (ce_json ev)"
  by (induction ids arbitrary: k) (auto dest: snapshot_frame_passes)

lemma subscribe_snapshot_passes:
  "subscribe_snapshot env ops m view k cs = Inr evs \<Longrightarrow> set cs \<subseteq> set colls \<Longrightarrow> ev \<in> set evs \<Longrightarrow>
    event_passes (ne_serde env) ops colls m (ce_collection ev) (ce_json ev)"
  by (induction cs arbitrary: k evs) (auto split: sum.splits dest: snapshot_docs_passes)

lemma subscribe_live_set:
  "ev \<in> set (subscribe_live sd ops colls m received) \<longleftrightarrow>
    Some ev \<in> set received \<and> event_passes sd ops colls m (ce_collection ev) (ce_json ev)"
  by (induction received) (auto simp: subscribe_live_def List.map_filter_def split: option.splits)

lemma snapshot_docs_complete:
  "i \<in> set ids \<Longrightarrow> (\<And>j. upsert_change coll i json \<in> set (snapshot_frame env ops m coll (view j) i)) \<Longrightarrow>
    upsert_change coll i json \<in> set (snapshot_docs env ops m coll view k ids)"
  by (induction ids arbitrary: k) auto

lemma subscribe_snapshot_complete:
  assumes "\<And>j ids. list_documents env coll (view j) = Inr ids \<Longrightarrow> i \<in> set ids"
    and "\<And>j. upsert_change coll i json \<in> set (snapshot_frame env ops m coll (view j) i)"
  shows "subscribe_snapshot env ops m view k cs = Inr evs \<Longrightarrow> coll \<in> set cs \<Longrightarrow> upsert_change coll i json \<in> set evs"
proof (induction cs arbitrary: k evs)
  case (Cons c cs)
  obtain ids rest where "list_documents env c (view k) = Inr ids"
    and "subscribe_snapshot env ops m view (Suc k + length ids) cs = Inr rest"
    and "evs = snapshot_docs env ops m c view (Suc k) ids @ rest"
    using Cons.prems(1) by (auto split: sum.splits)
  then show ?case
    using Cons.IH Cons.prems(2) assms(1) snapshot_docs_complete [OF _ assms(2)] by (cases "c = coll") auto
qed simp



section \<open>Collection configurations\<close>

lemma entry_round_trip: "proto_config_to_entry (entry_to_proto_config e) = e"
  by (cases "cf_deletion_policy e") (simp_all add: proto_config_to_entry_def entry_to_proto_config_def)

text \<open>An entry set is the entry read, with an unspecified or unknown policy turned into soft deletion.\<close>

definition normal_policy :: "proto_config \<Rightarrow> proto_config" where
  "normal_policy c = (if px_deletion_policy c \<in> {2, 3, 4} then c else c\<lparr>px_deletion_policy := 1\<rparr>)"

lemma proto_round_trip: "entry_to_proto_config (proto_config_to_entry c) = normal_policy c"
  by (cases c) (auto simp: proto_config_to_entry_def entry_to_proto_config_def normal_policy_def)

lemma set_collection_config_accepts:
  "set_collection_config render w (Some c) cs = (Inr (), cs') \<longleftrightarrow>
     px_collection c \<noteq> [] \<and> w = WriteDone
   \<and> (\<exists>json. render (AList.update (px_collection c) (proto_config_to_entry c) (cs_configs cs)) = Some json
        \<and> cs' = cs\<lparr>cs_configs := AList.update (px_collection c) (proto_config_to_entry c) (cs_configs cs), cs_file := Some json\<rparr>)"
  by (auto simp: set_collection_config_def set_config_def Let_def proto_config_to_entry_def
      split: option.splits file_write.splits if_splits)

text \<open>
  C26: An accepted collection configuration is read back and survives a restart.  When the call
  succeeds, the collection has the configuration that was sent, its policy made explicit, every
  other collection keeps its own, and a node that starts from the file answers every request for
  a configuration as the running node does.
\<close>

theorem collection_config_durable:
  assumes "\<And>m s. render m = Some s \<Longrightarrow> \<exists>m'. parse s = Some m' \<and> map_of m' = map_of m"
    and "set_collection_config render w (Some c) cs = (Inr (), cs')"
  shows "get_collection_config coll cs' =
      (if coll = px_collection c then Some (normal_policy c) else get_collection_config coll cs)
    \<and> get_collection_config coll (cs'\<lparr>cs_configs := load_configs parse (cs_file cs')\<rparr>) = get_collection_config coll cs'"
proof -
  let ?m = "AList.update (px_collection c) (proto_config_to_entry c) (cs_configs cs)"
  obtain json where json: "render ?m = Some json" and cs': "cs' = cs\<lparr>cs_configs := ?m, cs_file := Some json\<rparr>"
    using assms(2) unfolding set_collection_config_accepts by blast
  obtain m' where "parse json = Some m'" and "map_of m' = map_of ?m"
    using assms(1) [OF json] by blast
  then show ?thesis
    by (simp add: cs' get_collection_config_def get_config_def load_configs_def map_of_AList_update proto_round_trip)
qed

theorem collection_config_durable_witness:
  "get_collection_config ''tracks''
     (snd (set_collection_config (\<lambda>m. if m = [(''tracks'', \<lparr>cf_collection = ''tracks'', cf_deletion_policy = SoftDelete,
         cf_soft_delete_ttl_secs = Some 60, cf_tombstone_ttl_secs = None\<rparr>)] then Some ''j'' else None) WriteDone
       (Some \<lparr>px_collection = ''tracks'', px_deletion_policy = 9, px_soft_delete_ttl_secs = Some 60, px_tombstone_ttl_secs = None\<rparr>)
       \<lparr>cs_configs = [], cs_file = None\<rparr>))
   = Some \<lparr>px_collection = ''tracks'', px_deletion_policy = 1, px_soft_delete_ttl_secs = Some 60, px_tombstone_ttl_secs = None\<rparr>"
proof -
  let ?e = "\<lparr>cf_collection = ''tracks'', cf_deletion_policy = SoftDelete, cf_soft_delete_ttl_secs = Some 60,
    cf_tombstone_ttl_secs = None\<rparr> :: collection_config_entry"
  let ?c = "\<lparr>px_collection = ''tracks'', px_deletion_policy = 9, px_soft_delete_ttl_secs = Some 60,
    px_tombstone_ttl_secs = None\<rparr> :: proto_config"
  let ?render = "\<lambda>m. if m = [(''tracks'', ?e)] then Some ''j'' else None"
  have run: "set_collection_config ?render WriteDone (Some ?c) \<lparr>cs_configs = [], cs_file = None\<rparr>
      = (Inr (), \<lparr>cs_configs = [(''tracks'', ?e)], cs_file = Some ''j''\<rparr>)"
    by (simp add: set_collection_config_def set_config_def proto_config_to_entry_def)
  have law: "\<exists>m'. (if s = ''j'' then Some [(''tracks'', ?e)] else None) = Some m' \<and> map_of m' = map_of m"
    if "?render m = Some s" for m s
    using that by (auto split: if_splits)
  show ?thesis
    using collection_config_durable [of ?render "\<lambda>s. if s = ''j'' then Some [(''tracks'', ?e)] else None", OF law run, of "''tracks''"]
    unfolding run by (simp add: normal_policy_def)
qed

text \<open>
  A failed write is not undone.  The call returns an error, yet the running node answers with the
  new configuration; and if the write left a file that does not parse, the next start has none
  of the configurations at all.
\<close>

lemma failed_config_write:
  assumes "px_collection c \<noteq> []" and "render (AList.update (px_collection c) (proto_config_to_entry c) (cs_configs cs)) = Some json"
    and "set_collection_config render (WriteFails left) (Some c) cs = (r, cs')"
  shows "r = Inl CodeInternal" and "get_collection_config (px_collection c) cs' = Some (normal_policy c)"
    and "left = Some torn \<Longrightarrow> parse torn = None \<Longrightarrow> load_configs parse (cs_file cs') = []"
proof -
  have "cf_collection (proto_config_to_entry c) = px_collection c"
    by (simp add: proto_config_to_entry_def)
  then show "r = Inl CodeInternal" and "get_collection_config (px_collection c) cs' = Some (normal_policy c)"
    and "left = Some torn \<Longrightarrow> parse torn = None \<Longrightarrow> load_configs parse (cs_file cs') = []"
    using assms by (auto simp: set_collection_config_def set_config_def Let_def get_collection_config_def get_config_def
        map_of_AList_update proto_round_trip load_configs_def)
qed

text \<open>A float that is not finite is read back as zero.\<close>

lemma non_finite_reads_zero:
  assumes "faithful_numbers nums" and "text_of sd t (node_to_map nums p)" and "\<not> finite_float nums (kn_readiness p)"
  shows "\<exists>q. map_to_node nums sd (kn_id p) t = Some q \<and> kn_readiness q = float_zero nums"
proof -
  obtain w where "from_str sd t = Some w" and "same_fields w (node_to_map nums p)"
    using assms(2) by (auto simp: text_of_def)
  then show ?thesis
    using assms(1,3) by (simp add: map_to_node_def same_fields_jfield node_to_map_def jfield_object read_written)
qed

text \<open>One document that cannot be read fails the listing of its whole collection.\<close>

lemma unreadable_fails_listing:
  "i \<in> set ids \<Longrightarrow> (\<And>j. get_document env coll i (view j) = Inl e) \<Longrightarrow> get_each env coll f view k ids = Inl CodeInternal"
proof (induction ids arbitrary: k)
  case (Cons h ids)
  then show ?case
    by (cases "i = h") (auto split: sum.splits)
qed simp

end
