(* ===== verification/Relay_Fanout.thy ===== *)
theory Relay_Fanout
  imports Peat_Prelude
begin

text \<open>
  The QoS-priority relay queue (\<open>src/src/fanout.rs\<close>).  Pending documents are served highest
  class first, but after eight such pops the oldest entry is served.  The class of a
  collection is decided by the mesh library (parameter \<open>qos\<close>); the ordered set of pending
  entries is a sorted list and the map from document to entry an association list.  The
  lemmas show the queue's invariant, that coalescing never loses a recipient, and that no
  entry waits for more than nine pops per older entry.
\<close>

section \<open>State and operations\<close>

datatype fanout_kind = AllPeers | ExcludeSource string

fun merge :: "fanout_kind \<Rightarrow> fanout_kind \<Rightarrow> fanout_kind" where
  "merge AllPeers _ = AllPeers"
| "merge _ AllPeers = AllPeers"
| "merge (ExcludeSource a) (ExcludeSource b) = (if a = b then ExcludeSource a else AllPeers)"

type_synonym slot = "nat \<times> nat \<times> string"

record fanout =
  fpending :: "slot list"
  fentries :: "(string \<times> nat \<times> nat \<times> fanout_kind) list"
  fnext_seq :: nat
  fdropped :: "nat list"
  fburst :: nat
  fclosed :: bool

definition MAX_PENDING :: nat where
  "MAX_PENDING = 4096"

definition MAX_PRIORITY_BURST :: nat where
  "MAX_PRIORITY_BURST = 8"

definition fanout_new :: fanout where
  "fanout_new =
     \<lparr>fpending = [], fentries = [], fnext_seq = 0, fdropped = replicate 6 0, fburst = 0, fclosed = False\<rparr>"

definition fanout_close :: "fanout \<Rightarrow> fanout" where
  "fanout_close q = q\<lparr>fclosed := True\<rparr>"

definition qos_rank :: "(string \<Rightarrow> nat) \<Rightarrow> string \<Rightarrow> nat" where
  "qos_rank qos doc_key = qos (takeWhile (\<lambda>c. c \<noteq> CHR '':'') doc_key)"

definition drop_count :: "nat \<Rightarrow> nat list \<Rightarrow> nat list" where
  "drop_count r ds = (if r < length ds then ds[r := ds ! r + 1] else ds)"

definition shed :: "slot \<Rightarrow> fanout \<Rightarrow> fanout" where
  "shed v q =
     q\<lparr>fpending := remove1 v (fpending q), fentries := AList.delete (snd (snd v)) (fentries q),
       fdropped := drop_count (fst v) (fdropped q)\<rparr>"

text \<open>The eviction loop; the victim is the last entry in order.  It also returns the victims.\<close>

function evict :: "fanout \<Rightarrow> fanout \<times> string list" where
  "evict q =
     (if length (fpending q) > MAX_PENDING
      then let v = last (fpending q); (q', vs) = evict (shed v q) in (q', snd (snd v) # vs)
      else (q, []))"
  by pat_completeness auto
termination
proof (relation "measure (\<lambda>q. length (fpending q))", goal_cases)
  case (2 q v)
  then have "fpending q \<noteq> []" by auto
  with 2 show ?case by (auto simp: shed_def length_remove1)
qed simp

declare evict.simps [simp del]

definition enqueue :: "(string \<Rightarrow> nat) \<Rightarrow> string \<Rightarrow> fanout_kind \<Rightarrow> fanout \<Rightarrow> fanout \<times> string list" where
  "enqueue qos doc_key k q =
     (case map_of (fentries q) doc_key of
        Some (r, s, k') \<Rightarrow> (q\<lparr>fentries := AList.update doc_key (r, s, merge k' k) (fentries q)\<rparr>, [])
      | None \<Rightarrow>
          let rank = qos_rank qos doc_key; seq = fnext_seq q
          in evict (q\<lparr>fnext_seq := seq + 1, fpending := insort (rank, seq, doc_key) (fpending q),
                     fentries := AList.update doc_key (rank, seq, k) (fentries q)\<rparr>))"

text \<open>The entry with the least sequence number; ties do not occur.\<close>

definition oldest :: "slot list \<Rightarrow> slot" where
  "oldest xs = hd (sort_key (\<lambda>x. fst (snd x)) xs)"

definition pop :: "fanout \<Rightarrow> (string \<times> fanout_kind) option \<times> fanout" where
  "pop q =
     (case fpending q of
        [] \<Rightarrow> (None, q\<lparr>fburst := 0\<rparr>)
      | highest # _ \<Rightarrow>
          let old = oldest (fpending q);
              (key, burst) = (if highest = old then (highest, 0)
                else if fburst q \<ge> MAX_PRIORITY_BURST then (old, 0)
                else (highest, fburst q + 1));
              name = snd (snd key);
              q' = q\<lparr>fburst := burst, fpending := remove1 key (fpending q)\<rparr>
          in case map_of (fentries q') name of
               None \<Rightarrow> (None, q')
             | Some (_, _, k) \<Rightarrow> (Some (name, k), q'\<lparr>fentries := AList.delete name (fentries q')\<rparr>))"

text \<open>The peers one drained entry is sent to, given the connected peers.\<close>

fun fanout_targets :: "string list \<Rightarrow> fanout_kind \<Rightarrow> string list" where
  "fanout_targets peers AllPeers = peers"
| "fanout_targets peers (ExcludeSource s) = filter (\<lambda>p. p \<noteq> s) peers"

lemma oldest_in: "xs \<noteq> [] \<Longrightarrow> oldest xs \<in> set xs"
  unfolding oldest_def by (metis hd_in_set length_0_conv length_sort set_sort)

lemma length_remove1_less: "x \<in> set xs \<Longrightarrow> length (remove1 x xs) < length xs"
  using length_pos_if_in_set [of x xs] by (simp add: length_remove1)

lemma pop_shrinks: "pop q = (Some x, q') \<Longrightarrow> length (fpending q') < length (fpending q)"
  using oldest_in [of "fpending q"] length_remove1_less [of "oldest (fpending q)" "fpending q"]
  by (cases "fpending q") (auto simp: pop_def Let_def split: option.splits if_splits)

text \<open>The rounds of \<open>run\<close> until the queue is empty: what is sent, and to whom.\<close>

function fanout_drain :: "string list \<Rightarrow> fanout \<Rightarrow> (string \<times> string list) list \<times> fanout" where
  "fanout_drain peers q =
     (case pop q of
        (None, q') \<Rightarrow> ([], q')
      | (Some (key, k), q') \<Rightarrow>
          (case fanout_drain peers q' of (sent, q'') \<Rightarrow> ((key, fanout_targets peers k) # sent, q'')))"
  by pat_completeness auto
termination
  by (relation "measure (\<lambda>(peers, q). length (fpending q))") (auto dest: pop_shrinks [OF sym])

declare fanout_drain.simps [simp del]

section \<open>Invariant\<close>

definition fanout_core :: "(string \<Rightarrow> nat) \<Rightarrow> fanout \<Rightarrow> bool" where
  "fanout_core qos q \<longleftrightarrow>
     sorted (fpending q) \<and> distinct (map (fst \<circ> snd) (fpending q))
     \<and> distinct (map fst (fentries q))
     \<and> (\<forall>r s k. (r, s, k) \<in> set (fpending q) \<longleftrightarrow> (\<exists>x. map_of (fentries q) k = Some (r, s, x)))
     \<and> (\<forall>(r, s, k) \<in> set (fpending q). s < fnext_seq q \<and> r = qos_rank qos k)"

definition fanout_inv :: "(string \<Rightarrow> nat) \<Rightarrow> fanout \<Rightarrow> bool" where
  "fanout_inv qos q \<longleftrightarrow>
     fanout_core qos q \<and> length (fpending q) \<le> MAX_PENDING \<and> fburst q \<le> MAX_PRIORITY_BURST"

text \<open>Entries enqueued before sequence number \<open>s\<close>, and the pops an entry may still wait for.\<close>

definition older :: "nat \<Rightarrow> fanout \<Rightarrow> nat" where
  "older s q = length (filter (\<lambda>x. fst (snd x) < s) (fpending q))"

definition wait_bound :: "nat \<Rightarrow> fanout \<Rightarrow> nat" where
  "wait_bound s q = 9 * older s q + (MAX_PRIORITY_BURST - fburst q)"

section \<open>Operation sequences\<close>

datatype fanout_op = Enqueue string fanout_kind | Pop

datatype fanout_out = Served string fanout_kind | Shed string | Idle

fun fanout_exec :: "(string \<Rightarrow> nat) \<Rightarrow> fanout_op list \<Rightarrow> fanout \<Rightarrow> fanout \<times> fanout_out list" where
  "fanout_exec qos [] q = (q, [])"
| "fanout_exec qos (Enqueue key k # ops) q =
     (case enqueue qos key k q of (q', vs) \<Rightarrow>
        (case fanout_exec qos ops q' of (q'', outs) \<Rightarrow> (q'', map Shed vs @ outs)))"
| "fanout_exec qos (Pop # ops) q =
     (case pop q of (r, q') \<Rightarrow>
        (case fanout_exec qos ops q' of (q'', outs) \<Rightarrow>
           (q'', (case r of None \<Rightarrow> Idle | Some (key, k) \<Rightarrow> Served key k) # outs)))"

text \<open>The first output that ends an entry's stay in the queue.\<close>

definition concerns :: "string \<Rightarrow> fanout_out \<Rightarrow> bool" where
  "concerns name x \<longleftrightarrow> (case x of Served n _ \<Rightarrow> n = name | Shed n \<Rightarrow> n = name | Idle \<Rightarrow> False)"

section \<open>The invariant is kept\<close>

lemma core_distinct: "fanout_core qos q \<Longrightarrow> distinct (fpending q)"
  by (auto simp: fanout_core_def distinct_map)

lemma core_seq_unique:
  "fanout_core qos q \<Longrightarrow> x \<in> set (fpending q) \<Longrightarrow> y \<in> set (fpending q)
    \<Longrightarrow> fst (snd x) = fst (snd y) \<Longrightarrow> x = y"
  by (auto simp: fanout_core_def distinct_map inj_on_def)

lemma core_seq_bound: "fanout_core qos q \<Longrightarrow> (r, s, k) \<in> set (fpending q) \<Longrightarrow> s < fnext_seq q"
  unfolding fanout_core_def by fast

lemma core_entry:
  "fanout_core qos q \<Longrightarrow> (r, s, k) \<in> set (fpending q) \<longleftrightarrow> (\<exists>x. map_of (fentries q) k = Some (r, s, x))"
  by (simp add: fanout_core_def)

lemma core_remove:
  assumes core: "fanout_core qos q" and v: "v \<in> set (fpending q)"
  shows "fanout_core qos (q\<lparr>fpending := remove1 v (fpending q), fentries := AList.delete (snd (snd v)) (fentries q)\<rparr>)"
proof -
  obtain r0 s0 k0 where v0: "v = (r0, s0, k0)" by (cases v)
  have set: "set (remove1 v (fpending q)) = set (fpending q) - {v}"
    using core_distinct [OF core] by simp
  have iff: "(r, s, k) \<in> set (fpending q) \<longleftrightarrow> (\<exists>x. map_of (fentries q) k = Some (r, s, x))" for r s k
    using core by (simp add: fanout_core_def)
  have "(r, s, k) \<in> set (fpending q) - {v} \<longleftrightarrow> (\<exists>x. map_of (AList.delete k0 (fentries q)) k = Some (r, s, x))" for r s k
    using iff [of r s k] iff [of r0 s0 k0] v v0 by (auto simp: delete_conv')
  moreover have "distinct (map (fst \<circ> snd) (remove1 v (fpending q)))"
    using core by (auto simp: fanout_core_def distinct_map intro: inj_on_subset dest: notin_set_remove1)
  ultimately show ?thesis
    using core v0 set by (simp add: fanout_core_def sorted_remove1 distinct_delete)
qed

lemma core_frame [simp]:
  "fanout_core qos (q\<lparr>fburst := b\<rparr>) = fanout_core qos q"
  "fanout_core qos (q\<lparr>fdropped := ds\<rparr>) = fanout_core qos q"
  by (simp_all add: fanout_core_def)

lemma core_shed: "fanout_core qos q \<Longrightarrow> v \<in> set (fpending q) \<Longrightarrow> fanout_core qos (shed v q)"
  using core_remove [of qos q v] by (simp add: shed_def fanout_core_def)

lemma core_insert:
  assumes core: "fanout_core qos q" and new: "map_of (fentries q) key = None"
  shows "fanout_core qos (q\<lparr>fnext_seq := fnext_seq q + 1,
    fpending := insort (qos_rank qos key, fnext_seq q, key) (fpending q),
    fentries := AList.update key (qos_rank qos key, fnext_seq q, k) (fentries q)\<rparr>)"
proof -
  have fresh: "fnext_seq q \<notin> (fst \<circ> snd) ` set (fpending q)"
    using core by (auto simp: fanout_core_def)
  have "inj_on (fst \<circ> snd) (insert (qos_rank qos key, fnext_seq q, key) (set (fpending q)))"
    unfolding inj_on_insert using core fresh by (auto simp: fanout_core_def distinct_map)
  moreover have "(qos_rank qos key, fnext_seq q, key) \<notin> set (fpending q)" using fresh by force
  ultimately have "distinct (map (fst \<circ> snd) (insort (qos_rank qos key, fnext_seq q, key) (fpending q)))"
    using core_distinct [OF core] by (simp add: distinct_map distinct_insort set_insort_key)
  then show ?thesis
    using core new
    by (auto simp: fanout_core_def sorted_insort set_insort_key distinct_update map_of_AList_update less_SucI
        split: if_splits)
qed

lemma core_coalesce:
  assumes core: "fanout_core qos q" and old: "map_of (fentries q) key = Some (r, s, k')"
  shows "fanout_core qos (q\<lparr>fentries := AList.update key (r, s, k'') (fentries q)\<rparr>)"
  using assms by (auto simp: fanout_core_def distinct_update map_of_AList_update simp del: map_of_eq_Some_iff)

lemma shed_simps [simp]:
  "fnext_seq (shed v q) = fnext_seq q" "fburst (shed v q) = fburst q"
  "map_of (fentries (shed v q)) = (map_of (fentries q))(snd (snd v) := None)"
  by (simp_all add: shed_def delete_conv')

text \<open>What the eviction loop does: it only sheds, never adds, and ends within the bound.\<close>

lemma evict_spec:
  assumes "fanout_core qos q"
  shows "fanout_core qos (fst (evict q)) \<and> length (fpending (fst (evict q))) \<le> MAX_PENDING
    \<and> set (fpending (fst (evict q))) \<subseteq> set (fpending q)
    \<and> fnext_seq (fst (evict q)) = fnext_seq q \<and> fburst (fst (evict q)) = fburst q
    \<and> (\<forall>r s k. (r, s, k) \<in> set (fpending q) \<longrightarrow> (r, s, k) \<notin> set (fpending (fst (evict q)))
         \<longrightarrow> k \<in> set (snd (evict q)))
    \<and> (\<forall>k. k \<notin> set (snd (evict q)) \<longrightarrow> map_of (fentries (fst (evict q))) k = map_of (fentries q) k)"
  using assms
proof (induction q rule: evict.induct)
  case (1 q)
  show ?case
  proof (cases "length (fpending q) > MAX_PENDING")
    case False
    then show ?thesis using 1 by (simp add: evict.simps)
  next
    case True
    let ?v = "last (fpending q)"
    have mem: "?v \<in> set (fpending q)" using True by (intro last_in_set) auto
    note IH = 1(1) [OF True refl core_shed [OF 1(2) mem]]
    have set: "set (fpending (shed ?v q)) = set (fpending q) - {?v}"
      using core_distinct [OF 1(2)] by (simp add: shed_def)
    have step: "evict q = (fst (evict (shed ?v q)), snd (snd ?v) # snd (evict (shed ?v q)))"
      using True by (subst evict.simps) (simp add: Let_def case_prod_beta)
    show ?thesis
      unfolding step fst_conv snd_conv using IH set by (cases ?v) (auto simp del: map_of_eq_Some_iff)
  qed
qed

lemma oldest_spec:
  assumes "xs \<noteq> []"
  shows "oldest xs \<in> set xs" and "x \<in> set xs \<Longrightarrow> fst (snd (oldest xs)) \<le> fst (snd x)"
proof -
  let ?ys = "sort_key (\<lambda>x. fst (snd x)) xs"
  have ne: "?ys \<noteq> []" using assms by (metis length_0_conv length_sort)
  have set: "set ?ys = set xs" by simp
  show "oldest xs \<in> set xs" using ne set hd_in_set [OF ne] by (simp add: oldest_def)
  have "sorted (map (\<lambda>x. fst (snd x)) ?ys)" by (rule sorted_sort_key)
  moreover assume "x \<in> set xs"
  then have "x \<in> set ?ys" using set by simp
  ultimately show "fst (snd (oldest xs)) \<le> fst (snd x)"
    using ne by (cases ?ys) (auto simp: oldest_def)
qed

lemma pop_empty: "fpending q = [] \<Longrightarrow> pop q = (None, q\<lparr>fburst := 0\<rparr>)"
  by (simp add: pop_def)

text \<open>A pop on a non-empty queue serves the head, or the oldest entry when eight were served before.\<close>

lemma pop_cases:
  assumes core: "fanout_core qos q" and ne: "fpending q \<noteq> []"
  obtains r s name k where "(r, s, name) \<in> set (fpending q)" "map_of (fentries q) name = Some (r, s, k)"
    "(r, s, name) = hd (fpending q) \<or> (r, s, name) = oldest (fpending q)"
    "pop q = (Some (name, k), q\<lparr>fburst := fburst (snd (pop q)),
       fpending := remove1 (r, s, name) (fpending q), fentries := AList.delete name (fentries q)\<rparr>)"
    "fburst (snd (pop q)) = 0 \<and> (r, s, name) = oldest (fpending q)
     \<or> fburst (snd (pop q)) = fburst q + 1 \<and> fburst q < MAX_PRIORITY_BURST"
proof -
  obtain h xs where xs: "fpending q = h # xs" using ne by (cases "fpending q") auto
  let ?o = "oldest (fpending q)"
  define key where "key = (if h = ?o then h else if fburst q \<ge> MAX_PRIORITY_BURST then ?o else h)"
  define b where "b = (if h = ?o then 0 else if fburst q \<ge> MAX_PRIORITY_BURST then 0 else Suc (fburst q))"
  obtain r s name where rsn: "key = (r, s, name)" by (cases key)
  have in_pend: "(r, s, name) \<in> set (fpending q)"
    using oldest_spec(1) [OF ne] xs rsn by (auto simp: key_def split: if_splits)
  then obtain k where k: "map_of (fentries q) name = Some (r, s, k)"
    using core by (auto simp: fanout_core_def simp del: map_of_eq_Some_iff)
  have "pop q = (let (key, burst) = (key, b); name = snd (snd key);
      q' = q\<lparr>fburst := burst, fpending := remove1 key (fpending q)\<rparr>
    in case map_of (fentries q') name of None \<Rightarrow> (None, q')
       | Some (_, _, k) \<Rightarrow> (Some (name, k), q'\<lparr>fentries := AList.delete name (fentries q')\<rparr>))"
    unfolding pop_def xs key_def b_def by (auto simp: Let_def)
  then have pop: "pop q = (Some (name, k), q\<lparr>fburst := b,
      fpending := remove1 (r, s, name) (fpending q), fentries := AList.delete name (fentries q)\<rparr>)"
    using rsn k by (simp add: Let_def)
  show ?thesis
  proof (rule that [OF in_pend k])
    show "(r, s, name) = hd (fpending q) \<or> (r, s, name) = ?o"
      using xs rsn by (auto simp: key_def split: if_splits)
    show "fburst (snd (pop q)) = 0 \<and> (r, s, name) = ?o
      \<or> fburst (snd (pop q)) = fburst q + 1 \<and> fburst q < MAX_PRIORITY_BURST"
      unfolding pop using rsn by (auto simp: key_def b_def split: if_splits)
  qed (use pop in simp)
qed

lemma pop_inv: "fanout_inv qos q \<Longrightarrow> fanout_inv qos (snd (pop q))"
proof -
  assume inv: "fanout_inv qos q"
  then have core: "fanout_core qos q" by (simp add: fanout_inv_def)
  show ?thesis
  proof (cases "fpending q = []")
    case True
    then show ?thesis using inv by (simp add: pop_empty fanout_inv_def)
  next
    case False
    from core False show ?thesis
    proof (cases rule: pop_cases)
      case (1 r s name k)
      have "fanout_core qos (snd (pop q))"
        by (subst 1(4)) (use core_remove [OF core 1(1)] in \<open>simp add: fanout_core_def\<close>)
      moreover have "fburst (snd (pop q)) \<le> MAX_PRIORITY_BURST" using 1(5) by auto
      moreover have "length (fpending (snd (pop q))) \<le> MAX_PENDING"
        by (subst 1(4)) (use inv in \<open>auto simp: fanout_inv_def length_remove1\<close>)
      ultimately show ?thesis by (simp add: fanout_inv_def)
    qed
  qed
qed

text \<open>An enqueue keeps or sheds what was pending, and adds nothing older.\<close>

lemma older_mono:
  assumes "distinct (fpending q)" "distinct (fpending q')"
    and "\<And>x. x \<in> set (fpending q') \<Longrightarrow> fst (snd x) < s \<Longrightarrow> x \<in> set (fpending q)"
  shows "older s q' \<le> older s q"
proof -
  have card: "length (filter P xs) = card {x \<in> set xs. P x}" if "distinct xs" for P and xs :: "slot list"
    using that by (metis distinct_card distinct_filter set_filter)
  show ?thesis
    unfolding older_def card [OF assms(1)] card [OF assms(2)] by (rule card_mono) (use assms(3) in auto)
qed

lemma enqueue_new:
  assumes inv: "fanout_inv qos q" and run: "enqueue qos key k q = (q', vs)"
    and new: "map_of (fentries q) key = None"
  shows "fanout_inv qos q' \<and> fburst q' = fburst q \<and> (s < fnext_seq q \<longrightarrow> older s q' \<le> older s q)
      \<and> ((r, s, name) \<in> set (fpending q) \<longrightarrow> (r, s, name) \<in> set (fpending q') \<or> name \<in> set vs)
      \<and> (map_of (fentries q) name = Some (r, s, k0) \<longrightarrow> name \<notin> set vs \<longrightarrow>
         map_of (fentries q') name = Some (r, s, if name = key then merge k0 k else k0))"
proof -
  have core: "fanout_core qos q" using inv by (simp add: fanout_inv_def)
  let ?q = "q\<lparr>fnext_seq := fnext_seq q + 1, fpending := insort (qos_rank qos key, fnext_seq q, key) (fpending q),
    fentries := AList.update key (qos_rank qos key, fnext_seq q, k) (fentries q)\<rparr>"
  have coreq: "fanout_core qos ?q" by (rule core_insert [OF core new])
  note ev = evict_spec [OF coreq]
  have q': "q' = fst (evict ?q)" "vs = snd (evict ?q)" using run new by (simp_all add: enqueue_def Let_def)
  have "older s q' \<le> older s q" if "s < fnext_seq q"
    using ev q' that core_distinct [OF core] core_distinct [of qos q']
    by (intro older_mono) (auto simp: set_insort_key)
  then show ?thesis
    using ev q' inv new by (auto simp: fanout_inv_def set_insort_key map_of_AList_update)
qed

lemma enqueue_coalesce:
  assumes inv: "fanout_inv qos q" and run: "enqueue qos key k q = (q', vs)"
    and old: "map_of (fentries q) key = Some e"
  shows "fanout_inv qos q' \<and> fburst q' = fburst q \<and> (s < fnext_seq q \<longrightarrow> older s q' \<le> older s q)
      \<and> ((r, s, name) \<in> set (fpending q) \<longrightarrow> (r, s, name) \<in> set (fpending q') \<or> name \<in> set vs)
      \<and> (map_of (fentries q) name = Some (r, s, k0) \<longrightarrow> name \<notin> set vs \<longrightarrow>
         map_of (fentries q') name = Some (r, s, if name = key then merge k0 k else k0))"
proof -
  have core: "fanout_core qos q" using inv by (simp add: fanout_inv_def)
  obtain r1 s1 k1 where e: "e = (r1, s1, k1)" by (cases e)
  then have q': "q' = q\<lparr>fentries := AList.update key (r1, s1, merge k1 k) (fentries q)\<rparr>" "vs = []"
    using run old by (simp_all add: enqueue_def)
  then show ?thesis
    using core_coalesce [OF core] old e inv
    by (auto simp: fanout_inv_def older_def map_of_AList_update simp del: map_of_eq_Some_iff)
qed

lemmas enqueue_spec = enqueue_new enqueue_coalesce

text \<open>A pop serves a waiting entry or brings it closer.\<close>

lemma pop_spec:
  assumes inv: "fanout_inv qos q" and mem: "(r, s, name) \<in> set (fpending q)"
  shows "(\<exists>k. fst (pop q) = Some (name, k) \<and> map_of (fentries q) name = Some (r, s, k))
    \<or> (r, s, name) \<in> set (fpending (snd (pop q))) \<and> wait_bound s (snd (pop q)) < wait_bound s q
       \<and> map_of (fentries (snd (pop q))) name = map_of (fentries q) name
       \<and> (\<forall>k. fst (pop q) \<noteq> Some (name, k))"
proof -
  have core: "fanout_core qos q" using inv by (simp add: fanout_inv_def)
  have ne: "fpending q \<noteq> []" using mem by auto
  from core ne show ?thesis
  proof (cases rule: pop_cases)
    case (1 r' s' name' k)
    let ?x = "(r', s', name')"
    show ?thesis
    proof (cases "?x = (r, s, name)")
      case True
      then show ?thesis using 1(2,4) by (metis fst_conv prod.inject)
    next
      case False
      have pend: "fpending (snd (pop q)) = remove1 ?x (fpending q)"
        and ents: "fentries (snd (pop q)) = AList.delete name' (fentries q)"
        and out: "fst (pop q) = Some (name', k)"
        by (subst 1(4), simp)+
      have "s' \<noteq> s" using core_seq_unique [OF core 1(1) mem] False by auto
      have "name' \<noteq> name"
        using core mem 1(2) False by (auto simp: fanout_core_def simp del: map_of_eq_Some_iff)
      have older: "older s (snd (pop q)) = older s q - (if s' < s then 1 else 0)"
        using 1(1) by (simp add: older_def pend filter_remove1 length_remove1)
      have "0 < older s q" if "s' < s"
        using that 1(1) by (auto simp: older_def filter_empty_conv intro!: bexI [of _ ?x])
      moreover have "s' < s" if "?x = oldest (fpending q)"
        using oldest_spec(2) [OF ne mem] that \<open>s' \<noteq> s\<close> by (metis fst_conv le_neq_implies_less snd_conv)
      ultimately have "wait_bound s (snd (pop q)) < wait_bound s q"
        using 1(5) inv older by (auto simp: wait_bound_def fanout_inv_def MAX_PRIORITY_BURST_def)
      moreover have "(r, s, name) \<in> set (remove1 ?x (fpending q))"
        using mem False core_distinct [OF core] by auto
      ultimately show ?thesis
        using pend ents out \<open>name' \<noteq> name\<close> by (auto simp: delete_conv')
    qed
  qed
qed

section \<open>Bounded waiting and coverage\<close>

lemma exec_served:
  "fanout_inv qos q \<Longrightarrow> (r, s, name) \<in> set (fpending q) \<Longrightarrow> fanout_exec qos ops q = (q', outs)
    \<Longrightarrow> wait_bound s q < length (filter (\<lambda>x. x = Pop) ops)
    \<Longrightarrow> (\<exists>k. Served name k \<in> set outs) \<or> Shed name \<in> set outs"
proof (induction qos ops q arbitrary: q' outs rule: fanout_exec.induct)
  case (2 qos key k ops q)
  obtain q1 vs where en: "enqueue qos key k q = (q1, vs)" by fastforce
  obtain q2 outs2 where ex: "fanout_exec qos ops q1 = (q2, outs2)" by fastforce
  have "s < fnext_seq q" using core_seq_bound 2(2,3) by (auto simp: fanout_inv_def)
  then have "wait_bound s q1 \<le> wait_bound s q" and inv1: "fanout_inv qos q1"
    and here: "(r, s, name) \<in> set (fpending q1) \<or> name \<in> set vs"
    using enqueue_spec [OF 2(2) en] 2(3) by (cases "map_of (fentries q) key"; simp add: wait_bound_def)+
  then show ?case
    using 2(1) [OF en [symmetric] inv1 _ ex] 2(4,5) en ex by auto
next
  case (3 qos ops q)
  obtain x q1 where pop: "pop q = (x, q1)" by fastforce
  obtain q2 outs2 where ex: "fanout_exec qos ops q1 = (q2, outs2)" by fastforce
  have inv1: "fanout_inv qos q1" using pop_inv [OF 3(2)] pop by simp
  show ?case
    using pop_spec [OF 3(2,3)] 3(1) [OF pop [symmetric] inv1 _ ex] 3(4,5) pop ex by auto
qed simp

lemma exec_inv: "fanout_inv qos q \<Longrightarrow> fanout_inv qos (fst (fanout_exec qos ops q))"
proof (induction qos ops q rule: fanout_exec.induct)
  case (2 qos key k ops q)
  obtain q1 vs where en: "enqueue qos key k q = (q1, vs)" by fastforce
  have "fanout_inv qos q1" using enqueue_spec [OF 2(2) en] by (cases "map_of (fentries q) key") auto
  then show ?case using 2(1) [OF en [symmetric]] en by (auto split: prod.splits)
next
  case (3 qos ops q)
  obtain x q1 where pop: "pop q = (x, q1)" by fastforce
  have "fanout_inv qos q1" using pop_inv [OF 3(2)] pop by simp
  then show ?case using 3(1) [OF pop [symmetric]] pop by (auto split: prod.splits)
qed simp

text \<open>
  The queue's invariant holds after every sequence of enqueues and pops: the ordered set and the
  map describe the same entries, one per document and in the order of class and arrival, and
  there are never more than 4096.
\<close>

lemma fanout_reachable_inv: "fanout_inv qos (fst (fanout_exec qos ops fanout_new))"
  by (rule exec_inv) (simp add: fanout_inv_def fanout_core_def fanout_new_def)

text \<open>
  C32: No starvation.  Whatever is enqueued meanwhile, an entry with \<open>n\<close> older entries before it is
  served, or shed by the bound, within \<open>9 * (n + 1)\<close> pops.
\<close>

theorem fanout_bounded_wait:
  assumes "fanout_inv qos q" and "(r, s, name) \<in> set (fpending q)"
    and "fanout_exec qos ops q = (q', outs)"
    and "9 * (older s q + 1) \<le> length (filter (\<lambda>x. x = Pop) ops)"
  shows "(\<exists>k. Served name k \<in> set outs) \<or> Shed name \<in> set outs"
  using assms(4) by (intro exec_served [OF assms(1-3)]) (simp add: wait_bound_def MAX_PRIORITY_BURST_def)

theorem fanout_bounded_wait_witness:
  "\<exists>q q' outs. fanout_exec (\<lambda>_. 5) [Enqueue ''a:1'' AllPeers] fanout_new = (q, [])
    \<and> fanout_exec (\<lambda>_. 5) (Enqueue ''b:2'' AllPeers # replicate 9 Pop) q = (q', outs)
    \<and> ((\<exists>k. Served ''a:1'' k \<in> set outs) \<or> Shed ''a:1'' \<in> set outs)"
proof -
  obtain q where run: "fanout_exec (\<lambda>_. 5) [Enqueue ''a:1'' AllPeers] fanout_new = (q, [])"
    and q: "fpending q = [(5, 0, ''a:1'')]"
    by (simp add: enqueue_def fanout_new_def evict.simps MAX_PENDING_def qos_rank_def)
  have inv: "fanout_inv (\<lambda>_. 5) q"
    using exec_inv [of "\<lambda>_. 5" fanout_new "[Enqueue ''a:1'' AllPeers]"] run
    by (simp add: fanout_inv_def fanout_core_def fanout_new_def)
  obtain q' outs where ex: "fanout_exec (\<lambda>_. 5) (Enqueue ''b:2'' AllPeers # replicate 9 Pop) q = (q', outs)"
    by (metis surj_pair)
  have "(\<exists>k. Served ''a:1'' k \<in> set outs) \<or> Shed ''a:1'' \<in> set outs"
    by (rule fanout_bounded_wait [OF inv _ ex, of 5 0]) (simp_all add: q older_def)
  with run ex show ?thesis by blast
qed

lemma merge_covers:
  "set (fanout_targets peers a) \<subseteq> set (fanout_targets peers (merge a b))"
  "set (fanout_targets peers b) \<subseteq> set (fanout_targets peers (merge a b))"
  by (cases a; cases b; auto)+

lemma find_shed: "name \<in> set vs \<Longrightarrow> find (concerns name) (map Shed vs @ outs) = Some (Shed name)"
  by (induction vs) (auto simp: concerns_def)

lemma find_not_shed: "name \<notin> set vs \<Longrightarrow> find (concerns name) (map Shed vs @ outs) = find (concerns name) outs"
  by (induction vs) (auto simp: concerns_def)

lemma exec_covers:
  "fanout_inv qos q \<Longrightarrow> map_of (fentries q) name = Some (r, s, k) \<Longrightarrow> fanout_exec qos ops q = (q', outs)
    \<Longrightarrow> find (concerns name) outs = Some (Served name k')
    \<Longrightarrow> set (fanout_targets peers k) \<subseteq> set (fanout_targets peers k')"
proof (induction qos ops q arbitrary: k q' outs rule: fanout_exec.induct)
  case (2 qos key k2 ops q)
  obtain q1 vs where en: "enqueue qos key k2 q = (q1, vs)" by fastforce
  obtain q2 outs2 where ex: "fanout_exec qos ops q1 = (q2, outs2)" by fastforce
  have outs: "outs = map Shed vs @ outs2" using 2(4) en ex by simp
  then have nin: "name \<notin> set vs" using 2(5) find_shed [of name vs outs2] by auto
  then have "find (concerns name) outs2 = Some (Served name k')" using 2(5) outs find_not_shed by simp
  moreover from enqueue_spec [OF 2(2) en] 2(3) nin
  have "fanout_inv qos q1" "map_of (fentries q1) name = Some (r, s, if name = key then merge k k2 else k)"
    by (cases "map_of (fentries q) key"; auto simp del: map_of_eq_Some_iff)+
  ultimately have "set (fanout_targets peers (if name = key then merge k k2 else k)) \<subseteq> set (fanout_targets peers k')"
    using 2(1) [OF en [symmetric] _ _ ex] by blast
  then show ?case using merge_covers(1) [of peers k k2] by (auto split: if_splits)
next
  case (3 qos ops q)
  obtain x q1 where pop: "pop q = (x, q1)" by fastforce
  obtain q2 outs2 where ex: "fanout_exec qos ops q1 = (q2, outs2)" by fastforce
  have inv1: "fanout_inv qos q1" using pop_inv [OF 3(2)] pop by simp
  have mem: "(r, s, name) \<in> set (fpending q)"
    using 3(2,3) core_entry [of qos q r s name] by (auto simp: fanout_inv_def)
  show ?case
    using pop_spec [OF 3(2) mem] 3(1) [OF pop [symmetric] inv1 _ ex] 3(3-5) pop ex
    by (auto simp: concerns_def split: option.splits if_splits simp del: map_of_eq_Some_iff)
qed simp

lemma enqueue_stores:
  assumes inv: "fanout_inv qos q" and run: "enqueue qos name k q = (q', vs)" and "name \<notin> set vs"
  shows "\<exists>r s k'. map_of (fentries q') name = Some (r, s, k')
    \<and> set (fanout_targets peers k) \<subseteq> set (fanout_targets peers k')"
proof (cases "map_of (fentries q) name")
  case None
  let ?q = "q\<lparr>fnext_seq := fnext_seq q + 1, fpending := insort (qos_rank qos name, fnext_seq q, name) (fpending q),
    fentries := AList.update name (qos_rank qos name, fnext_seq q, k) (fentries q)\<rparr>"
  have "fanout_core qos ?q" using core_insert [OF _ None] inv by (simp add: fanout_inv_def)
  moreover have "q' = fst (evict ?q)" "vs = snd (evict ?q)" using run None by (simp_all add: enqueue_def Let_def)
  ultimately have "map_of (fentries q') name = Some (qos_rank qos name, fnext_seq q, k)"
    using evict_spec [of qos ?q] assms(3) by (simp add: map_of_AList_update)
  then show ?thesis by blast
next
  case (Some e)
  then show ?thesis
    using run merge_covers(2) [of peers k] by (cases e) (auto simp: enqueue_def map_of_AList_update)
qed

text \<open>
  Coalescing never loses a recipient.  When a change has been enqueued and its document is next
  served (and not shed before), every connected peer the change was meant for is among the
  peers the document is sent to, whatever else was enqueued in between.
\<close>

lemma fanout_recipients_covered:
  assumes "fanout_inv qos q" and "fanout_exec qos (Enqueue name k # ops) q = (q', outs)"
    and "find (concerns name) outs = Some (Served name k')"
  shows "set (fanout_targets peers k) \<subseteq> set (fanout_targets peers k')"
proof -
  obtain q1 vs where en: "enqueue qos name k q = (q1, vs)" by fastforce
  obtain q2 outs2 where ex: "fanout_exec qos ops q1 = (q2, outs2)" by fastforce
  have outs: "outs = map Shed vs @ outs2" using assms(2) en ex by simp
  then have nin: "name \<notin> set vs" using assms(3) find_shed [of name vs outs2] by auto
  have inv1: "fanout_inv qos q1"
    using enqueue_spec [OF assms(1) en] by (cases "map_of (fentries q) name") auto
  obtain r s k1 where "map_of (fentries q1) name = Some (r, s, k1)"
    and sub: "set (fanout_targets peers k) \<subseteq> set (fanout_targets peers k1)"
    using enqueue_stores [OF assms(1) en nin] by blast
  then have "set (fanout_targets peers k1) \<subseteq> set (fanout_targets peers k')"
    using exec_covers [OF inv1 _ ex] assms(3) outs find_not_shed [OF nin] by metis
  with sub show ?thesis by blast
qed

lemma fanout_recipients_covered_witness:
  "\<exists>q outs. fanout_exec (\<lambda>_. 5) [Enqueue ''a:1'' (ExcludeSource ''p''), Enqueue ''a:1'' (ExcludeSource ''q''), Pop]
      fanout_new = (q, outs) \<and> find (concerns ''a:1'') outs = Some (Served ''a:1'' AllPeers)
    \<and> set (fanout_targets [''p'', ''q'', ''r''] (ExcludeSource ''p'')) \<subseteq> set (fanout_targets [''p'', ''q'', ''r''] AllPeers)"
proof -
  let ?ops = "[Enqueue ''a:1'' (ExcludeSource ''q''), Pop]"
  obtain q outs where ex: "fanout_exec (\<lambda>_. 5) (Enqueue ''a:1'' (ExcludeSource ''p'') # ?ops) fanout_new = (q, outs)"
    and found: "find (concerns ''a:1'') outs = Some (Served ''a:1'' AllPeers)"
    by (simp add: enqueue_def fanout_new_def evict.simps MAX_PENDING_def qos_rank_def pop_def oldest_def
        concerns_def)
  have "fanout_inv (\<lambda>_. 5) fanout_new" by (simp add: fanout_inv_def fanout_core_def fanout_new_def)
  from fanout_recipients_covered [OF this ex found] ex found show ?thesis by blast
qed

text \<open>
  Draining.  From any reachable queue the worker's loop ends with the queue empty, having sent
  every pending document exactly once, to the peers its entry asks for.
\<close>

lemma fanout_drain_complete:
  assumes "fanout_inv qos q" and "fanout_drain peers q = (sent, q')"
  shows "fpending q' = [] \<and> distinct (map fst sent)
    \<and> set sent = {(k, fanout_targets peers x) | k r s x. map_of (fentries q) k = Some (r, s, x)}"
  using assms
proof (induction peers q arbitrary: sent q' rule: fanout_drain.induct)
  case (1 peers q)
  have core: "fanout_core qos q" using 1(2) by (simp add: fanout_inv_def)
  show ?case
  proof (cases "fpending q = []")
    case True
    then have "map_of (fentries q) k \<noteq> Some (r, s, x)" for k r s x using core_entry [OF core, of r s k] by auto
    then show ?thesis using 1(3) True by (auto simp: fanout_drain.simps pop_empty)
  next
    case False
    from core False obtain r s name k where "map_of (fentries q) name = Some (r, s, k)"
      and pop: "pop q = (Some (name, k), q\<lparr>fburst := fburst (snd (pop q)),
        fpending := remove1 (r, s, name) (fpending q), fentries := AList.delete name (fentries q)\<rparr>)"
      by (rule pop_cases)
    moreover have "fst (pop q) = Some (name, k)" "fentries (snd (pop q)) = AList.delete name (fentries q)"
      by (subst pop, simp)+
    ultimately have x: "map_of (fentries q) name = Some (r, s, k)" "fst (pop q) = Some (name, k)"
      "fentries (snd (pop q)) = AList.delete name (fentries q)" by blast+
    obtain sent1 q1 where rest: "fanout_drain peers (snd (pop q)) = (sent1, q1)" by fastforce
    have step: "sent = (name, fanout_targets peers k) # sent1" "q' = q1"
      using 1(3) x(2) rest by (cases "pop q"; simp add: fanout_drain.simps)+
    have "pop q = (Some (name, k), snd (pop q))" using x(2) by (cases "pop q") simp
    from 1(1) [OF this [symmetric] refl refl pop_inv [OF 1(2)] rest]
    have IH: "fpending q1 = []" "distinct (map fst sent1)" "set sent1 =
        {(k, fanout_targets peers x) | k r s x. map_of (fentries (snd (pop q))) k = Some (r, s, x)}"
      by simp_all
    have others: "set sent1 =
        {(k, fanout_targets peers x) | k r s x. k \<noteq> name \<and> map_of (fentries q) k = Some (r, s, x)}"
      unfolding IH(3) x(3) by (auto simp: delete_conv')
    then have "name \<notin> set (map fst sent1)" by auto
    moreover have "{(k, fanout_targets peers x) | k r s x. map_of (fentries q) k = Some (r, s, x)}
        = insert (name, fanout_targets peers k) (set sent1)"
      unfolding others using x(1) by force
    ultimately show ?thesis using IH(1,2) step by simp
  qed
qed

lemma fanout_drain_complete_witness:
  "\<exists>q sent q'. fanout_exec (\<lambda>_. 5) [Enqueue ''a:1'' (ExcludeSource ''p'')] fanout_new = (q, [])
    \<and> fanout_drain [''p'', ''r''] q = (sent, q') \<and> fpending q' = [] \<and> set sent = {(''a:1'', [''r''])}"
proof -
  obtain q where run: "fanout_exec (\<lambda>_. 5) [Enqueue ''a:1'' (ExcludeSource ''p'')] fanout_new = (q, [])"
    and q: "fentries q = [(''a:1'', 5, 0, ExcludeSource ''p'')]"
    by (simp add: enqueue_def fanout_new_def evict.simps MAX_PENDING_def qos_rank_def)
  have inv: "fanout_inv (\<lambda>_. 5) q"
    using exec_inv [of "\<lambda>_. 5" fanout_new "[Enqueue ''a:1'' (ExcludeSource ''p'')]"] run
    by (simp add: fanout_inv_def fanout_core_def fanout_new_def)
  obtain sent q' where d: "fanout_drain [''p'', ''r''] q = (sent, q')" by fastforce
  from fanout_drain_complete [OF inv d] q have "fpending q' = []" "set sent = {(''a:1'', [''r''])}"
    by (auto split: if_splits)
  with run d show ?thesis by blast
qed

end
