(* ===== verification/Rate_Limit.thy ===== *)
theory Rate_Limit
  imports Peat_Prelude
begin

text \<open>
  The warning limiter that the ingress, egress and node-change diagnostics share: a bucket
  remembers when it may next emit and how many events it has swallowed since.  The behaviour
  of one bucket is proved once; the locale \<open>rate_limiter\<close> says what a component with many
  buckets promises, and carries the result over to each of its keys.
\<close>

section \<open>One bucket\<close>

record warning_bucket =
  next_emit :: "nat option"
  suppressed :: u64

definition empty_bucket :: warning_bucket where
  "empty_bucket = \<lparr>next_emit = None, suppressed = 0\<rparr>"

text \<open>Times are milliseconds; the result is the suppressed count to emit, if any.\<close>

definition bucket_record :: "nat \<Rightarrow> nat \<Rightarrow> warning_bucket \<Rightarrow> u64 option \<times> warning_bucket" where
  "bucket_record interval now b =
     (if (case next_emit b of None \<Rightarrow> False | Some deadline \<Rightarrow> now < deadline)
      then (None, b\<lparr>suppressed := sat_add (suppressed b) 1\<rparr>)
      else (Some (suppressed b), \<lparr>next_emit = Some (now + interval), suppressed = 0\<rparr>))"

fun bucket_run :: "nat \<Rightarrow> nat list \<Rightarrow> warning_bucket \<Rightarrow> (nat \<times> u64) list \<times> warning_bucket" where
  "bucket_run interval [] b = ([], b)"
| "bucket_run interval (t # ts) b =
     (case bucket_record interval t b of (x, b') \<Rightarrow>
        (case bucket_run interval ts b' of (es, b'') \<Rightarrow>
           ((case x of None \<Rightarrow> [] | Some n \<Rightarrow> [(t, n)]) @ es, b'')))"

lemma bucket_run_spaced:
  "sorted ts \<Longrightarrow> bucket_run interval ts b = (es, b') \<Longrightarrow>
     sorted_wrt (\<lambda>x y. fst x + interval \<le> fst y) es
     \<and> (\<forall>x\<in>set es. fst x \<in> set ts \<and> (\<forall>dl. next_emit b = Some dl \<longrightarrow> dl \<le> fst x))"
proof (induction ts arbitrary: b es b')
  case (Cons t ts)
  obtain x b1 where one: "bucket_record interval t b = (x, b1)" by fastforce
  obtain es1 b2 where rest: "bucket_run interval ts b1 = (es1, b2)" by fastforce
  have es: "es = (case x of None \<Rightarrow> [] | Some n \<Rightarrow> [(t, n)]) @ es1" using Cons.prems(2) one rest by simp
  have IH: "sorted_wrt (\<lambda>x y. fst x + interval \<le> fst y) es1"
    "\<forall>x\<in>set es1. fst x \<in> set ts \<and> (\<forall>dl. next_emit b1 = Some dl \<longrightarrow> dl \<le> fst x)"
    using Cons.IH [OF _ rest] Cons.prems(1) by simp_all
  show ?case
  proof (cases x)
    case None
    then have "next_emit b1 = next_emit b" using one by (auto simp: bucket_record_def split: if_splits)
    then show ?thesis using IH es None by auto
  next
    case (Some n)
    then have "next_emit b1 = Some (t + interval)" and "\<forall>dl. next_emit b = Some dl \<longrightarrow> dl \<le> t"
      using one by (auto simp: bucket_record_def split: if_splits option.splits)
    then show ?thesis using IH es Some Cons.prems(1) by (fastforce simp: less_imp_le)
  qed
qed simp

lemma bucket_run_counts:
  "bucket_run interval ts b = (es, b') \<Longrightarrow> unat (suppressed b) + length ts < 2 ^ 64 \<Longrightarrow>
     unat (suppressed b) + length ts = length es + sum_list (map (unat \<circ> snd) es) + unat (suppressed b')"
proof (induction ts arbitrary: b es b')
  case (Cons t ts)
  obtain x b1 where one: "bucket_record interval t b = (x, b1)" by fastforce
  obtain es1 b2 where rest: "bucket_run interval ts b1 = (es1, b2)" by fastforce
  have es: "es = (case x of None \<Rightarrow> [] | Some n \<Rightarrow> [(t, n)]) @ es1" "b' = b2"
    using Cons.prems(1) one rest by simp_all
  have "unat (suppressed b) + 1 = (case x of None \<Rightarrow> 0 | Some n \<Rightarrow> 1 + unat n) + unat (suppressed b1)"
    using one Cons.prems(2) by (auto simp: bucket_record_def unat_sat_add split: if_splits)
  moreover have "unat (suppressed b1) + length ts < 2 ^ 64"
    using calculation Cons.prems(2) by (cases x) auto
  ultimately show ?case using Cons.IH [OF rest] es by (cases x) auto
qed simp

section \<open>Many buckets\<close>

text \<open>Emissions, with their times, of one key in a sequence of events.\<close>

fun limiter_run ::
  "('k \<Rightarrow> nat \<Rightarrow> 's \<Rightarrow> u64 option \<times> 's) \<Rightarrow> 'k \<Rightarrow> ('k \<times> nat) list \<Rightarrow> 's \<Rightarrow> (nat \<times> u64) list \<times> 's" where
  "limiter_run rec k [] s = ([], s)"
| "limiter_run rec k ((k', t) # evs) s =
     (case rec k' t s of (x, s') \<Rightarrow>
        (case limiter_run rec k evs s' of (es, s'') \<Rightarrow>
           ((case x of None \<Rightarrow> [] | Some n \<Rightarrow> if k' = k then [(t, n)] else []) @ es, s'')))"

definition key_times :: "'k \<Rightarrow> ('k \<times> nat) list \<Rightarrow> nat list" where
  "key_times k evs = map snd (filter (\<lambda>e. fst e = k) evs)"

locale rate_limiter =
  fixes interval :: nat
    and rec :: "'k \<Rightarrow> nat \<Rightarrow> 's \<Rightarrow> u64 option \<times> 's"
    and bucket :: "'s \<Rightarrow> 'k \<Rightarrow> warning_bucket option"
  assumes rec_own: "bucket s k = Some b \<Longrightarrow> fst (rec k t s) = fst (bucket_record interval t b)
      \<and> bucket (snd (rec k t s)) k = Some (snd (bucket_record interval t b))"
    and rec_other: "k' \<noteq> k \<Longrightarrow> bucket (snd (rec k' t s)) k = bucket s k"
begin

lemma limiter_project:
  "bucket s k = Some b \<Longrightarrow> fst (limiter_run rec k evs s) = fst (bucket_run interval (key_times k evs) b)
    \<and> bucket (snd (limiter_run rec k evs s)) k = Some (snd (bucket_run interval (key_times k evs) b))"
proof (induction evs arbitrary: s b)
  case (Cons ev evs)
  obtain k' t where ev: "ev = (k', t)" by (cases ev)
  show ?case
  proof (cases "k' = k")
    case True
    then show ?thesis
      using rec_own [OF Cons.prems, of t] Cons.IH [of "snd (rec k t s)"] ev
      by (auto simp: key_times_def split: prod.splits option.split)
  next
    case False
    then show ?thesis
      using rec_other [OF False, of t s] Cons.IH [of "snd (rec k' t s)" b] Cons.prems ev
      by (auto simp: key_times_def split: prod.splits option.splits)
  qed
qed (simp add: key_times_def)

lemma limiter_spaced:
  assumes "bucket s k = Some b" and "sorted (map snd evs)"
  shows "sorted_wrt (\<lambda>x y. fst x + interval \<le> fst y) (fst (limiter_run rec k evs s))"
proof -
  have "sorted (key_times k evs)"
    using assms(2) unfolding key_times_def by (rule sorted_filter)
  then show ?thesis
    using bucket_run_spaced [of "key_times k evs" interval b] limiter_project [OF assms(1), of evs]
    by (metis prod.collapse)
qed

lemma limiter_counts:
  assumes "bucket s k = Some b" and "unat (suppressed b) + length (key_times k evs) < 2 ^ 64"
    and "bucket (snd (limiter_run rec k evs s)) k = Some b'"
  shows "unat (suppressed b) + length (key_times k evs) = length (fst (limiter_run rec k evs s))
    + sum_list (map (unat \<circ> snd) (fst (limiter_run rec k evs s))) + unat (suppressed b')"
  using bucket_run_counts [of interval "key_times k evs" b _ b'] limiter_project [OF assms(1), of evs] assms(2,3)
  by (cases "bucket_run interval (key_times k evs) b") auto

end

end
