(* ===== verification/Bridge_Ingress.thy ===== *)
theory Bridge_Ingress
  imports Rate_Limit Node_Store
begin

text \<open>
  Messages from NATS into the store (\<open>src/src/nats_bridge/envelope.rs\<close> and \<open>ingress.rs\<close>): the
  envelope that keeps the received bytes, the serial processor with its bounded retries,
  counters and log actions, and the limiter for oversized payloads.  The writer is an
  argument, as it is in the code (\<open>BridgeDocumentWriter\<close>); serialising the envelope is the JSON
  library's.  Counters wrap at 64 bits.
\<close>

section \<open>The envelope\<close>

record bridge_envelope =
  be_kind :: string
  be_version :: nat
  be_subject :: string
  be_source_node_id :: string
  be_payload :: string

definition BRIDGE_ENVELOPE_KIND :: string where
  "BRIDGE_ENVELOPE_KIND = ''peat.nats-bridge''"

definition BRIDGE_ENVELOPE_VERSION :: nat where
  "BRIDGE_ENVELOPE_VERSION = 1"

datatype validation_error = InvalidUtf8 | InvalidJson

definition from_payload ::
  "'n serde \<Rightarrow> string \<Rightarrow> string \<Rightarrow> bytes \<Rightarrow> validation_error + bridge_envelope" where
  "from_payload sd subj source_node_id bs =
     (if \<not> utf8_valid bs then Inl InvalidUtf8
      else case from_str sd (of_bytes bs) of
        None \<Rightarrow> Inl InvalidJson
      | Some _ \<Rightarrow> Inr
          \<lparr>be_kind = BRIDGE_ENVELOPE_KIND, be_version = BRIDGE_ENVELOPE_VERSION, be_subject = subj,
           be_source_node_id = source_node_id, be_payload = of_bytes bs\<rparr>)"

section \<open>Counters and actions\<close>

definition INGRESS_QUEUE_CAPACITY :: nat where
  "INGRESS_QUEUE_CAPACITY = 256"

definition MAX_INGRESS_PAYLOAD_BYTES :: nat where
  "MAX_INGRESS_PAYLOAD_BYTES = 1048576"

definition STORE_ATTEMPT_DELAYS :: "nat option list" where
  "STORE_ATTEMPT_DELAYS = [Some 50, Some 200, None]"

definition OVERSIZED_WARNING_INTERVAL :: nat where
  "OVERSIZED_WARNING_INTERVAL = 60000"

record ingress_stats =
  self_suppressed :: u64
  received :: u64
  stored :: u64
  invalid_utf8 :: u64
  invalid_json :: u64
  oversized_payloads :: u64
  final_store_failures :: u64
  slow_consumer_events :: u64

definition record_self_suppressed :: "ingress_stats \<Rightarrow> ingress_stats" where
  "record_self_suppressed s = s\<lparr>self_suppressed := self_suppressed s + 1\<rparr>"

definition record_slow_consumer :: "ingress_stats \<Rightarrow> ingress_stats" where
  "record_slow_consumer s = s\<lparr>slow_consumer_events := slow_consumer_events s + 1\<rparr>"

definition record_oversized_payload :: "ingress_stats \<Rightarrow> ingress_stats" where
  "record_oversized_payload s = s\<lparr>oversized_payloads := oversized_payloads s + 1\<rparr>"

datatype ingress_action_kind =
    OversizedPayloadAction | InvalidOccurrence | InvalidWarning | InvalidSummary | StoreRetry | StoreFailure

datatype ingress_error_kind =
    OversizedPayload | InvalidUtf8Error | InvalidJsonError | InvalidInputSummary | EnvelopeEncoding
  | StoreError write_error

fun error_kind_str :: "ingress_error_kind \<Rightarrow> string" where
  "error_kind_str OversizedPayload = ''oversized_payload''"
| "error_kind_str InvalidUtf8Error = ''invalid_utf8''"
| "error_kind_str InvalidJsonError = ''invalid_json''"
| "error_kind_str InvalidInputSummary = ''invalid_input_summary''"
| "error_kind_str EnvelopeEncoding = ''envelope_encoding''"
| "error_kind_str (StoreError AlreadyExists) = ''already_exists''"
| "error_kind_str (StoreError InvalidInput) = ''invalid_input''"
| "error_kind_str (StoreError Encryption) = ''encryption''"
| "error_kind_str (StoreError Conversion) = ''conversion''"
| "error_kind_str (StoreError StoreRead) = ''store_read''"
| "error_kind_str (StoreError StoreWrite) = ''store_write''"
| "error_kind_str (StoreError LedgerFailed) = ''local_exclusion''"

record ingress_action =
  ia_kind :: ingress_action_kind
  ia_subject :: "string option"
  ia_collection :: "string option"
  ia_payload_bytes :: "nat option"
  ia_document_id :: "string option"
  ia_attempt :: "nat option"
  ia_delay_ms :: "nat option"
  ia_suppressed_count :: "u64 option"
  ia_error_kind :: ingress_error_kind

record ingress_item =
  ii_subject :: string
  ii_collection :: string
  ii_payload :: bytes

definition is_payload_oversized :: "nat \<Rightarrow> bool" where
  "is_payload_oversized payload_bytes \<longleftrightarrow> payload_bytes > MAX_INGRESS_PAYLOAD_BYTES"

definition invalid_action ::
  "ingress_action_kind \<Rightarrow> ingress_item \<Rightarrow> ingress_error_kind \<Rightarrow> u64 option \<Rightarrow> ingress_action" where
  "invalid_action k item e suppressed_count =
     \<lparr>ia_kind = k, ia_subject = Some (ii_subject item), ia_collection = Some (ii_collection item),
      ia_payload_bytes = Some (length (ii_payload item)), ia_document_id = None, ia_attempt = None,
      ia_delay_ms = None, ia_suppressed_count = suppressed_count, ia_error_kind = e\<rparr>"

definition store_action ::
  "ingress_action_kind \<Rightarrow> ingress_item \<Rightarrow> string \<Rightarrow> nat \<Rightarrow> nat option \<Rightarrow> ingress_error_kind \<Rightarrow> ingress_action" where
  "store_action k item doc_id attempt delay e =
     \<lparr>ia_kind = k, ia_subject = Some (ii_subject item), ia_collection = Some (ii_collection item),
      ia_payload_bytes = Some (length (ii_payload item)), ia_document_id = Some doc_id,
      ia_attempt = Some attempt, ia_delay_ms = map_option (\<lambda>d. min d (2 ^ 64 - 1)) delay,
      ia_suppressed_count = None, ia_error_kind = e\<rparr>"

definition is_transient :: "write_error \<Rightarrow> bool" where
  "is_transient e \<longleftrightarrow> e = StoreRead \<or> e = StoreWrite"

section \<open>The processor\<close>

record invalid_warning_state =
  warning_emitted :: bool
  inv_suppressed :: u64

record 'w ingress =
  ig_stats :: ingress_stats
  ig_warnings :: "(string \<times> invalid_warning_state) list"
  ig_actions :: "ingress_action list"
  ig_writer :: 'w

definition emit :: "ingress_action \<Rightarrow> 'w ingress \<Rightarrow> 'w ingress" where
  "emit a st = st\<lparr>ig_actions := ig_actions st @ [a]\<rparr>"

definition record_invalid :: "ingress_item \<Rightarrow> validation_error \<Rightarrow> 'w ingress \<Rightarrow> 'w ingress" where
  "record_invalid item error st =
     (let stats = ig_stats st;
          (stats', e) = (case error of
              InvalidUtf8 \<Rightarrow> (stats\<lparr>invalid_utf8 := invalid_utf8 stats + 1\<rparr>, InvalidUtf8Error)
            | InvalidJson \<Rightarrow> (stats\<lparr>invalid_json := invalid_json stats + 1\<rparr>, InvalidJsonError));
          st' = emit (invalid_action InvalidOccurrence item e None) (st\<lparr>ig_stats := stats'\<rparr>)
      in case map_of (ig_warnings st') (ii_subject item) of
           None \<Rightarrow> st'
         | Some ws \<Rightarrow>
             if warning_emitted ws
             then st'\<lparr>ig_warnings := AList.update (ii_subject item)
                    (ws\<lparr>inv_suppressed := sat_add (inv_suppressed ws) 1\<rparr>) (ig_warnings st')\<rparr>
             else emit (invalid_action InvalidWarning item e None)
                    (st'\<lparr>ig_warnings := AList.update (ii_subject item) (ws\<lparr>warning_emitted := True\<rparr>)
                       (ig_warnings st')\<rparr>))"

text \<open>The retry loop; \<open>attempt\<close> counts from zero.\<close>

fun store_attempts ::
  "(string \<Rightarrow> string \<Rightarrow> string \<Rightarrow> 'w \<Rightarrow> (write_error + unit) \<times> 'w) \<Rightarrow> ingress_item \<Rightarrow> string \<Rightarrow> string
    \<Rightarrow> nat \<Rightarrow> nat option list \<Rightarrow> 'w ingress \<Rightarrow> 'w ingress" where
  "store_attempts create item doc_id js attempt [] st = st"
| "store_attempts create item doc_id js attempt (retry_delay # delays) st =
     (case create (ii_collection item) doc_id js (ig_writer st) of
        (Inr _, w) \<Rightarrow>
          st\<lparr>ig_writer := w, ig_stats := (ig_stats st)\<lparr>stored := stored (ig_stats st) + 1\<rparr>\<rparr>
      | (Inl e, w) \<Rightarrow>
          (case retry_delay of
             Some delay \<Rightarrow>
               if is_transient e
               then store_attempts create item doc_id js (attempt + 1) delays
                      (emit (store_action StoreRetry item doc_id (attempt + 1) (Some delay) (StoreError e))
                        (st\<lparr>ig_writer := w\<rparr>))
               else emit (store_action StoreFailure item doc_id (attempt + 1) None (StoreError e))
                      (st\<lparr>ig_writer := w,
                         ig_stats := (ig_stats st)\<lparr>final_store_failures := final_store_failures (ig_stats st) + 1\<rparr>\<rparr>)
           | None \<Rightarrow>
               emit (store_action StoreFailure item doc_id (attempt + 1) None (StoreError e))
                 (st\<lparr>ig_writer := w,
                    ig_stats := (ig_stats st)\<lparr>final_store_failures := final_store_failures (ig_stats st) + 1\<rparr>\<rparr>)))"

text \<open>\<open>doc_id\<close> is the identifier drawn for the item; \<open>encode\<close> serialises the envelope.\<close>

definition process_item ::
  "'n serde \<Rightarrow> (bridge_envelope \<Rightarrow> string option)
    \<Rightarrow> (string \<Rightarrow> string \<Rightarrow> string \<Rightarrow> 'w \<Rightarrow> (write_error + unit) \<times> 'w)
    \<Rightarrow> string \<Rightarrow> string \<Rightarrow> ingress_item \<Rightarrow> 'w ingress \<Rightarrow> 'w ingress" where
  "process_item sd encode create source_node_id doc_id item st =
     (let st' = st\<lparr>ig_stats := (ig_stats st)\<lparr>received := received (ig_stats st) + 1\<rparr>\<rparr>
      in case from_payload sd (ii_subject item) source_node_id (ii_payload item) of
           Inl error \<Rightarrow> record_invalid item error st'
         | Inr envelope \<Rightarrow>
             (case encode envelope of
                None \<Rightarrow> emit (store_action StoreFailure item doc_id 0 None EnvelopeEncoding) st'
              | Some js \<Rightarrow> store_attempts create item doc_id js 0 STORE_ATTEMPT_DELAYS st'))"

definition summary_action :: "string \<Rightarrow> invalid_warning_state \<Rightarrow> ingress_action" where
  "summary_action subj ws =
     \<lparr>ia_kind = InvalidSummary, ia_subject = Some subj, ia_collection = None, ia_payload_bytes = None,
      ia_document_id = None, ia_attempt = None, ia_delay_ms = None,
      ia_suppressed_count = Some (inv_suppressed ws), ia_error_kind = InvalidInputSummary\<rparr>"

definition emit_invalid_summaries :: "'w ingress \<Rightarrow> 'w ingress" where
  "emit_invalid_summaries st =
     st\<lparr>ig_actions := ig_actions st
          @ map (\<lambda>(subj, ws). summary_action subj ws) (filter (\<lambda>(subj, ws). inv_suppressed ws > 0) (ig_warnings st)),
        ig_warnings := map (\<lambda>(subj, ws). (subj, ws\<lparr>warning_emitted := False, inv_suppressed := 0\<rparr>)) (ig_warnings st)\<rparr>"

text \<open>What the select loop takes up next: a message with the identifier drawn for it, or a tick.\<close>

datatype ingress_event = Item ingress_item string | Tick

definition ingress_init :: "string list \<Rightarrow> ingress_stats \<Rightarrow> 'w \<Rightarrow> 'w ingress" where
  "ingress_init subjects stats w =
     \<lparr>ig_stats = stats,
      ig_warnings = map (\<lambda>s. (s, \<lparr>warning_emitted = False, inv_suppressed = 0\<rparr>)) (remdups subjects),
      ig_actions = [], ig_writer = w\<rparr>"

fun run_ingress where
  "run_ingress sd encode create source_node_id [] st = st"
| "run_ingress sd encode create source_node_id (Item item doc_id # evs) st =
     run_ingress sd encode create source_node_id evs
       (process_item sd encode create source_node_id doc_id item st)"
| "run_ingress sd encode create source_node_id (Tick # evs) st =
     run_ingress sd encode create source_node_id evs (emit_invalid_summaries st)"

section \<open>Oversized payloads\<close>

definition diagnostics_new :: "string list \<Rightarrow> (string \<times> warning_bucket) list" where
  "diagnostics_new subjects = map (\<lambda>s. (s, empty_bucket)) (remdups subjects)"

definition record_oversized_at ::
  "string \<Rightarrow> string \<Rightarrow> nat \<Rightarrow> nat \<Rightarrow> (string \<times> warning_bucket) list
    \<Rightarrow> ingress_action option \<times> (string \<times> warning_bucket) list" where
  "record_oversized_at subj coll payload_bytes now ws =
     (case map_of ws subj of
        None \<Rightarrow> (None, ws)
      | Some b \<Rightarrow>
          (case bucket_record OVERSIZED_WARNING_INTERVAL now b of
             (None, b') \<Rightarrow> (None, AList.update subj b' ws)
           | (Some n, b') \<Rightarrow>
               (Some \<lparr>ia_kind = OversizedPayloadAction, ia_subject = Some subj, ia_collection = Some coll,
                  ia_payload_bytes = Some payload_bytes, ia_document_id = None, ia_attempt = None,
                  ia_delay_ms = None, ia_suppressed_count = Some n, ia_error_kind = OversizedPayload\<rparr>,
                AList.update subj b' ws)))"

section \<open>Accounting\<close>

definition zero_stats :: ingress_stats where
  "zero_stats = \<lparr>self_suppressed = 0, received = 0, stored = 0, invalid_utf8 = 0, invalid_json = 0,
     oversized_payloads = 0, final_store_failures = 0, slow_consumer_events = 0\<rparr>"

definition encoding_failures :: "'w ingress \<Rightarrow> nat" where
  "encoding_failures st = length (filter (\<lambda>a. ia_error_kind a = EnvelopeEncoding) (ig_actions st))"

text \<open>Messages received, less those with an outcome.\<close>

definition unaccounted :: "'w ingress \<Rightarrow> u64" where
  "unaccounted st =
     (let s = ig_stats st
      in received s - (stored s + invalid_utf8 s + invalid_json s + final_store_failures s
           + word_of_nat (encoding_failures st)))"

text \<open>A writer that also keeps the calls it received.\<close>

definition logged ::
  "(string \<Rightarrow> string \<Rightarrow> string \<Rightarrow> 'w \<Rightarrow> 'r \<times> 'w) \<Rightarrow> string \<Rightarrow> string \<Rightarrow> string
    \<Rightarrow> 'w \<times> (string \<times> string \<times> string) list \<Rightarrow> 'r \<times> ('w \<times> (string \<times> string \<times> string) list)" where
  "logged create c i j wl = (case create c i j (fst wl) of (r, w) \<Rightarrow> (r, (w, snd wl @ [(c, i, j)])))"

definition oversized_rec ::
  "string \<Rightarrow> nat \<Rightarrow> string \<Rightarrow> nat \<Rightarrow> (string \<times> warning_bucket) list \<Rightarrow> u64 option \<times> (string \<times> warning_bucket) list" where
  "oversized_rec coll n subj now ws =
     (case record_oversized_at subj coll n now ws of (a, ws') \<Rightarrow> (Option.bind a ia_suppressed_count, ws'))"

lemma from_payload_bytes:
  "from_payload sd subj src bs = Inr e \<Longrightarrow> as_bytes (be_payload e) = bs \<and> utf8_valid bs
     \<and> be_subject e = subj \<and> be_source_node_id e = src \<and> be_kind e = BRIDGE_ENVELOPE_KIND
     \<and> be_version e = BRIDGE_ENVELOPE_VERSION"
  by (auto simp: from_payload_def split: if_splits option.splits)

lemma emit_simps [simp]:
  "ig_stats (emit a st) = ig_stats st" "ig_writer (emit a st) = ig_writer st"
  "ig_warnings (emit a st) = ig_warnings st" "ig_actions (emit a st) = ig_actions st @ [a]"
  by (simp_all add: emit_def)

lemma store_attempts_counts:
  assumes "delays \<noteq> []" and "last delays = None"
  shows "unaccounted (store_attempts create item doc_id js n delays st) = unaccounted st - 1"
  using assms
proof (induction create item doc_id js n delays st rule: store_attempts.induct)
  case (2 create item doc_id js attempt retry_delay delays st)
  obtain r w where c: "create (ii_collection item) doc_id js (ig_writer st) = (r, w)" by fastforce
  show ?case
  proof (cases "\<exists>e delay. r = Inl e \<and> retry_delay = Some delay \<and> is_transient e")
    case True
    then obtain e delay where e: "r = Inl e" "retry_delay = Some delay" "is_transient e" by blast
    have "delays \<noteq> []" "last delays = None" using 2(2,3) e(2) by (auto split: if_splits)
    then show ?thesis
      using 2(1) [OF c [unfolded e(1), symmetric] refl e(2,3)] e c
      by (simp add: unaccounted_def encoding_failures_def store_action_def)
  next
    case False
    then show ?thesis
      using c by (auto simp: unaccounted_def encoding_failures_def store_action_def Let_def split: sum.splits option.splits)
  qed
qed simp

lemma record_invalid_counts: "unaccounted (record_invalid item e st) = unaccounted st - 1"
  by (cases e)
    (auto simp: record_invalid_def unaccounted_def encoding_failures_def invalid_action_def Let_def
      split: option.splits)

lemma process_item_counts: "unaccounted (process_item sd encode create src doc_id item st) = unaccounted st"
proof -
  let ?st = "st\<lparr>ig_stats := (ig_stats st)\<lparr>received := received (ig_stats st) + 1\<rparr>\<rparr>"
  have "unaccounted ?st = unaccounted st + 1" by (simp add: unaccounted_def encoding_failures_def Let_def)
  moreover have "unaccounted (emit (store_action StoreFailure item doc_id 0 None EnvelopeEncoding) ?st)
      = unaccounted ?st - 1"
    by (simp add: unaccounted_def encoding_failures_def store_action_def Let_def)
  ultimately show ?thesis
    by (auto simp: process_item_def Let_def record_invalid_counts store_attempts_counts STORE_ATTEMPT_DELAYS_def
        simp del: store_attempts.simps split: sum.split option.split)
qed

lemma summaries_counts: "unaccounted (emit_invalid_summaries st) = unaccounted st"
proof -
  have "filter (\<lambda>a. ia_error_kind a = EnvelopeEncoding) (map (\<lambda>(subj, ws). summary_action subj ws) xs) = []" for xs
    by (induction xs) (auto simp: summary_action_def)
  then show ?thesis
    by (simp add: unaccounted_def encoding_failures_def emit_invalid_summaries_def Let_def)
qed

lemma run_ingress_counts: "unaccounted (run_ingress sd encode create src evs st) = unaccounted st"
  by (induction sd encode create src evs st rule: run_ingress.induct)
    (simp_all add: process_item_counts summaries_counts)

text \<open>
  C34: Every received message is accounted for.  After any sequence of messages and ticks, \<open>received\<close>
  is the sum of stored, invalid and finally failed messages, plus those whose envelope could not
  be encoded, which are logged but appear in no counter.
\<close>

theorem ingress_accounts_for_all:
  "let st = run_ingress sd encode create src evs (ingress_init subjects zero_stats w); s = ig_stats st
   in received s = stored s + invalid_utf8 s + invalid_json s + final_store_failures s
        + word_of_nat (encoding_failures st)"
proof -
  let ?st = "run_ingress sd encode create src evs (ingress_init subjects zero_stats w)"
  have "unaccounted (ingress_init subjects zero_stats w) = 0"
    by (simp add: unaccounted_def encoding_failures_def ingress_init_def zero_stats_def)
  then have "unaccounted ?st = 0" by (simp only: run_ingress_counts)
  then show ?thesis by (simp add: unaccounted_def Let_def)
qed

section \<open>Bounded retries of one document\<close>

lemma store_attempts_log:
  "\<exists>k\<le>length delays. snd (ig_writer (store_attempts (logged create) item doc_id js n delays st))
     = snd (ig_writer st) @ replicate k (ii_collection item, doc_id, js)"
proof (induction "logged create" item doc_id js n delays st rule: store_attempts.induct)
  case (2 item doc_id js attempt retry_delay delays st)
  obtain r w where c: "logged create (ii_collection item) doc_id js (ig_writer st) = (r, w)"
    and w: "snd w = snd (ig_writer st) @ [(ii_collection item, doc_id, js)]"
    by (cases "create (ii_collection item) doc_id js (fst (ig_writer st))") (simp add: logged_def)
  show ?case
  proof (cases "\<exists>e delay. r = Inl e \<and> retry_delay = Some delay \<and> is_transient e")
    case True
    then obtain e delay where e: "r = Inl e" "retry_delay = Some delay" "is_transient e" by blast
    obtain k where "k \<le> length delays" and "snd (ig_writer (store_attempts (logged create) item doc_id js (attempt + 1) delays
        (emit (store_action StoreRetry item doc_id (attempt + 1) (Some delay) (StoreError e)) (st\<lparr>ig_writer := w\<rparr>))))
      = snd w @ replicate k (ii_collection item, doc_id, js)"
      using 2 [OF c [symmetric] e] by auto
    then show ?thesis using c e w by (intro exI [of _ "Suc k"]) auto
  next
    case False
    then show ?thesis
      using c w by (intro exI [of _ "Suc 0"]) (auto split: sum.splits option.splits)
  qed
qed simp

text \<open>
  A message leads to at most three create calls, all of them for the same collection, document
  identifier and JSON; calls are made only for a payload that is UTF-8 and JSON, and the JSON is
  the encoding of an envelope whose payload is exactly the received bytes.
\<close>

lemma ingress_retries_one_document:
  "\<exists>k js. k \<le> 3 \<and> snd (ig_writer (process_item sd encode (logged create) src doc_id item st)) = snd (ig_writer st) @ replicate k (ii_collection item, doc_id, js)
    \<and> (k = 0 \<or> (\<exists>e. encode e = Some js \<and> as_bytes (be_payload e) = ii_payload item
          \<and> be_subject e = ii_subject item \<and> be_source_node_id e = src \<and> from_str sd (be_payload e) \<noteq> None))"
proof (cases "from_payload sd (ii_subject item) src (ii_payload item)")
  case (Inl a)
  then show ?thesis
    by (intro exI [of _ 0]) (auto simp: process_item_def record_invalid_def Let_def split: option.split validation_error.split)
next
  case (Inr e)
  show ?thesis
  proof (cases "encode e")
    case None
    with Inr show ?thesis by (intro exI [of _ 0]) (auto simp: process_item_def)
  next
    case (Some js)
    let ?st = "st\<lparr>ig_stats := (ig_stats st)\<lparr>received := received (ig_stats st) + 1\<rparr>\<rparr>"
    obtain k where "k \<le> 3" "snd (ig_writer (process_item sd encode (logged create) src doc_id item st)) = snd (ig_writer st) @ replicate k (ii_collection item, doc_id, js)"
      using store_attempts_log [of STORE_ATTEMPT_DELAYS create item doc_id js 0 ?st] Inr Some
      by (auto simp: process_item_def STORE_ATTEMPT_DELAYS_def simp del: store_attempts.simps)
    moreover have "from_str sd (be_payload e) \<noteq> None"
      using Inr by (auto simp: from_payload_def split: if_splits option.splits)
    ultimately show ?thesis using Some from_payload_bytes [OF Inr] by blast
  qed
qed

section \<open>The oversized-payload limiter\<close>

lemma oversized_rec_bucket:
  "map_of ws k = Some b \<Longrightarrow> oversized_rec c n k t ws
     = (fst (bucket_record OVERSIZED_WARNING_INTERVAL t b),
        AList.update k (snd (bucket_record OVERSIZED_WARNING_INTERVAL t b)) ws)"
  by (auto simp: oversized_rec_def record_oversized_at_def split: prod.splits option.splits)

lemma oversized_rec_missing: "map_of ws k = None \<Longrightarrow> oversized_rec c n k t ws = (None, ws)"
  by (simp add: oversized_rec_def record_oversized_at_def)

interpretation oversized: rate_limiter OVERSIZED_WARNING_INTERVAL "oversized_rec c n" map_of
proof
  show "fst (oversized_rec c n k t s) = fst (bucket_record OVERSIZED_WARNING_INTERVAL t b)
      \<and> map_of (snd (oversized_rec c n k t s)) k = Some (snd (bucket_record OVERSIZED_WARNING_INTERVAL t b))"
    if "map_of s k = Some b" for s k b t
    using that by (simp add: oversized_rec_bucket map_of_AList_update)
  show "map_of (snd (oversized_rec c n k' t s)) k = map_of s k" if "k' \<noteq> k" for k' k t s
    using that by (cases "map_of s k'") (simp_all add: oversized_rec_bucket oversized_rec_missing map_of_AList_update)
qed

end
