(* ===== verification/Bridge_Readiness.thy ===== *)
theory Bridge_Readiness
  imports Peat_Prelude
begin

text \<open>
  Readiness of the bridge (\<open>src/src/nats_bridge/readiness.rs\<close>): the watched status, its updates and
  the transition each update reports.  The lemmas read the status back as a history of updates:
  the bridge is ready exactly when the last word on each input is good.
\<close>

section \<open>Status and transitions\<close>

record bridge_status =
  bs_enabled :: bool
  bs_accepting :: bool
  bs_delivery_healthy :: bool
  bs_exclusion_healthy :: bool
  bs_connected :: bool
  bs_expected_subscriptions :: nat
  bs_established_subjects :: "string set"
  bs_configured_subjects :: "string set"

definition is_ready :: "bridge_status \<Rightarrow> bool" where
  "is_ready s \<longleftrightarrow> bs_enabled s \<and> bs_accepting s \<and> bs_delivery_healthy s \<and> bs_exclusion_healthy s
     \<and> bs_connected s \<and> bs_established_subjects s = bs_configured_subjects s"

record readiness_transition =
  rt_was_ready :: bool
  rt_is_ready :: bool
  rt_changed :: bool
  rt_status :: bridge_status

definition became_ready :: "readiness_transition \<Rightarrow> bool" where
  "became_ready t \<longleftrightarrow> \<not> rt_was_ready t \<and> rt_is_ready t"

definition readiness_new :: "string list \<Rightarrow> bridge_status" where
  "readiness_new subjects =
     \<lparr>bs_enabled = True, bs_accepting = True, bs_delivery_healthy = True, bs_exclusion_healthy = True,
      bs_connected = False, bs_expected_subscriptions = card (set subjects),
      bs_established_subjects = {}, bs_configured_subjects = set subjects\<rparr>"

definition readiness_update ::
  "(bridge_status \<Rightarrow> bridge_status) \<Rightarrow> bridge_status \<Rightarrow> readiness_transition \<times> bridge_status" where
  "readiness_update mutate before =
     (let status = mutate before
      in (\<lparr>rt_was_ready = is_ready before, rt_is_ready = is_ready status,
           rt_changed = (before \<noteq> status), rt_status = status\<rparr>, status))"

definition set_connected :: "bridge_status \<Rightarrow> readiness_transition \<times> bridge_status" where
  "set_connected = readiness_update (\<lambda>s. s\<lparr>bs_connected := True\<rparr>)"

definition mark_all_subscriptions_established :: "bridge_status \<Rightarrow> readiness_transition \<times> bridge_status" where
  "mark_all_subscriptions_established =
     readiness_update (\<lambda>s. s\<lparr>bs_established_subjects := bs_configured_subjects s\<rparr>)"

definition invalidate_subscription_generation :: "bridge_status \<Rightarrow> readiness_transition \<times> bridge_status" where
  "invalidate_subscription_generation = readiness_update (\<lambda>s. s\<lparr>bs_established_subjects := {}\<rparr>)"

definition mark_disconnected :: "bridge_status \<Rightarrow> readiness_transition \<times> bridge_status" where
  "mark_disconnected = readiness_update (\<lambda>s. s\<lparr>bs_connected := False, bs_established_subjects := {}\<rparr>)"

definition set_delivery_healthy :: "bool \<Rightarrow> bridge_status \<Rightarrow> readiness_transition \<times> bridge_status" where
  "set_delivery_healthy healthy = readiness_update (\<lambda>s. s\<lparr>bs_delivery_healthy := healthy\<rparr>)"

definition set_exclusion_healthy :: "bool \<Rightarrow> bridge_status \<Rightarrow> readiness_transition \<times> bridge_status" where
  "set_exclusion_healthy healthy = readiness_update (\<lambda>s. s\<lparr>bs_exclusion_healthy := healthy\<rparr>)"

definition begin_shutdown :: "bridge_status \<Rightarrow> readiness_transition \<times> bridge_status" where
  "begin_shutdown = readiness_update (\<lambda>s. s\<lparr>bs_accepting := False\<rparr>)"

section \<open>Histories\<close>

datatype readiness_op =
    Connected | Disconnected | Established | Invalidated | DeliveryHealth bool | ExclusionHealth bool | ShutdownBegun

fun readiness_apply :: "readiness_op \<Rightarrow> bridge_status \<Rightarrow> readiness_transition \<times> bridge_status" where
  "readiness_apply Connected = set_connected"
| "readiness_apply Disconnected = mark_disconnected"
| "readiness_apply Established = mark_all_subscriptions_established"
| "readiness_apply Invalidated = invalidate_subscription_generation"
| "readiness_apply (DeliveryHealth b) = set_delivery_healthy b"
| "readiness_apply (ExclusionHealth b) = set_exclusion_healthy b"
| "readiness_apply ShutdownBegun = begin_shutdown"

definition readiness_after :: "readiness_op list \<Rightarrow> bridge_status \<Rightarrow> bridge_status" where
  "readiness_after ops s = fold (\<lambda>op s. snd (readiness_apply op s)) ops s"

text \<open>\<open>op\<close> happened and nothing in \<open>off\<close> has happened since.\<close>

definition in_force :: "readiness_op \<Rightarrow> readiness_op set \<Rightarrow> readiness_op list \<Rightarrow> bool" where
  "in_force op off ops \<longleftrightarrow> (\<exists>xs ys. ops = xs @ op # ys \<and> set ys \<inter> off = {})"

lemma in_force_Nil [simp]: "\<not> in_force op off []"
  by (simp add: in_force_def)

lemma in_force_snoc [simp]:
  "in_force op off (ops @ [o']) \<longleftrightarrow> o' = op \<or> (o' \<notin> off \<and> in_force op off ops)"
proof
  assume "in_force op off (ops @ [o'])"
  then obtain xs ys where split: "ops @ [o'] = xs @ op # ys" and off: "set ys \<inter> off = {}"
    unfolding in_force_def by blast
  show "o' = op \<or> (o' \<notin> off \<and> in_force op off ops)"
  proof (cases ys rule: rev_cases)
    case Nil
    then show ?thesis using split by simp
  next
    case (snoc zs z)
    then have "ops = xs @ op # zs" "o' = z" using split by simp_all
    then show ?thesis using off snoc unfolding in_force_def by auto
  qed
next
  assume "o' = op \<or> (o' \<notin> off \<and> in_force op off ops)"
  then show "in_force op off (ops @ [o'])"
  proof
    assume "o' = op"
    then show ?thesis unfolding in_force_def by (intro exI [of _ ops] exI [of _ "[]"]) simp
  next
    assume *: "o' \<notin> off \<and> in_force op off ops"
    then obtain xs ys where "ops = xs @ op # ys" "set ys \<inter> off = {}" unfolding in_force_def by blast
    with * show ?thesis unfolding in_force_def by (intro exI [of _ xs] exI [of _ "ys @ [o']"]) simp
  qed
qed

lemma readiness_after_snoc [simp]:
  "readiness_after (ops @ [o']) s = snd (readiness_apply o' (readiness_after ops s))"
  by (simp add: readiness_after_def)

lemmas readiness_defs = readiness_update_def Let_def set_connected_def mark_disconnected_def
  mark_all_subscriptions_established_def invalidate_subscription_generation_def set_delivery_healthy_def
  set_exclusion_healthy_def begin_shutdown_def

lemma readiness_after_fields:
  "let s = readiness_after ops (readiness_new subjects)
   in bs_enabled s \<and> bs_configured_subjects s = set subjects
    \<and> bs_expected_subscriptions s = card (set subjects)
    \<and> (bs_accepting s \<longleftrightarrow> ShutdownBegun \<notin> set ops)
    \<and> (bs_connected s \<longleftrightarrow> in_force Connected {Disconnected} ops)
    \<and> (bs_delivery_healthy s \<longleftrightarrow> \<not> in_force (DeliveryHealth False) {DeliveryHealth True} ops)
    \<and> (bs_exclusion_healthy s \<longleftrightarrow> \<not> in_force (ExclusionHealth False) {ExclusionHealth True} ops)
    \<and> bs_established_subjects s
        = (if in_force Established {Invalidated, Disconnected} ops then set subjects else {})"
proof (induction ops rule: rev_induct)
  case Nil
  then show ?case by (simp add: readiness_after_def readiness_new_def Let_def)
next
  case (snoc o' ops)
  then show ?case by (cases o') (auto simp: readiness_defs)
qed

text \<open>
  C30: Readiness is exact.  After any history of updates the bridge is ready if and only if shutdown
  has not begun, the connection is up, the configured subscriptions were established after the
  last disconnect or invalidation, and neither ledger was last reported unhealthy.
\<close>

theorem readiness_exact:
  "is_ready (readiness_after ops (readiness_new subjects)) \<longleftrightarrow>
     ShutdownBegun \<notin> set ops \<and> in_force Connected {Disconnected} ops
     \<and> (subjects = [] \<or> in_force Established {Invalidated, Disconnected} ops)
     \<and> \<not> in_force (DeliveryHealth False) {DeliveryHealth True} ops
     \<and> \<not> in_force (ExclusionHealth False) {ExclusionHealth True} ops"
  using readiness_after_fields [of ops subjects] by (auto simp: is_ready_def Let_def)

end
