(* ===== verification/Ledger_Durable.thy ===== *)
theory Ledger_Durable
  imports Ledger_Worker
begin

text \<open>
  A ledger worker over the life of the process and beyond (\<open>Worker\<close> of
  \<open>src/src/nats_bridge/ledger.rs\<close>): the invariant \<open>worker_durable\<close> of a worker between calls, healthy or
  failed, what each \<open>record\<close> call keeps of it, and what a restart on any crash image brings back.
  The clients (the node's writes, delivery and reconciliation) rest on these lemmas.
\<close>

definition holds :: "worker \<Rightarrow> ledger_digest \<Rightarrow> bool" where
  "holds w dg \<longleftrightarrow> map_of (jindex (wjournal w)) dg \<noteq> None"

text \<open>A failed worker is one record call away from a consistent journal.\<close>

definition worker_durable :: "(bytes \<Rightarrow> bytes) \<Rightarrow> worker \<Rightarrow> disk \<Rightarrow> bool" where
  "worker_durable sha w d \<longleftrightarrow> worker_idle w \<and>
     (if whealthy w then ledger_inv sha (wjournal w, d)
      else \<exists>j0 d0 dg s e. ledger_inv sha (j0, d0) \<and> length (digest_bytes dg) = 32
        \<and> (s = Completed \<longrightarrow> map_of (jindex j0) dg \<noteq> None)
        \<and> journal_record sha j0 dg s d0 = (Inl e, wjournal w, d))"

lemma durable_record:
  assumes dur: "worker_durable sha w d" and dig: "length (digest_bytes dg) = 32"
    and known: "s = Completed \<longrightarrow> holds w dg"
    and run: "worker_record sha dg s w d = (r, w', d')"
  shows "worker_durable sha w' d' \<and> jkind (wjournal w') = jkind (wjournal w)
    \<and> jindex (wjournal w') = (if r = Inr True then AList.update dg s (jindex (wjournal w)) else jindex (wjournal w))"
proof (cases "whealthy w")
  case False
  then show ?thesis using run dur by (auto simp: worker_record_unhealthy)
next
  case True
  have idle: "worker_idle w" and inv: "ledger_inv sha (wjournal w, d)"
    using dur True by (simp_all add: worker_durable_def)
  obtain x j e where rec: "journal_record sha (wjournal w) dg s d = (x, j, e)" by (metis prod_cases3)
  with worker_record_idle [OF True idle rec] run
  have r: "r = x" "d' = e" "wjournal w' = j" "whealthy w' = (\<not> isl x)" "worker_idle w'" by auto
  have known': "s = Completed \<longrightarrow> map_of (jindex (wjournal w)) dg \<noteq> None"
    using known by (simp add: holds_def)
  have "worker_durable sha w' d'"
  proof (cases x)
    case (Inl y)
    with rec r have "journal_record sha (wjournal w) dg s d = (Inl y, wjournal w', d')" by simp
    with inv dig known' have "\<exists>j0 d0 dg s e. ledger_inv sha (j0, d0) \<and> length (digest_bytes dg) = 32
        \<and> (s = Completed \<longrightarrow> map_of (jindex j0) dg \<noteq> None)
        \<and> journal_record sha j0 dg s d0 = (Inl e, wjournal w', d')" by blast
    then show ?thesis using r Inl unfolding worker_durable_def by simp
  next
    case (Inr y)
    with record_keeps [OF inv dig known' rec] r show ?thesis unfolding worker_durable_def by auto
  qed
  with journal_record_index(1,4) [OF rec] r show ?thesis by simp
qed

lemma worker_record_permits:
  assumes "worker_durable sha w d" and "worker_record sha dg s w d = (Inr b, w', d')"
  shows "whealthy w" "permits (jkind (wjournal w)) s"
    "record_decision (map_of (jindex (wjournal w)) dg) s = (if b then Append else AlreadyRecorded)"
    "whealthy w'"
proof -
  show healthy: "whealthy w" using assms(2) by (auto simp: worker_record_unhealthy intro: ccontr)
  obtain x j e where rec: "journal_record sha (wjournal w) dg s d = (x, j, e)" by (metis prod_cases3)
  have "worker_idle w" using assms(1) by (simp add: worker_durable_def)
  from worker_record_idle [OF healthy this rec] assms(2) have x: "x = Inr b" "whealthy w'" by auto
  with rec journal_record_index(2,3,5) [OF rec] show "permits (jkind (wjournal w)) s"
    "record_decision (map_of (jindex (wjournal w)) dg) s = (if b then Append else AlreadyRecorded)" "whealthy w'"
    by (cases b; simp)+
qed

lemma journal_open_kind: "journal_open sha kind d = (Inr j, d') \<Longrightarrow> jkind j = kind"
  by (auto simp: journal_open_def io_bind_def io_return_def split: prod.splits sum.splits)

lemma durable_restart:
  assumes dur: "worker_durable sha w d" and crash: "crash d d''" and plan: "plan d'' = []"
  shows "\<exists>w' d3. worker_spawn sha (jkind (wjournal w)) d'' = (Inr w', d3) \<and> worker_durable sha w' d3
    \<and> whealthy w' \<and> jkind (wjournal w') = jkind (wjournal w) \<and> (\<forall>k. holds w k \<longrightarrow> holds w' k)
    \<and> (whealthy w \<longrightarrow> jindex (wjournal w') = jindex (wjournal w))"
proof -
  have "\<exists>j3 d3. journal_open sha (jkind (wjournal w)) d'' = (Inr j3, d3) \<and> ledger_inv sha (j3, d3)
    \<and> (\<forall>k. holds w k \<longrightarrow> map_of (jindex j3) k \<noteq> None)
    \<and> (whealthy w \<longrightarrow> jindex j3 = jindex (wjournal w))"
  proof (cases "whealthy w")
    case True
    then show ?thesis
      using restart_idle [OF _ crash plan, of sha "wjournal w"] dur by (auto simp: worker_durable_def holds_def)
  next
    case False
    then obtain j0 d0 dg s e where inv: "ledger_inv sha (j0, d0)" and dig: "length (digest_bytes dg) = 32"
      and known: "s = Completed \<longrightarrow> map_of (jindex j0) dg \<noteq> None"
      and rec: "journal_record sha j0 dg s d0 = (Inl e, wjournal w, d)"
      using dur by (simp only: worker_durable_def if_False) blast
    from record_then_restart [OF ledger_invD [OF inv] dig known rec crash plan] obtain j4 d4 where
      "journal_open sha (jkind j0) d'' = (Inr j4, d4)" "journal_ok sha j4 d4" "entry_durable j4 d4"
      "jindex j4 = jindex j0 \<or> jindex j4 = AList.update dg s (jindex j0)" by blast
    then show ?thesis
      using False journal_record_index(1,4) [OF rec] ledger_invD(1) [OF inv]
      by (auto simp: ledger_inv_def holds_def map_of_AList_update)
  qed
  then obtain j3 d3 where open3: "journal_open sha (jkind (wjournal w)) d'' = (Inr j3, d3)" "ledger_inv sha (j3, d3)"
    "\<forall>k. holds w k \<longrightarrow> map_of (jindex j3) k \<noteq> None" "whealthy w \<longrightarrow> jindex j3 = jindex (wjournal w)" by blast
  then obtain w' where w': "worker_spawn sha (jkind (wjournal w)) d'' = (Inr w', d3)" "wjournal w' = j3"
    by (simp add: worker_spawn_def io_bind_def io_return_def)
  moreover have "worker_durable sha w' d3"
    using worker_spawn_ok [OF w'(1)] open3(2) w'(2) by (simp add: worker_durable_def worker_idle_def)
  moreover have "jkind j3 = jkind (wjournal w)"
    using open3(1) by (rule journal_open_kind)
  ultimately show ?thesis using open3 worker_spawn_ok(2) [OF w'(1)] by (auto simp: holds_def)
qed

lemma durable_restarted:
  assumes "worker_durable sha w d" "crash d d''" "plan d'' = []"
    and "worker_spawn sha (jkind (wjournal w)) d'' = (Inr w', d3)"
  shows "worker_durable sha w' d3" "whealthy w'" "jkind (wjournal w') = jkind (wjournal w)" "holds w k \<Longrightarrow> holds w' k"
  using durable_restart [OF assms(1-3)] assms(4) by auto

lemma worker_durable_plan [simp]: "whealthy w \<Longrightarrow> worker_durable sha w (d\<lparr>plan := os\<rparr>) = worker_durable sha w d"
  by (simp add: worker_durable_def)

lemma sample_durable:
  "\<exists>w d. worker_spawn sample_sha Delivery (sample_disk []) = (Inr w, d) \<and> worker_durable sample_sha w d
    \<and> plan d = [] \<and> whealthy w \<and> wjournal w = opened Delivery 0 [] []"
proof -
  have "length (sample_sha x) = 32" for x by (simp add: sample_sha_def)
  moreover have "log_index Delivery [] [] = Some []" "digests_ok []" by (simp_all add: digests_ok_def)
  ultimately obtain d where d: "journal_open sample_sha Delivery (sample_disk []) = (Inr (opened Delivery 0 [] []), d)"
    "journal_log sample_sha (opened Delivery 0 [] []) d []"
    "dir_images d = dir_images (sample_disk [])" "plan d = []"
    using open_log [of sample_sha Delivery "[]" "[]" "[]" "sample_disk []" 0]
    by (auto simp: sample_disk_def Let_def RECORD_LEN_def log_bytes_def)
  then have "entry_durable (opened Delivery 0 [] []) d"
    by (simp add: entry_durable_def opened_def sample_disk_def Let_def)
  then have inv: "ledger_inv sample_sha (opened Delivery 0 [] [], d)"
    using d(2) by (auto simp: ledger_inv_def journal_ok_def sample_sha_def)
  obtain w where w: "worker_spawn sample_sha Delivery (sample_disk []) = (Inr w, d)" "wjournal w = opened Delivery 0 [] []"
    using d(1) by (simp add: worker_spawn_def io_bind_def io_return_def)
  then show ?thesis
    using inv d(4) worker_spawn_ok [OF w(1)] by (auto simp: worker_durable_def worker_idle_def)
qed

end
