(* ===== verification/Bridge_Egress.thy ===== *)
theory Bridge_Egress
  imports Bridge_Ingress Bridge_Readiness Ledger_Durable
begin

text \<open>
  Remote documents out to NATS (\<open>src/src/nats_bridge/egress.rs\<close>): classification of a change, the
  three stages of \<open>DeliveryCoordinator::deliver\<close> (admission, durable reservation, queueing), the
  serial publishing worker, counters and rate-limited diagnostics.  Decoding an envelope and
  the NATS client are arguments.  \<open>bridge_step\<close> interleaves concurrent deliveries, the worker,
  readiness changes, crashes and restarts.
\<close>

section \<open>Data\<close>

definition BRIDGE_ORIGIN_HEADER :: string where
  "BRIDGE_ORIGIN_HEADER = ''Peat-Nats-Bridge-Origin''"

definition EGRESS_QUEUE_CAPACITY :: nat where
  "EGRESS_QUEUE_CAPACITY = 256"

definition EGRESS_DIAGNOSTIC_INTERVAL :: nat where
  "EGRESS_DIAGNOSTIC_INTERVAL = 60000"

definition EGRESS_DIAGNOSTIC_CLASSIFICATIONS :: nat where
  "EGRESS_DIAGNOSTIC_CLASSIFICATIONS = 17"

datatype egress_skip_kind =
    MalformedEnvelope | UnsupportedKind | UnsupportedVersion | UnmappedCollection | RouteMismatch
  | ReturnedLocal | PayloadTooLarge | Duplicate

datatype egress_failure_kind =
    EventLagged | LostQueueFull | LostQueueClosed | LostUnavailable | PublishFailed | MaxPayloadExceeded
  | FlushFailed | LedgerUnavailable

datatype egress_action_kind = Skipped egress_skip_kind | Lost egress_failure_kind | Published

record egress_item =
  ei_digest :: ledger_digest
  ei_subject :: string
  ei_payload :: bytes
  ei_route_index :: nat

record egress_action =
  ea_kind :: egress_action_kind
  ea_route_index :: "nat option"
  ea_payload_bytes :: "nat option"
  ea_suppressed_count :: u64

record bridge_change_event =
  bce_collection :: string
  bce_doc_id :: string
  bce_remote_peer_id :: string
  bce_json_data :: string

section \<open>Diagnostics\<close>

record egress_diagnostics =
  ed_buckets :: "warning_bucket list"
  ed_route_count :: nat

definition egress_diagnostics_new :: "nat \<Rightarrow> egress_diagnostics" where
  "egress_diagnostics_new route_count =
     \<lparr>ed_buckets = replicate ((route_count + 1) * EGRESS_DIAGNOSTIC_CLASSIFICATIONS) empty_bucket,
      ed_route_count = route_count\<rparr>"

fun diagnostic_classification :: "egress_action_kind \<Rightarrow> nat" where
  "diagnostic_classification (Skipped MalformedEnvelope) = 0"
| "diagnostic_classification (Skipped UnsupportedKind) = 1"
| "diagnostic_classification (Skipped UnsupportedVersion) = 2"
| "diagnostic_classification (Skipped UnmappedCollection) = 3"
| "diagnostic_classification (Skipped RouteMismatch) = 4"
| "diagnostic_classification (Skipped ReturnedLocal) = 5"
| "diagnostic_classification (Skipped PayloadTooLarge) = 6"
| "diagnostic_classification (Skipped Duplicate) = 7"
| "diagnostic_classification (Lost EventLagged) = 8"
| "diagnostic_classification (Lost LostQueueFull) = 9"
| "diagnostic_classification (Lost LostQueueClosed) = 10"
| "diagnostic_classification (Lost LostUnavailable) = 11"
| "diagnostic_classification (Lost PublishFailed) = 12"
| "diagnostic_classification (Lost MaxPayloadExceeded) = 13"
| "diagnostic_classification (Lost FlushFailed) = 14"
| "diagnostic_classification (Lost LedgerUnavailable) = 15"
| "diagnostic_classification Published = 16"

text \<open>The bucket of an action: bank 0 is for actions without a known route.\<close>

definition diagnostic_index :: "egress_action \<Rightarrow> egress_diagnostics \<Rightarrow> nat" where
  "diagnostic_index a ed =
     (let route_bank = (case ea_route_index a of
            Some i \<Rightarrow> if i < ed_route_count ed then i + 1 else 0 | None \<Rightarrow> 0)
      in route_bank * EGRESS_DIAGNOSTIC_CLASSIFICATIONS + diagnostic_classification (ea_kind a))"

definition diagnostic_bucket :: "nat \<Rightarrow> nat \<Rightarrow> egress_diagnostics \<Rightarrow> u64 option \<times> egress_diagnostics" where
  "diagnostic_bucket i now ed =
     (case bucket_record EGRESS_DIAGNOSTIC_INTERVAL now (ed_buckets ed ! i) of
        (x, b) \<Rightarrow> (x, ed\<lparr>ed_buckets := (ed_buckets ed)[i := b]\<rparr>))"

definition diagnostics_record_at ::
  "egress_action \<Rightarrow> nat \<Rightarrow> egress_diagnostics \<Rightarrow> egress_action option \<times> egress_diagnostics" where
  "diagnostics_record_at a now ed =
     (case diagnostic_bucket (diagnostic_index a ed) now ed of
        (x, ed') \<Rightarrow> (map_option (\<lambda>n. a\<lparr>ea_suppressed_count := n\<rparr>) x, ed'))"

section \<open>Counters\<close>

record egress_stats =
  es_malformed :: u64
  es_unsupported :: u64
  es_unmapped :: u64
  es_route_mismatch :: u64
  es_returned_local :: u64
  es_oversized_payload :: u64
  es_duplicate :: u64
  es_queue_full :: u64
  es_queue_closed :: u64
  es_unavailable :: u64
  es_publish_failed :: u64
  es_max_payload_exceeded :: u64
  es_flush_failed :: u64
  es_ledger_unavailable :: u64
  es_event_lagged :: u64
  es_reserved :: u64
  es_completed :: u64
  es_published :: u64

definition egress_stats_new :: egress_stats where
  "egress_stats_new =
     \<lparr>es_malformed = 0, es_unsupported = 0, es_unmapped = 0, es_route_mismatch = 0, es_returned_local = 0,
      es_oversized_payload = 0, es_duplicate = 0, es_queue_full = 0, es_queue_closed = 0,
      es_unavailable = 0, es_publish_failed = 0, es_max_payload_exceeded = 0, es_flush_failed = 0,
      es_ledger_unavailable = 0, es_event_lagged = 0, es_reserved = 0, es_completed = 0, es_published = 0\<rparr>"

fun record_skip :: "egress_skip_kind \<Rightarrow> egress_stats \<Rightarrow> egress_stats" where
  "record_skip MalformedEnvelope s = s\<lparr>es_malformed := es_malformed s + 1\<rparr>"
| "record_skip UnsupportedKind s = s\<lparr>es_unsupported := es_unsupported s + 1\<rparr>"
| "record_skip UnsupportedVersion s = s\<lparr>es_unsupported := es_unsupported s + 1\<rparr>"
| "record_skip UnmappedCollection s = s\<lparr>es_unmapped := es_unmapped s + 1\<rparr>"
| "record_skip RouteMismatch s = s\<lparr>es_route_mismatch := es_route_mismatch s + 1\<rparr>"
| "record_skip ReturnedLocal s = s\<lparr>es_returned_local := es_returned_local s + 1\<rparr>"
| "record_skip PayloadTooLarge s = s\<lparr>es_oversized_payload := es_oversized_payload s + 1\<rparr>"
| "record_skip Duplicate s = s\<lparr>es_duplicate := es_duplicate s + 1\<rparr>"

fun record_failure :: "egress_failure_kind \<Rightarrow> egress_stats \<Rightarrow> egress_stats" where
  "record_failure EventLagged s = s\<lparr>es_event_lagged := es_event_lagged s + 1\<rparr>"
| "record_failure LostQueueFull s = s\<lparr>es_queue_full := es_queue_full s + 1\<rparr>"
| "record_failure LostQueueClosed s = s\<lparr>es_queue_closed := es_queue_closed s + 1\<rparr>"
| "record_failure LostUnavailable s = s\<lparr>es_unavailable := es_unavailable s + 1\<rparr>"
| "record_failure PublishFailed s = s\<lparr>es_publish_failed := es_publish_failed s + 1\<rparr>"
| "record_failure MaxPayloadExceeded s = s\<lparr>es_max_payload_exceeded := es_max_payload_exceeded s + 1\<rparr>"
| "record_failure FlushFailed s = s\<lparr>es_flush_failed := es_flush_failed s + 1\<rparr>"
| "record_failure LedgerUnavailable s = s\<lparr>es_ledger_unavailable := es_ledger_unavailable s + 1\<rparr>"

definition record_event_lagged :: "u64 \<Rightarrow> egress_stats \<Rightarrow> egress_stats" where
  "record_event_lagged dropped s = s\<lparr>es_event_lagged := es_event_lagged s + dropped\<rparr>"

definition record_ledger_health_failure :: "egress_stats \<Rightarrow> egress_stats" where
  "record_ledger_health_failure s = s\<lparr>es_ledger_unavailable := es_ledger_unavailable s + 1\<rparr>"

section \<open>Classification\<close>

record egress_classifier =
  ec_routes :: "string \<rightharpoonup> string"
  ec_route_indexes :: "string \<rightharpoonup> nat"
  ec_local_node_id :: string

text \<open>Collecting into a hash map: of two entries for a key the later stays.\<close>

definition classifier_new :: "subject_mapping list \<Rightarrow> string \<Rightarrow> egress_classifier" where
  "classifier_new mappings local_node_id =
     \<lparr>ec_routes = map_of (rev (map (\<lambda>m. (sm_collection m, sm_subject m)) mappings)),
      ec_route_indexes = map_of (rev (zip (map sm_collection mappings) [0..<length mappings])),
      ec_local_node_id = local_node_id\<rparr>"

definition classify ::
  "(bytes \<Rightarrow> bytes) \<Rightarrow> (string \<Rightarrow> bridge_envelope option) \<Rightarrow> egress_classifier \<Rightarrow> bridge_change_event
    \<Rightarrow> egress_skip_kind + egress_item" where
  "classify sha decode cl ev =
     (let digest = document_digest sha (bce_collection ev) (bce_doc_id ev)
      in case decode (bce_json_data ev) of
           None \<Rightarrow> Inl MalformedEnvelope
         | Some envelope \<Rightarrow>
             if be_kind envelope \<noteq> BRIDGE_ENVELOPE_KIND then Inl UnsupportedKind
             else if be_version envelope \<noteq> BRIDGE_ENVELOPE_VERSION then Inl UnsupportedVersion
             else case ec_routes cl (bce_collection ev) of
               None \<Rightarrow> Inl UnmappedCollection
             | Some subj \<Rightarrow>
                 (case ec_route_indexes cl (bce_collection ev) of
                    None \<Rightarrow> Inl UnmappedCollection
                  | Some route_index \<Rightarrow>
                      if be_subject envelope \<noteq> subj then Inl RouteMismatch
                      else if be_source_node_id envelope = ec_local_node_id cl then Inl ReturnedLocal
                      else if length (be_payload envelope) > MAX_INGRESS_PAYLOAD_BYTES then Inl PayloadTooLarge
                      else Inr \<lparr>ei_digest = digest, ei_subject = subj,
                             ei_payload = as_bytes (be_payload envelope), ei_route_index = route_index\<rparr>))"

section \<open>Delivery\<close>

text \<open>
  What the coordinator, its workers and the delivery ledger share: \<open>eg_open\<close> says whether the
  queue's receiver is alive, \<open>eg_log\<close> holds the diagnostics emitted, \<open>eg_client\<close> is the NATS client.
\<close>

record 'p egress =
  eg_classifier :: egress_classifier
  eg_status :: bridge_status
  eg_stats :: egress_stats
  eg_diagnostics :: egress_diagnostics
  eg_log :: "egress_action list"
  eg_queue :: "egress_item list"
  eg_open :: bool
  eg_ledger :: worker
  eg_disk :: disk
  eg_client :: 'p

definition egress_new ::
  "subject_mapping list \<Rightarrow> string \<Rightarrow> bridge_status \<Rightarrow> worker \<Rightarrow> disk \<Rightarrow> 'p \<Rightarrow> 'p egress" where
  "egress_new mappings local_node_id status w d c =
     \<lparr>eg_classifier = classifier_new mappings local_node_id, eg_status = status, eg_stats = egress_stats_new,
      eg_diagnostics = egress_diagnostics_new (length mappings), eg_log = [], eg_queue = [], eg_open = True,
      eg_ledger = w, eg_disk = d, eg_client = c\<rparr>"

definition diagnose ::
  "egress_action_kind \<Rightarrow> nat option \<Rightarrow> nat option \<Rightarrow> nat \<Rightarrow> 'p egress \<Rightarrow> 'p egress" where
  "diagnose k route_index payload_bytes now st =
     (case diagnostics_record_at \<lparr>ea_kind = k, ea_route_index = route_index, ea_payload_bytes = payload_bytes,
          ea_suppressed_count = 0\<rparr> now (eg_diagnostics st) of
        (emitted, ed) \<Rightarrow> st\<lparr>eg_diagnostics := ed, eg_log := eg_log st @ (case emitted of None \<Rightarrow> [] | Some a \<Rightarrow> [a])\<rparr>)"

fun count_action :: "egress_action_kind \<Rightarrow> egress_stats \<Rightarrow> egress_stats" where
  "count_action (Skipped k) s = record_skip k s"
| "count_action (Lost k) s = record_failure k s"
| "count_action Published s = s\<lparr>es_published := es_published s + 1\<rparr>"

definition record_action ::
  "egress_action_kind \<Rightarrow> nat option \<Rightarrow> nat option \<Rightarrow> nat \<Rightarrow> 'p egress \<Rightarrow> 'p egress" where
  "record_action k route_index payload_bytes now st =
     diagnose k route_index payload_bytes now (st\<lparr>eg_stats := count_action k (eg_stats st)\<rparr>)"

text \<open>
  \<open>deliver\<close> awaits once, for the ledger; its stages before, at and after that point can interleave
  with other deliveries.  Past the classifier the event's route index is the item's.
\<close>

definition deliver_admit ::
  "(bytes \<Rightarrow> bytes) \<Rightarrow> (string \<Rightarrow> bridge_envelope option) \<Rightarrow> nat \<Rightarrow> bridge_change_event \<Rightarrow> 'p egress
    \<Rightarrow> (egress_action_kind + egress_item) \<times> 'p egress" where
  "deliver_admit sha decode now ev st =
     (let route_index = ec_route_indexes (eg_classifier st) (bce_collection ev)
      in case classify sha decode (eg_classifier st) ev of
           Inl k \<Rightarrow> (Inl (Skipped k), record_action (Skipped k) route_index None now st)
         | Inr item \<Rightarrow>
             let status = eg_status st
             in if \<not> bs_accepting status \<or> \<not> bs_delivery_healthy status \<or> \<not> is_ready status
                then (Inl (Lost LostUnavailable),
                      record_action (Lost LostUnavailable) route_index (Some (length (ei_payload item))) now st)
                else (Inr item, st))"

definition deliver_reserve ::
  "(bytes \<Rightarrow> bytes) \<Rightarrow> nat \<Rightarrow> egress_item \<Rightarrow> 'p egress \<Rightarrow> (egress_action_kind + unit) \<times> 'p egress" where
  "deliver_reserve sha now item st =
     (case check_and_reserve sha (ei_digest item) (eg_ledger st) (eg_disk st) of
        (r, w, d) \<Rightarrow>
          let st' = st\<lparr>eg_ledger := w, eg_disk := d\<rparr>
          in case r of
               Inr ReserveSuppressed \<Rightarrow>
                 (Inl (Skipped Duplicate), record_action (Skipped Duplicate) (Some (ei_route_index item)) None now st')
             | Inr ReserveReserved \<Rightarrow>
                 (Inr (), st'\<lparr>eg_stats := (eg_stats st')\<lparr>es_reserved := es_reserved (eg_stats st') + 1\<rparr>\<rparr>)
             | Inl _ \<Rightarrow>
                 (Inl (Lost LedgerUnavailable),
                  record_action (Lost LedgerUnavailable) (Some (ei_route_index item))
                    (Some (length (ei_payload item))) now
                    (st'\<lparr>eg_status := snd (set_delivery_healthy False (eg_status st'))\<rparr>)))"

definition deliver_enqueue ::
  "nat \<Rightarrow> egress_item \<Rightarrow> 'p egress \<Rightarrow> (egress_action_kind + unit) \<times> 'p egress" where
  "deliver_enqueue now item st =
     (if \<not> eg_open st
      then (Inl (Lost LostQueueClosed), record_action (Lost LostQueueClosed) (Some (ei_route_index item))
              (Some (length (ei_payload item))) now st)
      else if EGRESS_QUEUE_CAPACITY \<le> length (eg_queue st)
      then (Inl (Lost LostQueueFull), record_action (Lost LostQueueFull) (Some (ei_route_index item))
              (Some (length (ei_payload item))) now st)
      else (Inr (), st\<lparr>eg_queue := eg_queue st @ [item]\<rparr>))"

definition deliver ::
  "(bytes \<Rightarrow> bytes) \<Rightarrow> (string \<Rightarrow> bridge_envelope option) \<Rightarrow> nat \<Rightarrow> bridge_change_event \<Rightarrow> 'p egress
    \<Rightarrow> (egress_action_kind + unit) \<times> 'p egress" where
  "deliver sha decode now ev st =
     (case deliver_admit sha decode now ev st of
        (Inl k, st1) \<Rightarrow> (Inl k, st1)
      | (Inr item, st1) \<Rightarrow>
          (case deliver_reserve sha now item st1 of
             (Inl k, st2) \<Rightarrow> (Inl k, st2)
           | (Inr _, st2) \<Rightarrow> deliver_enqueue now item st2))"

section \<open>Publishing\<close>

datatype publish_error = ClientMaxPayloadExceeded | ClientInvalidSubject | ClientSend

datatype flush_result = Flushed | FlushError | FlushTimeout

record 'p nats_client =
  nc_publish :: "string \<Rightarrow> (string \<times> string) list \<Rightarrow> bytes \<Rightarrow> 'p \<Rightarrow> publish_error option \<times> 'p"
  nc_flush :: "'p \<Rightarrow> flush_result \<times> 'p"
  nc_connected :: "'p \<Rightarrow> bool"

fun publish_failure :: "publish_error \<Rightarrow> egress_failure_kind" where
  "publish_failure ClientMaxPayloadExceeded = MaxPayloadExceeded"
| "publish_failure ClientInvalidSubject = PublishFailed"
| "publish_failure ClientSend = PublishFailed"

definition publisher_publish ::
  "'p nats_client \<Rightarrow> bridge_status \<Rightarrow> string \<Rightarrow> (string \<times> string) list \<Rightarrow> bytes \<Rightarrow> 'p
    \<Rightarrow> (egress_failure_kind + unit) \<times> 'p" where
  "publisher_publish nc status subj headers payload c =
     (if \<not> is_ready status \<or> \<not> nc_connected nc c then (Inl LostUnavailable, c)
      else case nc_publish nc subj headers payload c of
        (None, c') \<Rightarrow> (Inr (), c')
      | (Some e, c') \<Rightarrow> (Inl (publish_failure e), c'))"

text \<open>The flush under its timeout.\<close>

definition publisher_flush ::
  "'p nats_client \<Rightarrow> bridge_status \<Rightarrow> 'p \<Rightarrow> (egress_failure_kind + unit) \<times> 'p" where
  "publisher_flush nc status c =
     (if \<not> is_ready status then (Inl LostUnavailable, c)
      else case nc_flush nc c of
        (Flushed, c') \<Rightarrow> (Inr (), c')
      | (FlushError, c') \<Rightarrow> (Inl FlushFailed, c')
      | (FlushTimeout, c') \<Rightarrow> (Inl FlushFailed, c'))"

definition egress_publish ::
  "'p nats_client \<Rightarrow> string \<Rightarrow> egress_item \<Rightarrow> 'p egress \<Rightarrow> (egress_failure_kind + unit) \<times> 'p egress" where
  "egress_publish nc origin item st =
     (case publisher_publish nc (eg_status st) (ei_subject item) [(BRIDGE_ORIGIN_HEADER, origin)]
             (ei_payload item) (eg_client st) of
        (Inr _, c) \<Rightarrow> (case publisher_flush nc (eg_status st) c of (r, c') \<Rightarrow> (r, st\<lparr>eg_client := c'\<rparr>))
      | (Inl k, c) \<Rightarrow> (Inl k, st\<lparr>eg_client := c\<rparr>))"

text \<open>After the publisher has answered; \<open>None\<close> is the \<open>unreachable!\<close> panic.\<close>

definition egress_finish ::
  "(bytes \<Rightarrow> bytes) \<Rightarrow> nat \<Rightarrow> egress_item \<Rightarrow> egress_failure_kind + unit \<Rightarrow> 'p egress \<Rightarrow> 'p egress option" where
  "egress_finish sha now item outcome st =
     (let lost = (\<lambda>k st. record_action (Lost k) (Some (ei_route_index item)) (Some (length (ei_payload item))) now st)
      in case outcome of
           Inr _ \<Rightarrow>
             (case mark_completed sha (ei_digest item) (eg_ledger st) (eg_disk st) of
                (r, w, d) \<Rightarrow>
                  let st' = st\<lparr>eg_ledger := w, eg_disk := d\<rparr>
                  in Some (case r of
                       Inl _ \<Rightarrow> lost LedgerUnavailable
                                 (st'\<lparr>eg_status := snd (set_delivery_healthy False (eg_status st'))\<rparr>)
                     | Inr _ \<Rightarrow> record_action Published (Some (ei_route_index item))
                                 (Some (length (ei_payload item))) now
                                 (st'\<lparr>eg_stats := (eg_stats st')\<lparr>es_completed := es_completed (eg_stats st') + 1\<rparr>\<rparr>)))
         | Inl k \<Rightarrow>
             if k \<in> {EventLagged, LostQueueFull, LostQueueClosed} then None else Some (lost k st))"

text \<open>The worker's loop while the queue holds items; \<open>nows\<close> are the times of its rounds.\<close>

fun run_egress_worker ::
  "(bytes \<Rightarrow> bytes) \<Rightarrow> 'p nats_client \<Rightarrow> string \<Rightarrow> nat list \<Rightarrow> 'p egress \<Rightarrow> 'p egress option" where
  "run_egress_worker sha nc origin [] st = Some st"
| "run_egress_worker sha nc origin (now # nows) st =
     (case eg_queue st of
        [] \<Rightarrow> Some st
      | item # q \<Rightarrow>
          (case egress_publish nc origin item (st\<lparr>eg_queue := q\<rparr>) of
             (r, st1) \<Rightarrow>
               (case egress_finish sha now item r st1 of
                  None \<Rightarrow> None
                | Some st2 \<Rightarrow> run_egress_worker sha nc origin nows st2)))"

text \<open>One received item of the event router; the result says whether reconciliation is triggered.\<close>

datatype router_event = Received bridge_change_event | Lagged u64

fun route_event ::
  "(bytes \<Rightarrow> bytes) \<Rightarrow> (string \<Rightarrow> bridge_envelope option) \<Rightarrow> nat \<Rightarrow> router_event \<Rightarrow> 'p egress \<Rightarrow> bool \<times> 'p egress" where
  "route_event sha decode now (Received ev) st = (False, snd (deliver sha decode now ev st))"
| "route_event sha decode now (Lagged dropped) st =
     (True, diagnose (Lost EventLagged) None None now
        (st\<lparr>eg_stats := record_event_lagged dropped (eg_stats st)\<rparr>))"

section \<open>What the classifier lets through\<close>

lemma classifier_routes:
  assumes "distinct (map sm_collection ms)"
  shows "ec_routes (classifier_new ms n) c = Some subj \<longleftrightarrow> (\<exists>m\<in>set ms. sm_collection m = c \<and> sm_subject m = subj)"
    and "ec_route_indexes (classifier_new ms n) c = Some i \<longleftrightarrow> i < length ms \<and> sm_collection (ms ! i) = c"
proof -
  have "distinct (map fst (rev (map (\<lambda>m. (sm_collection m, sm_subject m)) ms)))"
    using assms by (simp add: rev_map [symmetric] comp_def)
  then show "ec_routes (classifier_new ms n) c = Some subj \<longleftrightarrow> (\<exists>m\<in>set ms. sm_collection m = c \<and> sm_subject m = subj)"
    by (auto simp: classifier_new_def)
  have "distinct (map fst (rev (zip (map sm_collection ms) [0..<length ms])))"
    using assms by (simp add: rev_map [symmetric])
  then show "ec_route_indexes (classifier_new ms n) c = Some i \<longleftrightarrow> i < length ms \<and> sm_collection (ms ! i) = c"
    by (auto simp: classifier_new_def set_zip intro!: exI [of _ i])
qed

lemma classify_Inr:
  "classify sha decode cl ev = Inr item \<longleftrightarrow>
     (\<exists>e subj i. decode (bce_json_data ev) = Some e \<and> be_kind e = BRIDGE_ENVELOPE_KIND
        \<and> be_version e = BRIDGE_ENVELOPE_VERSION \<and> ec_routes cl (bce_collection ev) = Some subj
        \<and> ec_route_indexes cl (bce_collection ev) = Some i \<and> be_subject e = subj
        \<and> be_source_node_id e \<noteq> ec_local_node_id cl \<and> length (be_payload e) \<le> MAX_INGRESS_PAYLOAD_BYTES
        \<and> item = \<lparr>ei_digest = document_digest sha (bce_collection ev) (bce_doc_id ev), ei_subject = subj,
             ei_payload = as_bytes (be_payload e), ei_route_index = i\<rparr>)"
  by (auto simp: classify_def Let_def split: option.splits if_splits)

text \<open>
  C10: What leaves the bridge.  With routes as an accepted configuration has them, a change is published
  only if its document is a version-1 bridge envelope for exactly the subject its collection is
  mapped to, written by another node, with a payload of at most one mebibyte; and then the
  published bytes are the envelope's payload and the subject is that route's.
\<close>

theorem classified_items_exact:
  assumes "distinct (map sm_collection ms)"
  shows "classify sha decode (classifier_new ms node_id) ev = Inr item \<longleftrightarrow>
    (\<exists>e i. decode (bce_json_data ev) = Some e \<and> be_kind e = BRIDGE_ENVELOPE_KIND
       \<and> be_version e = BRIDGE_ENVELOPE_VERSION \<and> be_source_node_id e \<noteq> node_id
       \<and> i < length ms \<and> sm_collection (ms ! i) = bce_collection ev \<and> sm_subject (ms ! i) = be_subject e
       \<and> length (be_payload e) \<le> MAX_INGRESS_PAYLOAD_BYTES
       \<and> item = \<lparr>ei_digest = document_digest sha (bce_collection ev) (bce_doc_id ev),
            ei_subject = be_subject e, ei_payload = as_bytes (be_payload e), ei_route_index = i\<rparr>)"
proof -
  have same: "m = ms ! i" if "m \<in> set ms" "i < length ms" "sm_collection m = sm_collection (ms ! i)" for m i
    using assms that by (auto simp: distinct_map dest: inj_onD)
  have "ec_routes (classifier_new ms node_id) c = Some subj \<and> ec_route_indexes (classifier_new ms node_id) c = Some i
    \<longleftrightarrow> i < length ms \<and> sm_collection (ms ! i) = c \<and> sm_subject (ms ! i) = subj" for c subj i
    unfolding classifier_routes [OF assms] using same by (metis nth_mem)
  then show ?thesis
    unfolding classify_Inr by (simp add: classifier_new_def) blast
qed

definition sample_envelope :: bridge_envelope where
  "sample_envelope = \<lparr>be_kind = BRIDGE_ENVELOPE_KIND, be_version = 1, be_subject = ''s'',
     be_source_node_id = ''a'', be_payload = ''1''\<rparr>"

definition sample_change :: bridge_change_event where
  "sample_change = \<lparr>bce_collection = ''c'', bce_doc_id = ''d'', bce_remote_peer_id = ''p'', bce_json_data = ''x''\<rparr>"

definition sample_routes :: "subject_mapping list" where
  "sample_routes = [\<lparr>sm_subject = ''s'', sm_collection = ''c''\<rparr>]"

definition sample_item :: "(bytes \<Rightarrow> bytes) \<Rightarrow> egress_item" where
  "sample_item sha = \<lparr>ei_digest = document_digest sha ''c'' ''d'', ei_subject = ''s'',
     ei_payload = as_bytes ''1'', ei_route_index = 0\<rparr>"

lemma sample_classified:
  "classify sha (\<lambda>_. Some sample_envelope) (classifier_new sample_routes ''b'') sample_change = Inr (sample_item sha)"
  by (simp add: classify_def classifier_new_def sample_routes_def sample_change_def sample_envelope_def
      sample_item_def BRIDGE_ENVELOPE_VERSION_def MAX_INGRESS_PAYLOAD_BYTES_def)

theorem classified_items_exact_witness:
  "\<exists>e i. sample_envelope = e \<and> i < length sample_routes \<and> be_source_node_id e \<noteq> ''b''
    \<and> sm_subject (sample_routes ! i) = be_subject e
    \<and> ei_payload (sample_item sample_sha) = as_bytes (be_payload e)"
proof -
  have "distinct (map sm_collection sample_routes)" by (simp add: sample_routes_def)
  from classified_items_exact [OF this, THEN iffD1, OF sample_classified [of sample_sha]]
  show ?thesis by fastforce
qed

section \<open>The diagnostics limiter\<close>

lemma diagnostic_classification_less: "diagnostic_classification k < EGRESS_DIAGNOSTIC_CLASSIFICATIONS"
  by (cases k rule: diagnostic_classification.cases) (simp_all add: EGRESS_DIAGNOSTIC_CLASSIFICATIONS_def)

lemma diagnostic_classification_inj: "diagnostic_classification k = diagnostic_classification k' \<longleftrightarrow> k = k'"
  by (cases k rule: diagnostic_classification.cases; cases k' rule: diagnostic_classification.cases) simp_all

definition diagnostics_ok :: "egress_diagnostics \<Rightarrow> bool" where
  "diagnostics_ok ed \<longleftrightarrow> length (ed_buckets ed) = (ed_route_count ed + 1) * EGRESS_DIAGNOSTIC_CLASSIFICATIONS"

definition bucket_at :: "egress_diagnostics \<Rightarrow> nat \<Rightarrow> warning_bucket option" where
  "bucket_at ed i = (if i < length (ed_buckets ed) then Some (ed_buckets ed ! i) else None)"

lemma diagnostic_index_bound:
  assumes "diagnostics_ok ed"
  shows "diagnostic_index a ed < length (ed_buckets ed)"
proof -
  let ?n = EGRESS_DIAGNOSTIC_CLASSIFICATIONS and ?c = "diagnostic_classification (ea_kind a)"
  define b where "b = (case ea_route_index a of Some i \<Rightarrow> if i < ed_route_count ed then i + 1 else 0 | None \<Rightarrow> 0)"
  have b: "diagnostic_index a ed = b * ?n + ?c" "b \<le> ed_route_count ed"
    by (auto simp: diagnostic_index_def b_def Let_def split: option.split)
  have "b * ?n + ?c < (b + 1) * ?n" using diagnostic_classification_less by simp
  also have "\<dots> \<le> length (ed_buckets ed)" using assms b(2) unfolding diagnostics_ok_def by simp
  finally show ?thesis using b(1) by simp
qed

interpretation diagnostics: rate_limiter EGRESS_DIAGNOSTIC_INTERVAL diagnostic_bucket bucket_at
  by unfold_locales
    (auto simp: diagnostic_bucket_def bucket_at_def split: prod.splits if_splits)

text \<open>The emissions, with their times, of a sequence of actions.\<close>

fun diagnostics_run ::
  "(egress_action \<times> nat) list \<Rightarrow> egress_diagnostics \<Rightarrow> (nat \<times> egress_action) list \<times> egress_diagnostics" where
  "diagnostics_run [] ed = ([], ed)"
| "diagnostics_run ((a, t) # evs) ed =
     (case diagnostics_record_at a t ed of (x, ed') \<Rightarrow>
        (case diagnostics_run evs ed' of (es, ed'') \<Rightarrow>
           ((case x of None \<Rightarrow> [] | Some b \<Rightarrow> [(t, b)]) @ es, ed'')))"

lemma diagnostics_record_at_shape:
  assumes "diagnostics_record_at a t ed = (x, ed')"
  shows "ed_route_count ed' = ed_route_count ed" "length (ed_buckets ed') = length (ed_buckets ed)"
    "diagnostic_index b ed' = diagnostic_index b ed" "x = Some b \<Longrightarrow> diagnostic_index b ed = diagnostic_index a ed"
proof -
  show count: "ed_route_count ed' = ed_route_count ed" and "length (ed_buckets ed') = length (ed_buckets ed)"
    using assms by (auto simp: diagnostics_record_at_def diagnostic_bucket_def split: prod.splits)
  show "diagnostic_index b ed' = diagnostic_index b ed" unfolding diagnostic_index_def count ..
  assume "x = Some b"
  then obtain n where "b = a\<lparr>ea_suppressed_count := n\<rparr>"
    using assms by (auto simp: diagnostics_record_at_def split: prod.splits)
  then show "diagnostic_index b ed = diagnostic_index a ed" by (simp add: diagnostic_index_def)
qed

lemma diagnostics_run_limiter:
  "map (\<lambda>(t, a). (t, ea_suppressed_count a)) (filter (\<lambda>e. diagnostic_index (snd e) ed = i) (fst (diagnostics_run evs ed)))
     = fst (limiter_run diagnostic_bucket i (map (\<lambda>(a, t). (diagnostic_index a ed, t)) evs) ed)
   \<and> snd (diagnostics_run evs ed)
     = snd (limiter_run diagnostic_bucket i (map (\<lambda>(a, t). (diagnostic_index a ed, t)) evs) ed)"
proof (induction evs arbitrary: ed)
  case (Cons ev evs)
  obtain a t where ev: "ev = (a, t)" by fastforce
  obtain y ed' where one: "diagnostic_bucket (diagnostic_index a ed) t ed = (y, ed')" by fastforce
  then have rec: "diagnostics_record_at a t ed = (map_option (\<lambda>n. a\<lparr>ea_suppressed_count := n\<rparr>) y, ed')"
    by (simp add: diagnostics_record_at_def)
  obtain es ed'' where rest: "diagnostics_run evs ed' = (es, ed'')" by fastforce
  show ?case
    using Cons.IH [of ed'] diagnostics_record_at_shape(3) [OF rec] diagnostics_record_at_shape(4) [OF rec] ev one rec rest
    by (auto split: prod.splits option.splits)
qed simp

lemma diagnostic_index_eq:
  "diagnostic_index a ed = diagnostic_index b ed \<longleftrightarrow> ea_kind a = ea_kind b
    \<and> (case ea_route_index a of Some i \<Rightarrow> if i < ed_route_count ed then i + 1 else 0 | None \<Rightarrow> 0)
      = (case ea_route_index b of Some i \<Rightarrow> if i < ed_route_count ed then i + 1 else 0 | None \<Rightarrow> 0)"
proof -
  have "x * n + c = y * n + d \<longleftrightarrow> c = d \<and> x = y" if "c < n" "d < n" for x y c d n :: nat
    using that by (metis add.commute div_mult_self3 div_less mod_less mod_mult_self3 gr_implies_not0 add_0)
  from this [OF diagnostic_classification_less diagnostic_classification_less]
  show ?thesis
    unfolding diagnostic_index_def Let_def using diagnostic_classification_inj by blast
qed

text \<open>
  Diagnostics are rate limited and lose nothing.  Over any sequence of actions in time order, those
  emitted for one kind of action and one route are at least 60 seconds apart, and together with
  the counts they carry and the bucket's count they account for every action of that kind and
  route.
\<close>

lemma egress_diagnostics_limited:
  fixes a n evs
  defines "ed \<equiv> egress_diagnostics_new n" and "same \<equiv> (\<lambda>b. diagnostic_index b (egress_diagnostics_new n)
      = diagnostic_index a (egress_diagnostics_new n))"
  assumes "sorted (map snd evs)" and "length evs < 2 ^ 64"
  shows "sorted_wrt (\<lambda>x y. fst x + EGRESS_DIAGNOSTIC_INTERVAL \<le> fst y)
           (filter (\<lambda>e. same (snd e)) (fst (diagnostics_run evs ed)))
    \<and> length (filter (\<lambda>e. same (fst e)) evs)
      = length (filter (\<lambda>e. same (snd e)) (fst (diagnostics_run evs ed)))
        + (\<Sum>e\<leftarrow>filter (\<lambda>e. same (snd e)) (fst (diagnostics_run evs ed)). unat (ea_suppressed_count (snd e)))
        + unat (suppressed (ed_buckets (snd (diagnostics_run evs ed)) ! diagnostic_index a ed))"
proof -
  define i where "i = diagnostic_index a ed"
  define ks where "ks = map (\<lambda>(a, t). (diagnostic_index a ed, t)) evs"
  define mine where "mine = filter (\<lambda>e. same (snd e)) (fst (diagnostics_run evs ed))"
  have run: "map (\<lambda>(t, a). (t, ea_suppressed_count a)) mine = fst (limiter_run diagnostic_bucket i ks ed)"
    "snd (diagnostics_run evs ed) = snd (limiter_run diagnostic_bucket i ks ed)"
    using diagnostics_run_limiter [of ed i evs] by (simp_all add: mine_def ks_def i_def same_def ed_def)
  have "diagnostics_ok ed" by (simp add: diagnostics_ok_def ed_def egress_diagnostics_new_def)
  from diagnostic_index_bound [OF this] have "i < length (ed_buckets ed)" by (simp add: i_def)
  then have b: "bucket_at ed i = Some empty_bucket"
    by (simp add: bucket_at_def ed_def egress_diagnostics_new_def)
  have "sorted (map snd ks)" using assms(3) by (simp add: ks_def comp_def case_prod_beta')
  from diagnostics.limiter_spaced [OF b this] have spaced: "sorted_wrt (\<lambda>x y. fst x + EGRESS_DIAGNOSTIC_INTERVAL \<le> fst y) mine"
    by (simp add: run(1) [symmetric] sorted_wrt_map case_prod_beta')
  have times: "length (key_times i ks) = length (filter (\<lambda>e. same (fst e)) evs)"
    by (simp add: key_times_def ks_def filter_map comp_def case_prod_beta' same_def i_def ed_def)
  then have small: "unat (suppressed empty_bucket) + length (key_times i ks) < 2 ^ 64"
    using assms(4) le_less_trans [OF length_filter_le] by (simp add: empty_bucket_def)
  obtain b' where b': "bucket_at (snd (limiter_run diagnostic_bucket i ks ed)) i = Some b'"
    using diagnostics.limiter_project [OF b] by blast
  then have "b' = ed_buckets (snd (diagnostics_run evs ed)) ! i"
    by (simp add: run(2) bucket_at_def split: if_splits)
  with diagnostics.limiter_counts [OF b small b']
  have "length (filter (\<lambda>e. same (fst e)) evs) = length mine
      + (\<Sum>e\<leftarrow>mine. unat (ea_suppressed_count (snd e)))
      + unat (suppressed (ed_buckets (snd (diagnostics_run evs ed)) ! i))"
    unfolding times run(1) [symmetric] by (simp add: empty_bucket_def comp_def case_prod_beta')
  with spaced show ?thesis by (simp only: mine_def i_def)
qed

lemma egress_diagnostics_limited_witness:
  "\<exists>a evs. evs = [(a, 0), (a, 5), (a, 60000)]
    \<and> length (filter (\<lambda>e. diagnostic_index (fst e) (egress_diagnostics_new 0) = diagnostic_index a (egress_diagnostics_new 0)) evs) = 3
    \<and> sorted_wrt (\<lambda>x y. fst x + EGRESS_DIAGNOSTIC_INTERVAL \<le> fst y)
       (filter (\<lambda>e. diagnostic_index (snd e) (egress_diagnostics_new 0) = diagnostic_index a (egress_diagnostics_new 0))
         (fst (diagnostics_run evs (egress_diagnostics_new 0))))"
proof -
  define a where "a = \<lparr>ea_kind = Published, ea_route_index = None, ea_payload_bytes = None, ea_suppressed_count = 0\<rparr>"
  have "sorted (map snd [(a, 0), (a, 5), (a, 60000 :: nat)])" "length [(a, 0), (a, 5), (a, 60000 :: nat)] < 2 ^ 64"
    by simp_all
  from egress_diagnostics_limited [OF this, of 0 a] show ?thesis
    by (intro exI [of _ a] exI [of _ "[(a, 0), (a, 5), (a, 60000)]"]) simp
qed

end
