(* ===== verification/Node_Changes.thy ===== *)
theory Node_Changes
  imports Relay_Fanout Bridge_Egress
begin

text \<open>
  The tasks of \<open>src/src/node.rs\<close> that follow the store's change notifications: \<open>sync_on_change\<close> feeds the relay
  queue, \<open>forward_store_changes\<close> the clients' change stream and \<open>forward_bridge_changes\<close> the bridge's egress,
  both with counted and rate-limited rejections.  At the end the decisions of Kubernetes discovery.
\<close>

section \<open>Notifications and rejections\<close>

datatype change_origin = LocalChange | RemoteChange string

datatype node_change_path = PublicObserver | BridgeRemote

datatype node_change_reject_kind =
    RejectInvalidKey | RejectIdentityTooLarge | RejectStoreRead | RejectEncodedTooLarge | RejectStructuralLimit
  | RejectDecrypt | RejectConversion | RejectEventTooLarge

definition NODE_CHANGE_REJECT_KINDS :: nat where
  "NODE_CHANGE_REJECT_KINDS = 8"

definition NODE_CHANGE_WARNING_INTERVAL :: nat where
  "NODE_CHANGE_WARNING_INTERVAL = 60000"

fun reject_kind_index :: "node_change_reject_kind \<Rightarrow> nat" where
  "reject_kind_index RejectInvalidKey = 0"
| "reject_kind_index RejectIdentityTooLarge = 1"
| "reject_kind_index RejectStoreRead = 2"
| "reject_kind_index RejectEncodedTooLarge = 3"
| "reject_kind_index RejectStructuralLimit = 4"
| "reject_kind_index RejectDecrypt = 5"
| "reject_kind_index RejectConversion = 6"
| "reject_kind_index RejectEventTooLarge = 7"

fun change_index :: "node_change_path \<Rightarrow> node_change_reject_kind \<Rightarrow> nat" where
  "change_index PublicObserver k = reject_kind_index k"
| "change_index BridgeRemote k = NODE_CHANGE_REJECT_KINDS + reject_kind_index k"

record change_diagnostics =
  cd_counters :: "u64 list"
  cd_warnings :: "warning_bucket list"

definition change_diagnostics_new :: change_diagnostics where
  "change_diagnostics_new = \<lparr>cd_counters = replicate (2 * NODE_CHANGE_REJECT_KINDS) 0,
     cd_warnings = replicate (2 * NODE_CHANGE_REJECT_KINDS) empty_bucket\<rparr>"

text \<open>The result is the suppressed count of the warning emitted, if one is.\<close>

definition change_record :: "nat \<Rightarrow> nat \<Rightarrow> change_diagnostics \<Rightarrow> u64 option \<times> change_diagnostics" where
  "change_record i now cd =
     (case bucket_record NODE_CHANGE_WARNING_INTERVAL now (cd_warnings cd ! i) of
        (x, b) \<Rightarrow> (x, cd\<lparr>cd_counters := (cd_counters cd)[i := cd_counters cd ! i + 1], cd_warnings := (cd_warnings cd)[i := b]\<rparr>))"

definition change_record_at ::
  "node_change_path \<Rightarrow> node_change_reject_kind \<Rightarrow> nat \<Rightarrow> change_diagnostics \<Rightarrow> u64 option \<times> change_diagnostics" where
  "change_record_at path kind now cd = change_record (change_index path kind) now cd"

section \<open>Forwarding to the relay\<close>

datatype 'a change_recv = ChangeReceived 'a | ChangeLagged nat | ChangeClosed

text \<open>One turn of the loop, and whether it goes on.\<close>

fun sync_on_change :: "(string \<Rightarrow> nat) \<Rightarrow> (string \<times> change_origin) change_recv \<Rightarrow> fanout \<Rightarrow> bool \<times> fanout" where
  "sync_on_change qos (ChangeReceived (key, LocalChange)) q = (True, fst (enqueue qos key AllPeers q))"
| "sync_on_change qos (ChangeReceived (key, RemoteChange s)) q = (True, fst (enqueue qos key (ExcludeSource s) q))"
| "sync_on_change qos (ChangeLagged n) q = (True, q)"
| "sync_on_change qos ChangeClosed q = (False, fanout_close q)"

section \<open>Forwarding to clients\<close>

datatype 'e forwarded = Rejects node_change_reject_kind | Ignores | Forwards 'e

definition public_text :: "('n, 'd, 's) node_env \<Rightarrow> 'd \<Rightarrow> string option" where
  "public_text env doc =
     (let j = ne_of_automerge env doc
      in case encrypted_value j of Some s \<Rightarrow> Some s | None \<Rightarrow> to_str (ne_serde env) j)"

definition store_change ::
  "('n, 'd, 's) node_env \<Rightarrow> store_cipher option \<Rightarrow> 's \<Rightarrow> string \<Rightarrow> change_event forwarded" where
  "store_change env cipher s key =
     (case split_once (CHR '':'') key of
        None \<Rightarrow> Rejects RejectInvalidKey
      | Some (coll, doc_id) \<Rightarrow>
          if length coll > MAX_BRIDGE_IDENTITY_BYTES \<or> length doc_id > MAX_BRIDGE_IDENTITY_BYTES
          then Rejects RejectIdentityTooLarge
          else
            let event = (\<lambda>data. Forwards \<lparr>ce_collection = coll, ce_doc_id = doc_id, ce_type = UpsertChange, ce_json = data\<rparr>)
            in case ne_get env key s of
                 None \<Rightarrow> Rejects RejectStoreRead
               | Some None \<Rightarrow> event None
               | Some (Some doc) \<Rightarrow>
                   (case public_text env doc of
                      None \<Rightarrow> Rejects RejectConversion
                    | Some v \<Rightarrow>
                        (case maybe_decrypt (ne_crypto env) cipher (Some v) of
                           Inl _ \<Rightarrow> Rejects RejectDecrypt
                         | Inr data \<Rightarrow> event data)))"

section \<open>Forwarding to the bridge\<close>

definition bridge_document_event ::
  "('n, 'd, 's) node_env \<Rightarrow> store_cipher option \<Rightarrow> 'd \<Rightarrow> node_change_reject_kind + string" where
  "bridge_document_event env cipher doc =
     (if ne_encoded_len env doc > MAX_BRIDGE_AUTOMERGE_BYTES then Inl RejectEncodedTooLarge
      else if \<not> preflight_event_document (ne_view env doc) then Inl RejectStructuralLimit
      else
        let snapshot = ne_of_automerge env doc
        in case (case encrypted_value snapshot of
                   Some e \<Rightarrow>
                     (case cipher of
                        None \<Rightarrow> Inl RejectDecrypt
                      | Some c \<Rightarrow> (case cipher_decrypt (ne_crypto env) c e of Inl _ \<Rightarrow> Inl RejectDecrypt | Inr p \<Rightarrow> Inr p))
                 | None \<Rightarrow>
                     (case to_str (ne_serde env) snapshot of None \<Rightarrow> Inl RejectConversion | Some t \<Rightarrow> Inr t)) of
             Inl k \<Rightarrow> Inl k
           | Inr t \<Rightarrow> if length t > MAX_BRIDGE_EVENT_JSON_BYTES then Inl RejectEventTooLarge else Inr t)"

definition bridge_change ::
  "('n, 'd, 's) node_env \<Rightarrow> store_cipher option \<Rightarrow> 's \<Rightarrow> string \<times> change_origin \<Rightarrow> bridge_change_event forwarded" where
  "bridge_change env cipher s chg =
     (case chg of
        (key, LocalChange) \<Rightarrow> Ignores
      | (key, RemoteChange peer) \<Rightarrow>
          (case split_once (CHR '':'') key of
             None \<Rightarrow> Rejects RejectInvalidKey
           | Some (coll, doc_id) \<Rightarrow>
               if length coll > MAX_BRIDGE_IDENTITY_BYTES \<or> length doc_id > MAX_BRIDGE_IDENTITY_BYTES
                  \<or> length peer > MAX_BRIDGE_IDENTITY_BYTES
               then Rejects RejectIdentityTooLarge
               else case ne_get env key s of
                 None \<Rightarrow> Rejects RejectStoreRead
               | Some None \<Rightarrow> Ignores
               | Some (Some doc) \<Rightarrow>
                   (case bridge_document_event env cipher doc of
                      Inl k \<Rightarrow> Rejects k
                    | Inr t \<Rightarrow> Forwards \<lparr>bce_collection = coll, bce_doc_id = doc_id, bce_remote_peer_id = peer, bce_json_data = t\<rparr>)))"

text \<open>A forwarder's turn: the event joins the channel, or the rejection is recorded on its path.\<close>

definition forward_turn ::
  "node_change_path \<Rightarrow> nat \<Rightarrow> 'e forwarded \<Rightarrow> 'e list \<times> change_diagnostics \<Rightarrow> 'e list \<times> change_diagnostics" where
  "forward_turn path now r st =
     (case r of
        Rejects k \<Rightarrow> (fst st, snd (change_record_at path k now (snd st)))
      | Ignores \<Rightarrow> st
      | Forwards e \<Rightarrow> (fst st @ [e], snd st))"

text \<open>\<open>forward_store_changes\<close> and \<open>forward_bridge_changes\<close> on a sequence of receives, each at its time and store.\<close>

fun forward_changes ::
  "node_change_path \<Rightarrow> ('s \<Rightarrow> 'c \<Rightarrow> 'e forwarded) \<Rightarrow> (nat \<times> 's \<times> 'c change_recv) list
    \<Rightarrow> 'e list \<times> change_diagnostics \<Rightarrow> 'e list \<times> change_diagnostics" where
  "forward_changes path step [] st = st"
| "forward_changes path step ((now, s, ChangeReceived c) # rs) st = forward_changes path step rs (forward_turn path now (step s c) st)"
| "forward_changes path step ((now, s, ChangeLagged n) # rs) st = forward_changes path step rs st"
| "forward_changes path step ((now, s, ChangeClosed) # rs) st = st"

section \<open>Kubernetes discovery\<close>

datatype k8s_identity = DerivedIdentity bytes | MissingPodName | EmptySharedKey | InvalidSharedKey

definition resolve_k8s_identity :: "crypto_lib \<Rightarrow> string option \<Rightarrow> string \<Rightarrow> k8s_identity" where
  "resolve_k8s_identity lib pod_name shared_key =
     (case pod_name of
        None \<Rightarrow> MissingPodName
      | Some pn \<Rightarrow>
          if pn = [] then MissingPodName
          else if shared_key = [] then EmptySharedKey
          else case b64_decode lib shared_key of
            Some key \<Rightarrow> DerivedIdentity (derive_iroh_node_key lib key pn)
          | None \<Rightarrow> InvalidSharedKey)"

datatype 'i k8s_dial = SkipSelf | SkipNoAddresses | SkipAlreadyConnected | Dial 'i

definition k8s_dial_decision ::
  "crypto_lib \<Rightarrow> (bytes \<Rightarrow> 'i) \<Rightarrow> string \<times> 'a list \<Rightarrow> string option \<Rightarrow> bytes \<Rightarrow> 'i list \<Rightarrow> 'i k8s_dial" where
  "k8s_dial_decision lib public peer our_pod_name shared_key connected =
     (if our_pod_name = Some (fst peer) then SkipSelf
      else if snd peer = [] then SkipNoAddresses
      else let peer_id = public (derive_iroh_node_key lib shared_key (fst peer))
           in if peer_id \<in> set connected then SkipAlreadyConnected else Dial peer_id)"

section \<open>Lemmas\<close>

lemma reject_kind_index_inj: "reject_kind_index j = reject_kind_index k \<Longrightarrow> j = k"
  by (cases j; cases k) simp_all

lemma reject_kind_index_less: "reject_kind_index k < NODE_CHANGE_REJECT_KINDS"
  by (cases k) (simp_all add: NODE_CHANGE_REJECT_KINDS_def)

text \<open>Every path and kind has a bucket of its own.\<close>

lemma change_index_inj: "change_index p j = change_index q k \<Longrightarrow> p = q \<and> j = k"
  using reject_kind_index_less [of j] reject_kind_index_less [of k]
  by (cases p; cases q) (auto dest: reject_kind_index_inj)

lemma change_index_less: "change_index p k < 2 * NODE_CHANGE_REJECT_KINDS"
  using reject_kind_index_less [of k] by (cases p) auto

definition change_bucket :: "change_diagnostics \<Rightarrow> nat \<Rightarrow> warning_bucket option" where
  "change_bucket cd i = (if i < length (cd_warnings cd) then Some (cd_warnings cd ! i) else None)"

interpretation changes: rate_limiter NODE_CHANGE_WARNING_INTERVAL change_record change_bucket
  by unfold_locales (auto simp: change_record_def change_bucket_def split: prod.splits if_splits)

text \<open>Warnings of one path and kind are a minute apart, whatever else is rejected.\<close>

lemma change_warnings_spaced:
  "sorted (map snd evs) \<Longrightarrow>
    sorted_wrt (\<lambda>x y. fst x + NODE_CHANGE_WARNING_INTERVAL \<le> fst y)
      (fst (limiter_run change_record (change_index p k) evs change_diagnostics_new))"
  by (rule changes.limiter_spaced [where b = empty_bucket])
    (use change_index_less in \<open>simp_all add: change_bucket_def change_diagnostics_new_def\<close>)

lemma document_event_reads:
  "bridge_document_event env cipher doc = Inr t \<Longrightarrow> n_cipher nd = cipher \<Longrightarrow>
    ne_get env (doc_key coll doc_id) (n_store nd) = Some (Some doc) \<Longrightarrow>
    length coll \<le> MAX_BRIDGE_IDENTITY_BYTES \<Longrightarrow> length doc_id \<le> MAX_BRIDGE_IDENTITY_BYTES \<Longrightarrow>
    get_bridge_document env coll doc_id nd = Inr (Some t)"
  by (auto simp: bridge_document_event_def get_bridge_document_def Let_def
      split: if_splits option.splits sum.splits)

lemma reads_document_event:
  assumes "get_bridge_document env coll doc_id nd = Inr (Some t)"
  obtains doc where "ne_get env (doc_key coll doc_id) (n_store nd) = Some (Some doc)"
    "bridge_document_event env (n_cipher nd) doc = Inr t"
    "length coll \<le> MAX_BRIDGE_IDENTITY_BYTES" "length doc_id \<le> MAX_BRIDGE_IDENTITY_BYTES"
  using assms
  by (auto simp: bridge_document_event_def get_bridge_document_def Let_def
      split: if_splits option.splits sum.splits)

section \<open>Properties\<close>

text \<open>
  C29: The live path and the reconciliation path read a document alike: a remote change is forwarded to the
  bridge exactly when its key splits into a collection and a document that \<open>get_bridge_document\<close> returns, with the
  same text, and the peer's name is within the limit.
\<close>

theorem bridge_change_reads_document:
  "bridge_change env (n_cipher nd) (n_store nd) (key, RemoteChange peer) = Forwards ev
   \<longleftrightarrow> (\<exists>coll doc_id t. split_once (CHR '':'') key = Some (coll, doc_id)
        \<and> get_bridge_document env coll doc_id nd = Inr (Some t) \<and> length peer \<le> MAX_BRIDGE_IDENTITY_BYTES
        \<and> ev = \<lparr>bce_collection = coll, bce_doc_id = doc_id, bce_remote_peer_id = peer, bce_json_data = t\<rparr>)"
  (is "?forwards \<longleftrightarrow> ?reads")
proof
  assume fw: ?forwards
  then obtain coll doc_id doc t where key: "split_once (CHR '':'') key = Some (coll, doc_id)"
    and doc: "ne_get env key (n_store nd) = Some (Some doc)" "bridge_document_event env (n_cipher nd) doc = Inr t"
    and len: "length coll \<le> MAX_BRIDGE_IDENTITY_BYTES" "length doc_id \<le> MAX_BRIDGE_IDENTITY_BYTES" "length peer \<le> MAX_BRIDGE_IDENTITY_BYTES"
    and ev: "ev = \<lparr>bce_collection = coll, bce_doc_id = doc_id, bce_remote_peer_id = peer, bce_json_data = t\<rparr>"
    by (auto simp: bridge_change_def split: option.splits prod.splits if_splits sum.splits)
  have "doc_key coll doc_id = key" using split_once_SomeD [OF key] by (simp add: doc_key_def)
  then have "get_bridge_document env coll doc_id nd = Inr (Some t)"
    using document_event_reads [OF doc(2) refl _ len(1,2)] doc(1) by simp
  with key len ev show ?reads by blast
next
  assume ?reads
  then obtain coll doc_id t where key: "split_once (CHR '':'') key = Some (coll, doc_id)"
    and got: "get_bridge_document env coll doc_id nd = Inr (Some t)" and peer: "length peer \<le> MAX_BRIDGE_IDENTITY_BYTES"
    and ev: "ev = \<lparr>bce_collection = coll, bce_doc_id = doc_id, bce_remote_peer_id = peer, bce_json_data = t\<rparr>" by blast
  have k: "doc_key coll doc_id = key" using split_once_SomeD [OF key] by (simp add: doc_key_def)
  obtain doc where "ne_get env (doc_key coll doc_id) (n_store nd) = Some (Some doc)"
    "bridge_document_event env (n_cipher nd) doc = Inr t"
    "length coll \<le> MAX_BRIDGE_IDENTITY_BYTES" "length doc_id \<le> MAX_BRIDGE_IDENTITY_BYTES"
    by (rule reads_document_event [OF got])
  then show ?forwards using key k peer ev by (simp add: bridge_change_def)
qed

text \<open>A local change never reaches the bridge.\<close>

lemma local_change_ignored: "bridge_change env cipher s (key, LocalChange) = Ignores"
  by (simp add: bridge_change_def)

text \<open>Without a cipher a client is shown the ciphertext, while the bridge rejects the document.\<close>

lemma ciphertext_shown_to_clients:
  assumes "split_once (CHR '':'') key = Some (coll, doc_id)" "length coll \<le> MAX_BRIDGE_IDENTITY_BYTES"
    "length doc_id \<le> MAX_BRIDGE_IDENTITY_BYTES" "ne_get env key s = Some (Some doc)"
    "encrypted_value (ne_of_automerge env doc) = Some v"
  shows "\<exists>ev. store_change env None s key = Forwards ev \<and> ce_json ev = Some v"
    and "\<nexists>ev. bridge_change env None s (key, RemoteChange peer) = Forwards ev"
proof -
  have "is_encrypted v" using assms(5) by (auto simp: encrypted_value_def split: option.splits if_splits)
  then show "\<exists>ev. store_change env None s key = Forwards ev \<and> ce_json ev = Some v"
    using assms by (simp add: store_change_def public_text_def maybe_decrypt_def Let_def)
  show "\<nexists>ev. bridge_change env None s (key, RemoteChange peer) = Forwards ev"
    using assms by (auto simp: bridge_change_def bridge_document_event_def Let_def)
qed

text \<open>Two nodes with one shared key agree: a node is dialled at the identity it derives for itself.\<close>

lemma dialled_at_own_identity:
  assumes "resolve_k8s_identity lib (Some name) sk = DerivedIdentity seed" "b64_decode lib sk = Some key"
    and "k8s_dial_decision lib public (name, addrs) us key connected = Dial i"
  shows "i = public seed \<and> us \<noteq> Some name \<and> i \<notin> set connected"
  using assms by (auto simp: resolve_k8s_identity_def k8s_dial_decision_def Let_def split: if_splits)

end
