(* ===== verification/Egress_Once.thy ===== *)
theory Egress_Once
  imports Bridge_Egress
begin

text \<open>
  At most once, end to end (\<open>src/src/nats_bridge/egress.rs\<close> over \<open>ledger.rs\<close>).  \<open>bridge_step\<close> interleaves
  any number of deliveries in flight, the publishing worker, readiness changes and the loss of
  the process at any moment with a restart on what the disk kept.  The invariant says that an
  item between its reservation and its publication is the only one with its digest, and that
  the digest is in the delivery journal; the contract \<open>grant_once\<close> then bounds publications over
  whole runs.  The delivery journal's directory is not shared with other writers here.
\<close>

section \<open>Steps\<close>

record 'p bridge =
  br_egress :: "'p egress"
  br_admitted :: "egress_item list"
  br_reserved :: "egress_item list"
  br_sent :: "(egress_item \<times> (egress_failure_kind + unit)) option"

datatype bridge_event =
    Admitted egress_item
  | Dropped egress_action_kind
  | Granted egress_item
  | Queued egress_item
  | SentOut egress_item
  | Finished
  | StatusChanged
  | WorkerGone
  | ProcessRestarted

inductive bridge_step ::
  "(bytes \<Rightarrow> bytes) \<Rightarrow> (string \<Rightarrow> bridge_envelope option) \<Rightarrow> 'p nats_client \<Rightarrow> string
    \<Rightarrow> 'p bridge \<Rightarrow> bridge_event \<Rightarrow> 'p bridge \<Rightarrow> bool" for sha decode nc origin where
  admit: "deliver_admit sha decode now ev (br_egress b) = (Inr item, st)
    \<Longrightarrow> bridge_step sha decode nc origin b (Admitted item)
          (b\<lparr>br_egress := st, br_admitted := br_admitted b @ [item]\<rparr>)"
| skip: "deliver_admit sha decode now ev (br_egress b) = (Inl k, st)
    \<Longrightarrow> bridge_step sha decode nc origin b (Dropped k) (b\<lparr>br_egress := st\<rparr>)"
| grant: "br_admitted b = xs @ item # ys \<Longrightarrow> deliver_reserve sha now item (br_egress b) = (Inr (), st)
    \<Longrightarrow> bridge_step sha decode nc origin b (Granted item)
          (b\<lparr>br_egress := st, br_admitted := xs @ ys, br_reserved := br_reserved b @ [item]\<rparr>)"
| refuse: "br_admitted b = xs @ item # ys \<Longrightarrow> deliver_reserve sha now item (br_egress b) = (Inl k, st)
    \<Longrightarrow> bridge_step sha decode nc origin b (Dropped k) (b\<lparr>br_egress := st, br_admitted := xs @ ys\<rparr>)"
| queue: "br_reserved b = xs @ item # ys \<Longrightarrow> deliver_enqueue now item (br_egress b) = (Inr (), st)
    \<Longrightarrow> bridge_step sha decode nc origin b (Queued item) (b\<lparr>br_egress := st, br_reserved := xs @ ys\<rparr>)"
| shed_item: "br_reserved b = xs @ item # ys \<Longrightarrow> deliver_enqueue now item (br_egress b) = (Inl k, st)
    \<Longrightarrow> bridge_step sha decode nc origin b (Dropped k) (b\<lparr>br_egress := st, br_reserved := xs @ ys\<rparr>)"
| publish: "br_sent b = None \<Longrightarrow> eg_queue (br_egress b) = item # q
    \<Longrightarrow> egress_publish nc origin item ((br_egress b)\<lparr>eg_queue := q\<rparr>) = (r, st)
    \<Longrightarrow> bridge_step sha decode nc origin b (SentOut item) (b\<lparr>br_egress := st, br_sent := Some (item, r)\<rparr>)"
| finish: "br_sent b = Some (item, r) \<Longrightarrow> egress_finish sha now item r (br_egress b) = Some st
    \<Longrightarrow> bridge_step sha decode nc origin b Finished (b\<lparr>br_egress := st, br_sent := None\<rparr>)"
| status: "bridge_step sha decode nc origin b StatusChanged
    (b\<lparr>br_egress := (br_egress b)\<lparr>eg_status := snd (readiness_apply op (eg_status (br_egress b)))\<rparr>\<rparr>)"
| worker_gone: "bridge_step sha decode nc origin b WorkerGone
    (b\<lparr>br_egress := (br_egress b)\<lparr>eg_open := False, eg_queue := []\<rparr>, br_sent := None\<rparr>)"
| restart: "crash (eg_disk (br_egress b)) d \<Longrightarrow> plan d = [] \<Longrightarrow> worker_spawn sha Delivery d = (Inr w, d')
    \<Longrightarrow> bridge_step sha decode nc origin b ProcessRestarted
          \<lparr>br_egress = egress_new mappings node_id status w (d'\<lparr>plan := os\<rparr>) c,
           br_admitted = [], br_reserved = [], br_sent = None\<rparr>"

definition waiting :: "'p bridge \<Rightarrow> ledger_digest list" where
  "waiting b = map ei_digest (br_reserved b @ eg_queue (br_egress b))"

definition bridge_inv :: "(bytes \<Rightarrow> bytes) \<Rightarrow> 'p bridge \<Rightarrow> bool" where
  "bridge_inv sha b \<longleftrightarrow>
     (\<forall>x. length (sha x) = 32)
     \<and> worker_durable sha (eg_ledger (br_egress b)) (eg_disk (br_egress b))
     \<and> jkind (wjournal (eg_ledger (br_egress b))) = Delivery
     \<and> (\<forall>item\<in>set (br_admitted b). length (digest_bytes (ei_digest item)) = 32)
     \<and> distinct (waiting b)
     \<and> (\<forall>dg\<in>set (waiting b). holds (eg_ledger (br_egress b)) dg \<and> length (digest_bytes dg) = 32)
     \<and> (\<forall>x\<in>set_option (br_sent b). holds (eg_ledger (br_egress b)) (ei_digest (fst x))
          \<and> length (digest_bytes (ei_digest (fst x))) = 32)"

text \<open>A digest that can no longer be published: reserved earlier, and not waiting any more.\<close>

definition spent :: "'p bridge \<Rightarrow> ledger_digest \<Rightarrow> bool" where
  "spent b dg \<longleftrightarrow> holds (eg_ledger (br_egress b)) dg \<and> dg \<notin> set (waiting b)"

fun sends :: "bridge_event \<Rightarrow> ledger_digest \<Rightarrow> bool" where
  "sends (SentOut item) dg \<longleftrightarrow> ei_digest item = dg"
| "sends _ _ \<longleftrightarrow> False"

section \<open>Frames\<close>

lemma record_action_frame [simp]:
  "eg_queue (record_action k r p now st) = eg_queue st" "eg_ledger (record_action k r p now st) = eg_ledger st"
  "eg_disk (record_action k r p now st) = eg_disk st" "eg_open (record_action k r p now st) = eg_open st"
  "eg_status (record_action k r p now st) = eg_status st"
  "eg_classifier (record_action k r p now st) = eg_classifier st"
  "eg_client (record_action k r p now st) = eg_client st"
  "eg_stats (record_action k r p now st) = count_action k (eg_stats st)"
  by (simp_all add: record_action_def diagnose_def split: prod.split)

lemma deliver_admit_frame:
  assumes "deliver_admit sha decode now ev st = (r, st')"
  shows "eg_queue st' = eg_queue st" "eg_ledger st' = eg_ledger st" "eg_disk st' = eg_disk st"
    "r = Inr item \<Longrightarrow> classify sha decode (eg_classifier st) ev = Inr item"
  using assms by (auto simp: deliver_admit_def Let_def split: sum.splits if_splits)

lemma deliver_enqueue_cases:
  assumes "deliver_enqueue now item st = (r, st')"
  shows "eg_ledger st' = eg_ledger st" "eg_disk st' = eg_disk st"
    "eg_queue st' = (if r = Inr () then eg_queue st @ [item] else eg_queue st)"
  using assms by (auto simp: deliver_enqueue_def split: if_splits)

lemma egress_publish_frame:
  assumes "egress_publish nc origin item st = (r, st')"
  shows "eg_ledger st' = eg_ledger st" "eg_disk st' = eg_disk st" "eg_queue st' = eg_queue st"
    "r \<notin> {Inl EventLagged, Inl LostQueueFull, Inl LostQueueClosed}"
proof -
  have "publish_failure e \<notin> {EventLagged, LostQueueFull, LostQueueClosed}" for e
    by (cases e) simp_all
  then show "eg_ledger st' = eg_ledger st" "eg_disk st' = eg_disk st" "eg_queue st' = eg_queue st"
    "r \<notin> {Inl EventLagged, Inl LostQueueFull, Inl LostQueueClosed}"
    using assms
    by (auto simp: egress_publish_def publisher_publish_def publisher_flush_def
        split: if_splits prod.splits option.splits sum.splits flush_result.splits)
qed

lemma deliver_reserve_cases:
  assumes "deliver_reserve sha now item st = (r, st')"
    and "worker_durable sha (eg_ledger st) (eg_disk st)" and "length (digest_bytes (ei_digest item)) = 32"
  shows "worker_durable sha (eg_ledger st') (eg_disk st')" "jkind (wjournal (eg_ledger st')) = jkind (wjournal (eg_ledger st))"
    "eg_queue st' = eg_queue st"
    "r = Inr () \<Longrightarrow> \<not> holds (eg_ledger st) (ei_digest item) \<and>
       (\<forall>dg. holds (eg_ledger st') dg \<longleftrightarrow> dg = ei_digest item \<or> holds (eg_ledger st) dg)"
    "r \<noteq> Inr () \<Longrightarrow> (\<forall>dg. holds (eg_ledger st') dg \<longleftrightarrow> holds (eg_ledger st) dg)"
proof -
  obtain x w d where call: "worker_record sha (ei_digest item) Reserved (eg_ledger st) (eg_disk st) = (x, w, d)"
    by (metis prod_cases3)
  have rec: "worker_durable sha w d" "jkind (wjournal w) = jkind (wjournal (eg_ledger st))"
    "jindex (wjournal w) = (if x = Inr True then AList.update (ei_digest item) Reserved (jindex (wjournal (eg_ledger st)))
      else jindex (wjournal (eg_ledger st)))"
    using durable_record [OF assms(2,3) _ call] by simp_all
  have st': "eg_ledger st' = w" "eg_disk st' = d" "eg_queue st' = eg_queue st" "r = Inr () \<longleftrightarrow> x = Inr True"
    using assms(1) call
    by (auto simp: deliver_reserve_def check_and_reserve_def map_result_def Let_def split: if_splits sum.splits)
  have fresh: "\<not> holds (eg_ledger st) (ei_digest item)" if "x = Inr True"
  proof -
    from that call have "record_decision (map_of (jindex (wjournal (eg_ledger st))) (ei_digest item)) Reserved = Append"
      using worker_record_permits(3) [OF assms(2), of "ei_digest item" Reserved True w d] by simp
    then show ?thesis
      by (cases "map_of (jindex (wjournal (eg_ledger st))) (ei_digest item)"; (cases "the (map_of (jindex (wjournal (eg_ledger st))) (ei_digest item))")?)
        (auto simp: holds_def)
  qed
  show "worker_durable sha (eg_ledger st') (eg_disk st')" "eg_queue st' = eg_queue st"
    "jkind (wjournal (eg_ledger st')) = jkind (wjournal (eg_ledger st))"
    using rec st' by simp_all
  show "\<not> holds (eg_ledger st) (ei_digest item) \<and>
       (\<forall>dg. holds (eg_ledger st') dg \<longleftrightarrow> dg = ei_digest item \<or> holds (eg_ledger st) dg)" if "r = Inr ()"
    using that fresh rec(3) st' by (auto simp: holds_def map_of_AList_update)
  show "\<forall>dg. holds (eg_ledger st') dg \<longleftrightarrow> holds (eg_ledger st) dg" if "r \<noteq> Inr ()"
    using that rec(3) st' by (auto simp: holds_def)
qed

lemma egress_finish_cases:
  assumes "egress_finish sha now item r st = Some st'"
    and "worker_durable sha (eg_ledger st) (eg_disk st)" and "length (digest_bytes (ei_digest item)) = 32"
    and "holds (eg_ledger st) (ei_digest item)"
  shows "worker_durable sha (eg_ledger st') (eg_disk st') \<and> jkind (wjournal (eg_ledger st')) = jkind (wjournal (eg_ledger st))
    \<and> eg_queue st' = eg_queue st \<and> (\<forall>dg. holds (eg_ledger st') dg \<longleftrightarrow> holds (eg_ledger st) dg)"
proof (cases r)
  case (Inl k)
  then show ?thesis using assms by (auto simp: egress_finish_def Let_def split: if_splits)
next
  case (Inr u)
  obtain x w d where call: "worker_record sha (ei_digest item) Completed (eg_ledger st) (eg_disk st) = (x, w, d)"
    by (metis prod_cases3)
  then have "eg_ledger st' = w" "eg_disk st' = d" "eg_queue st' = eg_queue st"
    using assms(1) Inr
    by (auto simp: egress_finish_def mark_completed_def map_result_def Let_def split: sum.splits)
  with durable_record [OF assms(2,3) _ call] assms(4) show ?thesis
    by (auto simp: holds_def map_of_AList_update split: if_splits)
qed

section \<open>The contract\<close>

lemma document_digest_length: "length (sha (digest_preimage c i)) = 32 \<Longrightarrow> length (digest_bytes (document_digest sha c i)) = 32"
  by (simp add: document_digest_def)

definition step_ok :: "(bytes \<Rightarrow> bytes) \<Rightarrow> 'p bridge \<Rightarrow> bridge_event \<Rightarrow> 'p bridge \<Rightarrow> bool" where
  "step_ok sha b e b' \<longleftrightarrow> bridge_inv sha b' \<and> (\<forall>dg. spent b dg \<longrightarrow> spent b' dg)
     \<and> (\<forall>dg. sends e dg \<longrightarrow> \<not> spent b dg \<and> spent b' dg)"

lemma step_ok_quiet:
  assumes "bridge_inv sha b" and "\<And>dg. \<not> sends e dg"
    and "worker_durable sha (eg_ledger (br_egress b')) (eg_disk (br_egress b'))"
    and "jkind (wjournal (eg_ledger (br_egress b'))) = jkind (wjournal (eg_ledger (br_egress b)))"
    and "\<And>dg. holds (eg_ledger (br_egress b')) dg \<longleftrightarrow> holds (eg_ledger (br_egress b)) dg"
    and "set (br_admitted b') \<subseteq> set (br_admitted b)"
    and "set (waiting b') \<subseteq> set (waiting b)" and "distinct (waiting b')"
    and "set_option (br_sent b') \<subseteq> set_option (br_sent b)"
  shows "step_ok sha b e b'"
  using assms unfolding step_ok_def bridge_inv_def spent_def by auto

lemma bridge_step_ok:
  "bridge_step sha decode nc origin b e b' \<Longrightarrow> bridge_inv sha b \<Longrightarrow> step_ok sha b e b'"
proof (induction rule: bridge_step.induct)
  case (admit now ev b item st)
  note frame = deliver_admit_frame [OF admit.hyps]
  from frame(4) obtain c i where "ei_digest item = document_digest sha c i" by (auto simp: classify_Inr)
  then show ?case
    using admit.prems frame(1-3) by (auto simp: step_ok_def bridge_inv_def spent_def waiting_def document_digest_def)
next
  case (skip now ev b k st)
  note frame = deliver_admit_frame [OF skip.hyps]
  show ?case
    using skip.prems frame(1-3) by (intro step_ok_quiet) (auto simp: bridge_inv_def waiting_def)
next
  case (grant b xs item ys now st)
  have len: "length (digest_bytes (ei_digest item)) = 32"
    and dur: "worker_durable sha (eg_ledger (br_egress b)) (eg_disk (br_egress b))"
    using grant.prems grant.hyps(1) by (auto simp: bridge_inv_def)
  note cases = deliver_reserve_cases [OF grant.hyps(2) dur len]
  have new: "ei_digest item \<notin> set (waiting b)" using cases(4) grant.prems by (auto simp: bridge_inv_def)
  then show ?case
    using grant.prems grant.hyps(1) cases len
    by (auto simp: step_ok_def bridge_inv_def spent_def waiting_def split: option.splits)
next
  case (refuse b xs item ys now k st)
  have len: "length (digest_bytes (ei_digest item)) = 32"
    and dur: "worker_durable sha (eg_ledger (br_egress b)) (eg_disk (br_egress b))"
    using refuse.prems refuse.hyps(1) by (auto simp: bridge_inv_def)
  note cases = deliver_reserve_cases [OF refuse.hyps(2) dur len]
  show ?case
    using refuse.prems refuse.hyps(1) cases
    by (intro step_ok_quiet) (auto simp: bridge_inv_def waiting_def)
next
  case (queue b xs item ys now st)
  note frame = deliver_enqueue_cases [OF queue.hyps(2)]
  have "set (waiting (b\<lparr>br_egress := st, br_reserved := xs @ ys\<rparr>)) = set (waiting b)"
    "distinct (waiting (b\<lparr>br_egress := st, br_reserved := xs @ ys\<rparr>))"
    using queue.prems queue.hyps(1) frame by (auto simp: bridge_inv_def waiting_def)
  then show ?case
    using queue.prems frame by (intro step_ok_quiet) (auto simp: bridge_inv_def)
next
  case (shed_item b xs item ys now k st)
  note frame = deliver_enqueue_cases [OF shed_item.hyps(2)]
  show ?case
    using shed_item.prems shed_item.hyps(1) frame
    by (intro step_ok_quiet) (auto simp: bridge_inv_def waiting_def)
next
  case (publish b item q r st)
  note frame = egress_publish_frame [OF publish.hyps(3)]
  show ?case
    using publish.prems publish.hyps(1,2) frame(1-3)
    by (auto simp: step_ok_def bridge_inv_def spent_def waiting_def)
next
  case (finish b item r now st)
  have "worker_durable sha (eg_ledger (br_egress b)) (eg_disk (br_egress b))"
    "length (digest_bytes (ei_digest item)) = 32" "holds (eg_ledger (br_egress b)) (ei_digest item)"
    using finish.prems finish.hyps(1) by (auto simp: bridge_inv_def)
  from egress_finish_cases [OF finish.hyps(2) this] show ?case
    using finish.prems by (intro step_ok_quiet) (auto simp: bridge_inv_def waiting_def)
next
  case (status b op)
  then show ?case by (intro step_ok_quiet) (auto simp: bridge_inv_def waiting_def)
next
  case (worker_gone b)
  then show ?case by (intro step_ok_quiet) (auto simp: bridge_inv_def waiting_def)
next
  case (restart b d w d' mappings node_id status os c)
  have dur: "worker_durable sha (eg_ledger (br_egress b)) (eg_disk (br_egress b))"
    and kind: "jkind (wjournal (eg_ledger (br_egress b))) = Delivery"
    using restart.prems by (auto simp: bridge_inv_def)
  note re = durable_restarted [OF dur restart.hyps(1,2), unfolded kind, OF restart.hyps(3)]
  show ?case
    using restart.prems re by (auto simp: step_ok_def bridge_inv_def spent_def waiting_def egress_new_def)
qed

interpretation bridge: grant_once "bridge_step sha decode nc origin" sends spent "bridge_inv sha"
  for sha decode nc origin
  by unfold_locales (use bridge_step_ok in \<open>unfold step_ok_def, blast\<close>)+


section \<open>The worker's loop\<close>

lemma egress_finish_queue: "egress_finish sha now item r st = Some st' \<Longrightarrow> eg_queue st' = eg_queue st"
  by (auto simp: egress_finish_def Let_def split: sum.splits prod.splits if_splits)

lemma egress_finish_total:
  "r \<notin> {Inl EventLagged, Inl LostQueueFull, Inl LostQueueClosed} \<Longrightarrow> \<exists>st'. egress_finish sha now item r st = Some st'"
  by (cases r) (auto simp: egress_finish_def Let_def split: prod.split)

text \<open>
  C37: The publishing worker never stops early.  Whatever the client and the ledger answer, every round
  takes the next item in order and comes to its end: the \<open>unreachable!\<close> arm is not reached, and
  no failure keeps later items from their turn.
\<close>

theorem egress_worker_drains:
  "\<exists>st'. run_egress_worker sha nc origin nows st = Some st' \<and> eg_queue st' = drop (length nows) (eg_queue st)"
proof (induction nows arbitrary: st)
  case (Cons now nows)
  show ?case
  proof (cases "eg_queue st")
    case (Cons item q)
    obtain r st1 where pub: "egress_publish nc origin item (st\<lparr>eg_queue := q\<rparr>) = (r, st1)" by fastforce
    note frame = egress_publish_frame [OF pub]
    obtain st2 where fin: "egress_finish sha now item r st1 = Some st2"
      using egress_finish_total [OF frame(4)] by blast
    have "eg_queue st2 = q" using egress_finish_queue [OF fin] frame(3) by simp
    with Cons.IH [of st2] Cons pub fin show ?thesis by simp
  qed simp
qed simp

section \<open>A run\<close>

definition sample_ready :: bridge_status where
  "sample_ready = readiness_after [Connected, Established] (readiness_new [''s''])"

definition sample_bridge :: "worker \<Rightarrow> disk \<Rightarrow> unit bridge" where
  "sample_bridge w d = \<lparr>br_egress = egress_new sample_routes ''b'' sample_ready w d (),
     br_admitted = [], br_reserved = [], br_sent = None\<rparr>"

lemma sample_ready_is_ready: "is_ready sample_ready" "bs_accepting sample_ready" "bs_delivery_healthy sample_ready"
  by (simp_all add: sample_ready_def readiness_after_def readiness_new_def readiness_defs is_ready_def)

lemma sample_bridge_inv:
  assumes "worker_durable sample_sha w d" "jkind (wjournal w) = Delivery"
  shows "bridge_inv sample_sha (sample_bridge w d)"
  using assms by (simp add: bridge_inv_def sample_bridge_def egress_new_def waiting_def sample_sha_def)

lemma sample_run:
  assumes dur: "worker_durable sample_sha w d" "plan d = []" "whealthy w" "wjournal w = opened Delivery 0 [] []"
  shows "\<exists>b. runs (bridge_step sample_sha (\<lambda>_. Some sample_envelope) nc origin) (sample_bridge w d)
     [Admitted (sample_item sample_sha), Granted (sample_item sample_sha), Queued (sample_item sample_sha),
      SentOut (sample_item sample_sha)] b"
proof -
  let ?i = "sample_item sample_sha" and ?st = "br_egress (sample_bridge w d)"
  let ?b1 = "(sample_bridge w d)\<lparr>br_egress := ?st, br_admitted := [?i]\<rparr>"
  have kind: "jkind (wjournal w) = Delivery" using dur(4) by (simp add: opened_def)
  obtain l where jl: "journal_log sample_sha (wjournal w) d l"
    using dur(1,3) by (auto simp: worker_durable_def ledger_inv_def journal_ok_def)
  then have "l = []" using dur(4) by (simp add: journal_log_def opened_def)
  with jl obtain j e where "journal_record sample_sha (wjournal w) (ei_digest ?i) Reserved d = (Inr True, j, e)"
    using record_fresh [OF _ kind dur(2), of sample_sha "ei_digest ?i"] by blast
  then obtain w' where reserve: "check_and_reserve sample_sha (ei_digest ?i) w d = (Inr ReserveReserved, w', e)"
    using worker_record_idle [OF dur(3)] dur(1) by (fastforce simp: check_and_reserve_def map_result_def worker_durable_def)
  define st2 where "st2 = snd (deliver_reserve sample_sha 0 ?i ?st)"
  have r2: "deliver_reserve sample_sha 0 ?i ?st = (Inr (), st2)" and q2: "eg_queue st2 = []" "eg_open st2"
    using reserve by (simp_all add: st2_def deliver_reserve_def sample_bridge_def egress_new_def)
  have r3: "deliver_enqueue 0 ?i st2 = (Inr (), st2\<lparr>eg_queue := [?i]\<rparr>)"
    using q2 by (simp add: deliver_enqueue_def EGRESS_QUEUE_CAPACITY_def)
  obtain r st4 where r4: "egress_publish nc origin ?i (st2\<lparr>eg_queue := []\<rparr>) = (r, st4)" by fastforce
  have "deliver_admit sample_sha (\<lambda>_. Some sample_envelope) 0 sample_change ?st = (Inr ?i, ?st)"
    using sample_classified sample_ready_is_ready by (simp add: deliver_admit_def sample_bridge_def egress_new_def)
  from admit [where b = "sample_bridge w d", OF this]
  have s1: "bridge_step sample_sha (\<lambda>_. Some sample_envelope) nc origin (sample_bridge w d) (Admitted ?i) ?b1"
    by (simp add: sample_bridge_def)
  let ?b2 = "?b1\<lparr>br_egress := st2, br_admitted := [], br_reserved := [?i]\<rparr>"
  have s2: "bridge_step sample_sha (\<lambda>_. Some sample_envelope) nc origin ?b1 (Granted ?i) ?b2"
    using grant [where b = ?b1 and xs = "[]" and ys = "[]" and item = ?i and st = st2 and now = 0 and sha = sample_sha] r2
    by (simp add: sample_bridge_def)
  let ?b3 = "?b2\<lparr>br_egress := st2\<lparr>eg_queue := [?i]\<rparr>, br_reserved := []\<rparr>"
  have s3: "bridge_step sample_sha (\<lambda>_. Some sample_envelope) nc origin ?b2 (Queued ?i) ?b3"
    using queue [where b = ?b2 and xs = "[]" and ys = "[]" and item = ?i and now = 0 and sha = sample_sha] r3 by simp
  have s4: "bridge_step sample_sha (\<lambda>_. Some sample_envelope) nc origin ?b3 (SentOut ?i)
      (?b3\<lparr>br_egress := st4, br_sent := Some (?i, r)\<rparr>)"
    using r4 by (intro publish [where q = "[]"]) (simp_all add: sample_bridge_def)
  from s1 s2 s3 s4 show ?thesis by (blast intro: runs_Nil runs_Cons)
qed


end
