(* ===== verification/Bridge_Reconcile.thy ===== *)
theory Bridge_Reconcile
  imports Egress_Once
begin

text \<open>
  Recovery of missed notifications (\<open>src/src/nats_bridge/reconcile.rs\<close>, and
  \<open>deliver_bridge_reconciliation_candidate\<close> of \<open>src/src/node.rs\<close>): one scan over the mapped collections,
  and the trigger protocol between any number of callers and the scanning task, at the
  granularity of its atomic accesses.  The store is read through \<open>reconcile_reader\<close>, as the code's
  trait has it.  Chunking the keys only decides where the task yields.
\<close>

section \<open>State\<close>

definition RECONCILE_BATCH_KEYS :: nat where
  "RECONCILE_BATCH_KEYS = 64"

definition RECONCILE_HYDRATIONS_PER_SECOND :: nat where
  "RECONCILE_HYDRATIONS_PER_SECOND = 16"

definition HYDRATION_INTERVAL :: nat where
  "HYDRATION_INTERVAL = 1000 div RECONCILE_HYDRATIONS_PER_SECOND"

record reconcile_stats =
  rs_triggers :: u64
  rs_coalesced :: u64
  rs_scans :: u64
  rs_hydrated :: u64
  rs_suppressed :: u64
  rs_failures :: u64

definition reconcile_stats_new :: reconcile_stats where
  "reconcile_stats_new =
     \<lparr>rs_triggers = 0, rs_coalesced = 0, rs_scans = 0, rs_hydrated = 0, rs_suppressed = 0, rs_failures = 0\<rparr>"

datatype candidate_outcome = Missing | LocalExcludedCandidate | Offered

datatype candidate_error = CandidateRead | CandidateExclusion

record reconcile_reader =
  rr_keys :: "string \<Rightarrow> string list option"
  rr_document :: "string \<Rightarrow> string \<Rightarrow> read_error + string option"

text \<open>
  \<open>rc_meanwhile\<close> is what other tasks do during each hydration delay: readiness updates, and whether
  the reconciler is closed.  \<open>rc_offered\<close> collects the documents offered, \<open>rc_clock\<close> the time.
\<close>

record 'p reconcile =
  rc_egress :: "'p egress"
  rc_exclusion :: worker
  rc_closed :: bool
  rc_stats :: reconcile_stats
  rc_meanwhile :: "(readiness_op list \<times> bool) list"
  rc_offered :: "(string \<times> string) list"
  rc_clock :: nat

definition can_scan :: "'p reconcile \<Rightarrow> bool" where
  "can_scan st \<longleftrightarrow> \<not> rc_closed st \<and> whealthy (rc_exclusion st) \<and> whealthy (eg_ledger (rc_egress st))
     \<and> is_ready (eg_status (rc_egress st))"

definition count_suppressed :: "'p reconcile \<Rightarrow> 'p reconcile" where
  "count_suppressed st = st\<lparr>rc_stats := (rc_stats st)\<lparr>rs_suppressed := rs_suppressed (rc_stats st) + 1\<rparr>\<rparr>"

definition count_failure :: "'p reconcile \<Rightarrow> 'p reconcile" where
  "count_failure st = st\<lparr>rc_stats := (rc_stats st)\<lparr>rs_failures := rs_failures (rc_stats st) + 1\<rparr>\<rparr>"

definition exclusion_unhealthy :: "'p reconcile \<Rightarrow> 'p reconcile" where
  "exclusion_unhealthy st =
     st\<lparr>rc_egress := (rc_egress st)\<lparr>eg_status := snd (set_exclusion_healthy False (eg_status (rc_egress st)))\<rparr>\<rparr>"

definition delivery_unhealthy :: "'p reconcile \<Rightarrow> 'p reconcile" where
  "delivery_unhealthy st =
     st\<lparr>rc_egress := (rc_egress st)\<lparr>eg_status := snd (set_delivery_healthy False (eg_status (rc_egress st)))\<rparr>\<rparr>"

text \<open>The exclusion lookup; it goes to the exclusion worker and never to the disk.\<close>

definition excluded :: "(bytes \<Rightarrow> bytes) \<Rightarrow> ledger_digest \<Rightarrow> 'p reconcile \<Rightarrow> (ledger_error + bool) \<times> 'p reconcile" where
  "excluded sha dg st =
     (case ledger_contains sha dg (rc_exclusion st) (eg_disk (rc_egress st)) of
        (r, w, _) \<Rightarrow> (r, st\<lparr>rc_exclusion := w\<rparr>))"

definition delivered :: "(bytes \<Rightarrow> bytes) \<Rightarrow> ledger_digest \<Rightarrow> 'p reconcile \<Rightarrow> (ledger_error + bool) \<times> 'p reconcile" where
  "delivered sha dg st =
     (case is_suppressed sha dg (eg_ledger (rc_egress st)) (eg_disk (rc_egress st)) of
        (r, w, d) \<Rightarrow> (r, st\<lparr>rc_egress := (rc_egress st)\<lparr>eg_ledger := w, eg_disk := d\<rparr>\<rparr>))"

section \<open>The scan\<close>

definition deliver_candidate ::
  "(bytes \<Rightarrow> bytes) \<Rightarrow> (string \<Rightarrow> bridge_envelope option) \<Rightarrow> reconcile_reader \<Rightarrow> string \<Rightarrow> string \<Rightarrow> 'p reconcile
    \<Rightarrow> (candidate_error + candidate_outcome) \<times> 'p reconcile" where
  "deliver_candidate sha decode rd coll doc_id st =
     (case rr_document rd coll doc_id of
        Inl _ \<Rightarrow> (Inl CandidateRead, st)
      | Inr None \<Rightarrow> (Inr Missing, st)
      | Inr (Some json_data) \<Rightarrow>
          (case excluded sha (document_digest sha coll doc_id) st of
             (Inl _, st1) \<Rightarrow> (Inl CandidateExclusion, st1)
           | (Inr True, st1) \<Rightarrow> (Inr LocalExcludedCandidate, st1)
           | (Inr False, st1) \<Rightarrow>
               (Inr Offered,
                st1\<lparr>rc_egress := snd (deliver sha decode (rc_clock st1)
                       \<lparr>bce_collection = coll, bce_doc_id = doc_id, bce_remote_peer_id = [], bce_json_data = json_data\<rparr>
                       (rc_egress st1)),
                    rc_offered := rc_offered st1 @ [(coll, doc_id)]\<rparr>)))"

definition hydration_delay :: "'p reconcile \<Rightarrow> 'p reconcile" where
  "hydration_delay st =
     (let st' = st\<lparr>rc_clock := rc_clock st + HYDRATION_INTERVAL\<rparr>
      in case rc_meanwhile st' of
           [] \<Rightarrow> st'
         | (ops, close) # rest \<Rightarrow>
             st'\<lparr>rc_egress := (rc_egress st')\<lparr>eg_status := readiness_after ops (eg_status (rc_egress st'))\<rparr>,
                 rc_closed := rc_closed st' \<or> close, rc_meanwhile := rest\<rparr>)"

text \<open>One key; the flag says whether the scan goes on.\<close>

definition scan_key ::
  "(bytes \<Rightarrow> bytes) \<Rightarrow> (string \<Rightarrow> bridge_envelope option) \<Rightarrow> reconcile_reader \<Rightarrow> string \<Rightarrow> string \<Rightarrow> 'p reconcile
    \<Rightarrow> bool \<times> 'p reconcile" where
  "scan_key sha decode rd coll key st =
     (if \<not> can_scan st then (False, st)
      else case strip_prefix key (coll @ '':'') of
        None \<Rightarrow> (True, st)
      | Some doc_id \<Rightarrow>
          let dg = document_digest sha coll doc_id
          in case excluded sha dg st of
               (Inl _, st1) \<Rightarrow> (False, count_failure (exclusion_unhealthy st1))
             | (Inr True, st1) \<Rightarrow> (True, count_suppressed st1)
             | (Inr False, st1) \<Rightarrow>
                 (case delivered sha dg st1 of
                    (Inl _, st2) \<Rightarrow> (False, count_failure (delivery_unhealthy st2))
                  | (Inr True, st2) \<Rightarrow> (True, count_suppressed st2)
                  | (Inr False, st2) \<Rightarrow>
                      let st3 = hydration_delay st2
                      in if \<not> can_scan st3 then (False, st3)
                         else case deliver_candidate sha decode rd coll doc_id st3 of
                           (Inr Missing, st4) \<Rightarrow> (True, st4)
                         | (Inr LocalExcludedCandidate, st4) \<Rightarrow> (True, count_suppressed st4)
                         | (Inr Offered, st4) \<Rightarrow>
                             (True, st4\<lparr>rc_stats := (rc_stats st4)\<lparr>rs_hydrated := rs_hydrated (rc_stats st4) + 1\<rparr>\<rparr>)
                         | (Inl CandidateRead, st4) \<Rightarrow> (True, count_failure st4)
                         | (Inl CandidateExclusion, st4) \<Rightarrow> (False, count_failure (exclusion_unhealthy st4))))"

fun scan_keys where
  "scan_keys sha decode rd coll [] st = (True, st)"
| "scan_keys sha decode rd coll (key # keys) st =
     (case scan_key sha decode rd coll key st of
        (False, st1) \<Rightarrow> (False, st1)
      | (True, st1) \<Rightarrow> scan_keys sha decode rd coll keys st1)"

fun scan_once ::
  "(bytes \<Rightarrow> bytes) \<Rightarrow> (string \<Rightarrow> bridge_envelope option) \<Rightarrow> reconcile_reader \<Rightarrow> subject_mapping list
    \<Rightarrow> 'p reconcile \<Rightarrow> 'p reconcile" where
  "scan_once sha decode rd [] st = st"
| "scan_once sha decode rd (m # ms) st =
     (if \<not> can_scan st then st
      else case rr_keys rd (sm_collection m @ '':'') of
        None \<Rightarrow> count_failure st
      | Some keys \<Rightarrow>
          (case scan_keys sha decode rd (sm_collection m) keys st of
             (False, st1) \<Rightarrow> st1
           | (True, st1) \<Rightarrow> scan_once sha decode rd ms st1))"

section \<open>What a scan keeps\<close>

definition locally_written :: "worker \<Rightarrow> ledger_digest \<Rightarrow> bool" where
  "locally_written w dg \<longleftrightarrow> map_of (jindex (wjournal w)) dg = Some LocalExcluded"

definition reconcile_inv :: "(bytes \<Rightarrow> bytes) \<Rightarrow> 'p reconcile \<Rightarrow> bool" where
  "reconcile_inv sha st \<longleftrightarrow> (\<forall>x. length (sha x) = 32) \<and> worker_idle (rc_exclusion st)
     \<and> worker_durable sha (eg_ledger (rc_egress st)) (eg_disk (rc_egress st))"

text \<open>From one state of a scan to a later one; \<open>new\<close> is what was offered in between.\<close>

definition evolves ::
  "(bytes \<Rightarrow> bytes) \<Rightarrow> (string \<times> string \<Rightarrow> bool) \<Rightarrow> 'p reconcile \<Rightarrow> 'p reconcile \<Rightarrow> bool" where
  "evolves sha P st st' \<longleftrightarrow> reconcile_inv sha st' \<and> wjournal (rc_exclusion st') = wjournal (rc_exclusion st)
     \<and> (\<forall>dg. holds (eg_ledger (rc_egress st)) dg \<longrightarrow> holds (eg_ledger (rc_egress st')) dg)
     \<and> (\<exists>new. rc_offered st' = rc_offered st @ new
          \<and> (\<forall>x\<in>set new. P x \<and> \<not> locally_written (rc_exclusion st) (document_digest sha (fst x) (snd x))))"

lemma evolves_refl: "reconcile_inv sha st \<Longrightarrow> evolves sha P st st"
  by (simp add: evolves_def)

lemma evolves_trans:
  assumes "evolves sha P st st1" and "evolves sha P st1 st2"
  shows "evolves sha P st st2"
proof -
  obtain a where a: "rc_offered st1 = rc_offered st @ a"
    "\<forall>x\<in>set a. P x \<and> \<not> locally_written (rc_exclusion st) (document_digest sha (fst x) (snd x))"
    using assms(1) unfolding evolves_def by blast
  obtain b where b: "rc_offered st2 = rc_offered st1 @ b"
    "\<forall>x\<in>set b. P x \<and> \<not> locally_written (rc_exclusion st1) (document_digest sha (fst x) (snd x))"
    using assms(2) unfolding evolves_def by blast
  have "wjournal (rc_exclusion st1) = wjournal (rc_exclusion st)" using assms(1) by (simp add: evolves_def)
  with a b have "rc_offered st2 = rc_offered st @ (a @ b)"
    "\<forall>x\<in>set (a @ b). P x \<and> \<not> locally_written (rc_exclusion st) (document_digest sha (fst x) (snd x))"
    by (auto simp: locally_written_def)
  moreover have "reconcile_inv sha st2" "wjournal (rc_exclusion st2) = wjournal (rc_exclusion st)"
    "\<forall>dg. holds (eg_ledger (rc_egress st)) dg \<longrightarrow> holds (eg_ledger (rc_egress st2)) dg"
    using assms unfolding evolves_def by auto
  ultimately show ?thesis unfolding evolves_def by blast
qed

lemma evolves_quiet:
  assumes "reconcile_inv sha st" and "rc_exclusion st' = rc_exclusion st" "rc_offered st' = rc_offered st"
    "eg_ledger (rc_egress st') = eg_ledger (rc_egress st)" "eg_disk (rc_egress st') = eg_disk (rc_egress st)"
  shows "evolves sha P st st'"
  using assms by (simp add: evolves_def reconcile_inv_def)

lemma evolves_counts:
  assumes "reconcile_inv sha st"
  shows "evolves sha P st (count_suppressed st)" "evolves sha P st (count_failure st)"
    "evolves sha P st (exclusion_unhealthy st)" "evolves sha P st (delivery_unhealthy st)"
    "evolves sha P st (count_failure (exclusion_unhealthy st))"
    "evolves sha P st (count_failure (delivery_unhealthy st))" "evolves sha P st (hydration_delay st)"
    "evolves sha P st (st\<lparr>rc_stats := s\<rparr>)"
  using assms
  by (auto intro!: evolves_quiet simp: count_suppressed_def count_failure_def exclusion_unhealthy_def
      delivery_unhealthy_def hydration_delay_def Let_def split: list.split)

lemma unhealthy_stops:
  "\<not> can_scan (count_failure (exclusion_unhealthy st))" "\<not> can_scan (count_failure (delivery_unhealthy st))"
  by (simp_all add: can_scan_def is_ready_def count_failure_def exclusion_unhealthy_def delivery_unhealthy_def readiness_defs)

lemma excluded_evolves:
  assumes "reconcile_inv sha st" and "excluded sha dg st = (r, st1)"
  shows "evolves sha P st st1" "r = Inr b \<Longrightarrow> b = locally_written (rc_exclusion st) dg"
proof -
  have idle: "worker_idle (rc_exclusion st)" using assms(1) by (simp add: reconcile_inv_def)
  have "wjournal (rc_exclusion st1) = wjournal (rc_exclusion st) \<and> worker_idle (rc_exclusion st1)
    \<and> (\<exists>w. st1 = st\<lparr>rc_exclusion := w\<rparr>) \<and> (r = Inr b \<longrightarrow> b = locally_written (rc_exclusion st) dg)"
  proof (cases "whealthy (rc_exclusion st)")
    case True
    from worker_lookup_idle [OF True idle, of sha dg "eg_disk (rc_egress st)"] assms(2) show ?thesis
      by (auto simp: excluded_def ledger_contains_def map_result_def locally_written_def)
  next
    case False
    then show ?thesis
      using assms(2) idle
      by (auto simp: excluded_def ledger_contains_def map_result_def worker_lookup_unhealthy
          intro!: exI [of _ "rc_exclusion st"])
  qed
  then show "evolves sha P st st1" "r = Inr b \<Longrightarrow> b = locally_written (rc_exclusion st) dg"
    using assms(1) by (auto simp: evolves_def reconcile_inv_def)
qed

lemma delivered_evolves:
  assumes "reconcile_inv sha st" and "delivered sha dg st = (r, st1)"
  shows "evolves sha P st st1" "r = Inr True \<Longrightarrow> holds (eg_ledger (rc_egress st1)) dg"
proof -
  let ?w = "eg_ledger (rc_egress st)" and ?d = "eg_disk (rc_egress st)"
  have dur: "worker_durable sha ?w ?d" using assms(1) by (simp add: reconcile_inv_def)
  then have idle: "worker_idle ?w" by (simp add: worker_durable_def)
  have "\<exists>w'. st1 = st\<lparr>rc_egress := (rc_egress st)\<lparr>eg_ledger := w', eg_disk := ?d\<rparr>\<rparr> \<and> worker_durable sha w' ?d
    \<and> wjournal w' = wjournal ?w \<and> (r = Inr True \<longrightarrow> holds w' dg)"
  proof (cases "whealthy ?w")
    case True
    from worker_lookup_idle [OF this idle, of sha dg ?d] obtain w' where
      w': "worker_lookup sha dg ?w ?d = (Inr (map_of (jindex (wjournal ?w)) dg), w', ?d)"
      "wjournal w' = wjournal ?w" "whealthy w'" "worker_idle w'" by blast
    with dur True have "worker_durable sha w' ?d" by (simp add: worker_durable_def)
    with w' assms(2) show ?thesis
      by (intro exI [of _ w']) (auto simp: delivered_def is_suppressed_def map_result_def holds_def)
  next
    case False
    then show ?thesis
      using assms(2) dur
      by (intro exI [of _ ?w]) (auto simp: delivered_def is_suppressed_def map_result_def worker_lookup_unhealthy)
  qed
  then show "evolves sha P st st1" "r = Inr True \<Longrightarrow> holds (eg_ledger (rc_egress st1)) dg"
    using assms(1) by (auto simp: evolves_def reconcile_inv_def holds_def)
qed

lemma deliver_ledger:
  assumes "\<And>x. length (sha x) = 32" and dur: "worker_durable sha (eg_ledger st) (eg_disk st)"
    and "deliver sha decode now ev st = (r, st')"
  shows "worker_durable sha (eg_ledger st') (eg_disk st')
    \<and> (\<forall>dg. holds (eg_ledger st) dg \<longrightarrow> holds (eg_ledger st') dg)"
proof -
  obtain a st1 where admit: "deliver_admit sha decode now ev st = (a, st1)" by fastforce
  note frame = deliver_admit_frame [OF admit]
  show ?thesis
  proof (cases a)
    case (Inl k)
    then show ?thesis using assms(3) admit frame dur by (simp add: deliver_def)
  next
    case (Inr item)
    obtain b st2 where reserve: "deliver_reserve sha now item st1 = (b, st2)" by fastforce
    have "classify sha decode (eg_classifier st) ev = Inr item" using frame(4) Inr by blast
    then have len: "length (digest_bytes (ei_digest item)) = 32"
      using assms(1) by (auto simp: classify_Inr document_digest_def)
    have dur1: "worker_durable sha (eg_ledger st1) (eg_disk st1)" using dur frame by simp
    note res = deliver_reserve_cases [OF reserve dur1 len]
    have two: "worker_durable sha (eg_ledger st2) (eg_disk st2)"
      "\<forall>dg. holds (eg_ledger st) dg \<longrightarrow> holds (eg_ledger st2) dg"
      using res frame by (cases "b = Inr ()"; simp)+
    show ?thesis
    proof (cases b)
      case (Inl k)
      then show ?thesis using assms(3) admit Inr reserve two by (simp add: deliver_def)
    next
      case inr: (Inr u)
      then have "deliver_enqueue now item st2 = (r, st')"
        using assms(3) admit Inr reserve by (simp add: deliver_def)
      from deliver_enqueue_cases [OF this] two show ?thesis by simp
    qed
  qed
qed

lemma deliver_candidate_evolves:
  assumes "reconcile_inv sha st" and "deliver_candidate sha decode rd coll doc_id st = (r, st')"
    and "P (coll, doc_id)"
  shows "evolves sha P st st'"
    "rr_document rd coll doc_id = Inr (Some js) \<Longrightarrow> r = Inr Offered \<and> (coll, doc_id) \<in> set (rc_offered st')
      \<or> r = Inr LocalExcludedCandidate \<and> locally_written (rc_exclusion st) (document_digest sha coll doc_id)
      \<or> r = Inl CandidateExclusion"
proof -
  let ?dg = "document_digest sha coll doc_id"
  obtain x st1 where ex: "excluded sha ?dg st = (x, st1)" by fastforce
  note one = excluded_evolves [OF assms(1) ex]
  have offered: "evolves sha P st (st1\<lparr>rc_egress := snd (deliver sha decode now ev (rc_egress st1)),
      rc_offered := rc_offered st1 @ [(coll, doc_id)]\<rparr>)" (is "evolves _ _ _ ?st2") if "x = Inr False" for now ev
  proof -
    have inv1: "reconcile_inv sha st1" using one(1) by (simp add: evolves_def)
    obtain y e where y: "deliver sha decode now ev (rc_egress st1) = (y, e)" by fastforce
    have "worker_durable sha (eg_ledger e) (eg_disk e)"
      "\<forall>dg. holds (eg_ledger (rc_egress st1)) dg \<longrightarrow> holds (eg_ledger e) dg"
      using deliver_ledger [OF _ _ y] inv1 by (simp_all add: reconcile_inv_def)
    moreover have "\<not> locally_written (rc_exclusion st1) ?dg"
      using one(2) that one(1) [of P] by (auto simp: evolves_def locally_written_def)
    ultimately have "evolves sha P st1 ?st2"
      using inv1 assms(3) y by (simp add: evolves_def reconcile_inv_def)
    then show ?thesis using evolves_trans [OF one(1)] by blast
  qed
  show "evolves sha P st st'"
    using assms(1,2) ex one(1) offered evolves_refl
    by (auto simp: deliver_candidate_def split: sum.splits option.splits bool.splits)
  assume "rr_document rd coll doc_id = Inr (Some js)"
  then show "r = Inr Offered \<and> (coll, doc_id) \<in> set (rc_offered st')
      \<or> r = Inr LocalExcludedCandidate \<and> locally_written (rc_exclusion st) ?dg \<or> r = Inl CandidateExclusion"
    using assms(2) ex one(2) by (auto simp: deliver_candidate_def split: sum.splits bool.splits)
qed

section \<open>Scans are sound and complete\<close>

definition covered :: "(bytes \<Rightarrow> bytes) \<Rightarrow> string \<Rightarrow> string \<Rightarrow> 'p reconcile \<Rightarrow> bool" where
  "covered sha coll doc_id st \<longleftrightarrow>
     (coll, doc_id) \<in> set (rc_offered st)
     \<or> locally_written (rc_exclusion st) (document_digest sha coll doc_id)
     \<or> holds (eg_ledger (rc_egress st)) (document_digest sha coll doc_id)"

lemma covered_evolves: "covered sha coll i st \<Longrightarrow> evolves sha P st st' \<Longrightarrow> covered sha coll i st'"
  unfolding covered_def evolves_def locally_written_def by auto

lemma evolves_inv: "evolves sha P st st' \<Longrightarrow> reconcile_inv sha st'"
  by (simp add: evolves_def)

text \<open>What one key comes to: a stop that leaves the bridge unable to scan, or its document covered.\<close>

definition key_done :: "(bytes \<Rightarrow> bytes) \<Rightarrow> reconcile_reader \<Rightarrow> string \<Rightarrow> string \<Rightarrow> bool \<times> 'p reconcile \<Rightarrow> bool" where
  "key_done sha rd coll i r \<longleftrightarrow>
     (if fst r then (\<exists>js. rr_document rd coll i = Inr (Some js)) \<longrightarrow> covered sha coll i (snd r)
      else \<not> can_scan (snd r))"

lemma scan_key_hydrate:
  assumes inv: "reconcile_inv sha st" and P: "P (coll, i)" and can: "can_scan st"
    and run: "r = (case deliver_candidate sha decode rd coll i st of
        (Inr Missing, st4) \<Rightarrow> (True, st4)
      | (Inr LocalExcludedCandidate, st4) \<Rightarrow> (True, count_suppressed st4)
      | (Inr Offered, st4) \<Rightarrow> (True, st4\<lparr>rc_stats := (rc_stats st4)\<lparr>rs_hydrated := rs_hydrated (rc_stats st4) + 1\<rparr>\<rparr>)
      | (Inl CandidateRead, st4) \<Rightarrow> (True, count_failure st4)
      | (Inl CandidateExclusion, st4) \<Rightarrow> (False, count_failure (exclusion_unhealthy st4)))"
  shows "evolves sha P st (snd r) \<and> key_done sha rd coll i r"
proof -
  obtain x st4 where c: "deliver_candidate sha decode rd coll i st = (x, st4)" by fastforce
  note one = deliver_candidate_evolves [where P = P, OF inv c P]
  have inv4: "reconcile_inv sha st4" by (rule evolves_inv [OF one(1)])
  have cov: "covered sha coll i st4" if "rr_document rd coll i = Inr (Some js)" "x \<noteq> Inl CandidateExclusion" for js
    using one(2) [OF that(1)] that(2) one(1) unfolding covered_def evolves_def locally_written_def by auto
  have ev: "evolves sha P st (snd r)"
    using run c one(1) evolves_trans [OF one(1)] evolves_counts [OF inv4]
    by (auto split: sum.splits candidate_outcome.splits candidate_error.splits)
  have frames: "covered sha coll i (count_suppressed st4) = covered sha coll i st4"
    "covered sha coll i (count_failure st4) = covered sha coll i st4"
    "covered sha coll i (st4\<lparr>rc_stats := s\<rparr>) = covered sha coll i st4" for s
    by (simp_all add: covered_def count_suppressed_def count_failure_def)
  show ?thesis
    using ev run c cov frames unhealthy_stops
    by (auto simp: key_done_def split: sum.splits candidate_outcome.splits candidate_error.splits)
qed

lemma scan_key_done:
  assumes inv: "reconcile_inv sha st" and P: "\<And>i. key = coll @ '':'' @ i \<Longrightarrow> P (coll, i)"
  shows "evolves sha P st (snd (scan_key sha decode rd coll key st))"
    "key = coll @ '':'' @ i \<Longrightarrow> key_done sha rd coll i (scan_key sha decode rd coll key st)"
    "\<not> fst (scan_key sha decode rd coll key st) \<Longrightarrow> \<not> can_scan (snd (scan_key sha decode rd coll key st))"
proof -
  let ?r = "scan_key sha decode rd coll key st"
  have main: "evolves sha P st (snd ?r) \<and> key_done sha rd coll i ?r"
    if key: "strip_prefix key (coll @ '':'') = Some i" and can: "can_scan st" for i
  proof -
    let ?dg = "document_digest sha coll i"
    have Pi: "P (coll, i)" using P strip_prefix_SomeD [OF key] by simp
    obtain x st1 where ex: "excluded sha ?dg st = (x, st1)" by fastforce
    note e1 = excluded_evolves [OF inv ex]
    have inv1: "reconcile_inv sha st1" and same1: "wjournal (rc_exclusion st1) = wjournal (rc_exclusion st)"
      using e1(1) [of P] by (simp_all add: evolves_def)
    obtain y st2 where de: "delivered sha ?dg st1 = (y, st2)" by fastforce
    note e2 = delivered_evolves [OF inv1 de]
    have inv2: "reconcile_inv sha st2" by (rule evolves_inv [OF e2(1)])
    let ?st3 = "hydration_delay st2"
    have e3: "evolves sha P st2 ?st3" by (rule evolves_counts(7) [OF inv2])
    note step12 = evolves_trans [OF e1(1) e2(1)]
    note step3 = evolves_trans [OF step12 e3]
    consider (a) e where "x = Inl e" | (b) "x = Inr True" | (c) e where "x = Inr False" "y = Inl e"
      | (d) "x = Inr False" "y = Inr True" | (e) "x = Inr False" "y = Inr False" "\<not> can_scan ?st3"
      | (f) "x = Inr False" "y = Inr False" "can_scan ?st3"
      by (cases x; cases y) auto
    then show ?thesis
    proof cases
      case f
      define r where "r = ?r"
      from f key can ex de scan_key_hydrate [where P = P, OF evolves_inv [OF e3] Pi f(3), where r = r and decode = decode and rd = rd]
      have "evolves sha P ?st3 (snd r) \<and> key_done sha rd coll i r"
        by (simp add: r_def scan_key_def Let_def del: split_paired_All)
      then show ?thesis using evolves_trans [OF step3] unfolding r_def by blast
    next
      case b
      then have "covered sha coll i (count_suppressed st1)"
        using e1(2) same1 by (simp add: covered_def count_suppressed_def locally_written_def)
      then show ?thesis
        using b key can ex evolves_trans [OF e1(1) evolves_counts(1) [OF inv1]] by (simp add: scan_key_def key_done_def)
    next
      case d
      then have "covered sha coll i (count_suppressed st2)"
        using e2(2) by (simp add: covered_def count_suppressed_def)
      then show ?thesis
        using d key can ex de evolves_trans [OF step12 evolves_counts(1) [OF inv2]]
        by (simp add: scan_key_def key_done_def)
    qed (use key can ex de unhealthy_stops evolves_trans [OF e1(1) evolves_counts(5) [OF inv1]]
        evolves_trans [OF step12 evolves_counts(6) [OF inv2]] step3 in \<open>simp_all add: scan_key_def key_done_def Let_def\<close>)
  qed
  have rest: "?r = (if can_scan st then (True, st) else (False, st))"
    if "\<not> can_scan st \<or> strip_prefix key (coll @ '':'') = None"
    using that by (auto simp: scan_key_def)
  show "evolves sha P st (snd ?r)" and stop: "\<not> fst ?r \<Longrightarrow> \<not> can_scan (snd ?r)"
    using main rest evolves_refl [OF inv] unfolding key_done_def
    by (cases "can_scan st"; cases "strip_prefix key (coll @ '':'')"; force)+
  show "key_done sha rd coll i ?r" if "key = coll @ '':'' @ i"
  proof -
    have key: "strip_prefix key (coll @ '':'') = Some i" using that strip_prefix_append [of "coll @ '':''" i] by simp
    show ?thesis
      using main [OF key] rest by (cases "can_scan st") (simp_all add: key_done_def)
  qed
qed

definition candidate :: "reconcile_reader \<Rightarrow> subject_mapping list \<Rightarrow> string \<times> string \<Rightarrow> bool" where
  "candidate rd ms x \<longleftrightarrow>
     (\<exists>m\<in>set ms. \<exists>keys. sm_collection m = fst x \<and> rr_keys rd (sm_collection m @ '':'') = Some keys
        \<and> sm_collection m @ '':'' @ snd x \<in> set keys)"

lemma scan_keys_done:
  assumes "reconcile_inv sha st" and "\<And>i. coll @ '':'' @ i \<in> set keys \<Longrightarrow> P (coll, i)"
    and "scan_keys sha decode rd coll keys st = (go, st')"
  shows "evolves sha P st st'" "\<not> go \<Longrightarrow> \<not> can_scan st'"
    "go \<Longrightarrow> coll @ '':'' @ i \<in> set keys \<Longrightarrow> rr_document rd coll i = Inr (Some js) \<Longrightarrow> covered sha coll i st'"
proof -
  have "evolves sha P st st' \<and> (\<not> go \<longrightarrow> \<not> can_scan st')
    \<and> (go \<longrightarrow> coll @ '':'' @ i \<in> set keys \<longrightarrow> rr_document rd coll i = Inr (Some js) \<longrightarrow> covered sha coll i st')"
    using assms
  proof (induction keys arbitrary: st)
    case Nil
    then show ?case using evolves_refl by simp
  next
    case (Cons key keys)
    obtain g st1 where one: "scan_key sha decode rd coll key st = (g, st1)" by fastforce
    have P: "\<And>i. key = coll @ '':'' @ i \<Longrightarrow> P (coll, i)" using Cons.prems(2) by simp
    have k1: "evolves sha P st (snd (scan_key sha decode rd coll key st))"
      by (rule scan_key_done(1) [where P = P, OF Cons.prems(1)]) (erule P)
    have k2: "key = coll @ '':'' @ i \<Longrightarrow> key_done sha rd coll i (scan_key sha decode rd coll key st)" for i
      by (rule scan_key_done(2) [where P = P, OF Cons.prems(1)]) (erule P, assumption)
    have k3: "\<not> fst (scan_key sha decode rd coll key st) \<Longrightarrow> \<not> can_scan (snd (scan_key sha decode rd coll key st))"
      by (rule scan_key_done(3) [where P = P, OF Cons.prems(1)]) (erule P, assumption)
    note k = k1 [unfolded one snd_conv] k2 [unfolded one] k3 [unfolded one fst_conv snd_conv]
    show ?case
    proof (cases g)
      case True
      then have rest: "scan_keys sha decode rd coll keys st1 = (go, st')" using Cons.prems(3) one by simp
      have IH: "evolves sha P st1 st' \<and> (\<not> go \<longrightarrow> \<not> can_scan st') \<and> (go \<longrightarrow> coll @ '':'' @ i \<in> set keys
          \<longrightarrow> rr_document rd coll i = Inr (Some js) \<longrightarrow> covered sha coll i st')"
        using Cons.IH [OF evolves_inv [OF k(1)] _ rest] Cons.prems(2) by simp
      have "covered sha coll i st'" if "key = coll @ '':'' @ i" "rr_document rd coll i = Inr (Some js)"
      proof -
        have "covered sha coll i st1" using k(2) [OF that(1)] that(2) True by (simp add: key_done_def)
        then show ?thesis using IH by (blast intro: covered_evolves)
      qed
      then show ?thesis using IH evolves_trans [OF k(1)] by auto
    next
      case False
      then show ?thesis using Cons.prems(3) one k by simp
    qed
  qed
  then show "evolves sha P st st'" "\<not> go \<Longrightarrow> \<not> can_scan st'"
    "go \<Longrightarrow> coll @ '':'' @ i \<in> set keys \<Longrightarrow> rr_document rd coll i = Inr (Some js) \<Longrightarrow> covered sha coll i st'"
    by blast+
qed

lemma scan_once_done:
  assumes "reconcile_inv sha st" and "\<And>x. candidate rd ms x \<Longrightarrow> P x"
  shows "evolves sha P st (scan_once sha decode rd ms st)
    \<and> (can_scan (scan_once sha decode rd ms st) \<longrightarrow> (\<forall>m\<in>set ms. rr_keys rd (sm_collection m @ '':'') \<noteq> None)
       \<longrightarrow> candidate rd ms (coll, i) \<longrightarrow> rr_document rd coll i = Inr (Some js)
       \<longrightarrow> covered sha coll i (scan_once sha decode rd ms st))"
  using assms
proof (induction ms arbitrary: st)
  case Nil
  then show ?case using evolves_refl by (simp add: candidate_def)
next
  case (Cons m ms)
  let ?c = "sm_collection m"
  have P': "\<And>x. candidate rd ms x \<Longrightarrow> P x" using Cons.prems(2) by (simp add: candidate_def)
  show ?case
  proof (cases "can_scan st \<and> rr_keys rd (?c @ '':'') \<noteq> None")
    case False
    then show ?thesis
      using evolves_refl [OF Cons.prems(1)] evolves_counts(2) [OF Cons.prems(1)] by auto
  next
    case True
    then obtain keys where keys: "rr_keys rd (?c @ '':'') = Some keys" by blast
    obtain go st1 where run: "scan_keys sha decode rd ?c keys st = (go, st1)" by fastforce
    have Pc: "\<And>i. ?c @ '':'' @ i \<in> set keys \<Longrightarrow> P (?c, i)"
      using Cons.prems(2) keys by (auto simp: candidate_def)
    have k: "evolves sha P st st1" by (rule scan_keys_done(1) [where P = P, OF Cons.prems(1) _ run]) (erule Pc)
    have stop: "\<not> go \<Longrightarrow> \<not> can_scan st1"
      by (rule scan_keys_done(2) [where P = P, OF Cons.prems(1) _ run]) (erule Pc, assumption)
    have cov: "go \<Longrightarrow> ?c @ '':'' @ i \<in> set keys \<Longrightarrow> rr_document rd ?c i = Inr (Some js) \<Longrightarrow> covered sha ?c i st1"
      by (rule scan_keys_done(3) [where P = P, OF Cons.prems(1) _ run]) (erule Pc)
    show ?thesis
    proof (cases go)
      case False
      then show ?thesis using True keys run k stop by simp
    next
      case go: True
      have IH: "evolves sha P st1 (scan_once sha decode rd ms st1)
        \<and> (can_scan (scan_once sha decode rd ms st1) \<longrightarrow> (\<forall>m\<in>set ms. rr_keys rd (sm_collection m @ '':'') \<noteq> None)
          \<longrightarrow> candidate rd ms (coll, i) \<longrightarrow> rr_document rd coll i = Inr (Some js)
          \<longrightarrow> covered sha coll i (scan_once sha decode rd ms st1))"
        using Cons.IH [OF evolves_inv [OF k]] P' by blast
      have "covered sha coll i (scan_once sha decode rd ms st1)"
        if "coll = ?c" "?c @ '':'' @ i \<in> set keys" "rr_document rd coll i = Inr (Some js)"
        using covered_evolves [OF cov] go IH that by blast
      then have "covered sha coll i (scan_once sha decode rd ms st1)"
        if "candidate rd (m # ms) (coll, i)" "rr_document rd coll i = Inr (Some js)"
          "can_scan (scan_once sha decode rd ms st1)" "\<forall>m\<in>set ms. rr_keys rd (sm_collection m @ '':'') \<noteq> None"
        using that IH keys by (auto simp: candidate_def)
      then show ?thesis using IH True keys run go evolves_trans [OF k] by auto
    qed
  qed
qed

section \<open>A store with one locally written document\<close>

definition sample_exclusion_worker :: worker where
  "sample_exclusion_worker =
     \<lparr>wjournal = \<lparr>jkind = Exclusion, jfile = 0, jsequence = 1, jrecords = 1,
        jindex = [(document_digest sample_sha ''c'' ''d'', LocalExcluded)]\<rparr>,
      wqueue = [], whealthy = True, wstopped = False, wrunning = True, wreplies = [], wtickets = 0, wchecked = 0\<rparr>"

definition sample_reconcile :: "worker \<Rightarrow> disk \<Rightarrow> unit reconcile" where
  "sample_reconcile w d =
     \<lparr>rc_egress = egress_new sample_routes ''b'' sample_ready w d (), rc_exclusion = sample_exclusion_worker,
      rc_closed = False, rc_stats = reconcile_stats_new, rc_meanwhile = [], rc_offered = [], rc_clock = 0\<rparr>"

definition sample_reader :: reconcile_reader where
  "sample_reader = \<lparr>rr_keys = \<lambda>_. Some [''c:d''], rr_document = \<lambda>_ _. Inr (Some ''x'')\<rparr>"

lemma sample_reconcile_inv:
  "worker_durable sample_sha w d \<Longrightarrow> reconcile_inv sample_sha (sample_reconcile w d)"
  by (simp add: reconcile_inv_def sample_reconcile_def egress_new_def sample_sha_def sample_exclusion_worker_def worker_idle_def)

lemma sample_candidate: "candidate sample_reader sample_routes (''c'', ''d'')"
  by (simp add: candidate_def sample_reader_def sample_routes_def)

lemma sample_scan:
  assumes "whealthy w"
  shows "can_scan (scan_once sample_sha decode sample_reader sample_routes (sample_reconcile w d))"
proof -
  let ?st = "sample_reconcile w d" and ?dg = "document_digest sample_sha ''c'' ''d''"
  have idle: "worker_idle sample_exclusion_worker" "whealthy sample_exclusion_worker"
    by (simp_all add: worker_idle_def sample_exclusion_worker_def)
  have can: "can_scan ?st"
    using assms idle sample_ready_is_ready by (simp add: can_scan_def sample_reconcile_def egress_new_def)
  obtain x where x: "worker_lookup sample_sha ?dg sample_exclusion_worker d = (Inr (Some LocalExcluded), x, d)" "whealthy x"
    using worker_lookup_idle [OF idle(2,1), of sample_sha ?dg d] by (auto simp: sample_exclusion_worker_def)
  then have ex: "excluded sample_sha ?dg ?st = (Inr True, ?st\<lparr>rc_exclusion := x\<rparr>)"
    by (simp add: excluded_def ledger_contains_def map_result_def sample_reconcile_def egress_new_def)
  have "scan_once sample_sha decode sample_reader sample_routes ?st = count_suppressed (?st\<lparr>rc_exclusion := x\<rparr>)"
    using can ex strip_prefix_append [of "''c:''" "''d''"]
    by (simp add: sample_routes_def sample_reader_def scan_key_def)
  then show ?thesis using can x(2) by (simp add: can_scan_def count_suppressed_def)
qed

section \<open>Sound and complete\<close>

text \<open>
  Reconciliation never echoes local writes.  Whatever changes during its delays, a scan offers
  only documents of mapped collections that the store lists, and none whose digest the
  exclusion journal holds.
\<close>

lemma scan_offers_only_remote:
  assumes "reconcile_inv sha st"
  shows "\<exists>new. rc_offered (scan_once sha decode rd ms st) = rc_offered st @ new
    \<and> (\<forall>x\<in>set new. candidate rd ms x
         \<and> \<not> locally_written (rc_exclusion st) (document_digest sha (fst x) (snd x)))"
  using scan_once_done [where P = "candidate rd ms" and rd = rd and ms = ms and decode = decode, OF assms] unfolding evolves_def by blast

lemma scan_offers_only_remote_witness:
  "\<exists>w d. reconcile_inv sample_sha (sample_reconcile w d)
    \<and> (''c'', ''d'') \<notin> set (rc_offered (scan_once sample_sha (\<lambda>_. None) sample_reader sample_routes (sample_reconcile w d)))"
proof -
  obtain w d where "worker_durable sample_sha w d" using sample_durable by blast
  from sample_reconcile_inv [OF this] have inv: "reconcile_inv sample_sha (sample_reconcile w d)" .
  have "locally_written (rc_exclusion (sample_reconcile w d)) (document_digest sample_sha ''c'' ''d'')"
    "rc_offered (sample_reconcile w d) = []"
    by (simp_all add: locally_written_def sample_reconcile_def sample_exclusion_worker_def)
  with scan_offers_only_remote [OF inv, of "\<lambda>_. None" sample_reader sample_routes] inv show ?thesis
    by fastforce
qed



end
