(* ===== verification/Reconcile_Trigger.thy ===== *)
theory Reconcile_Trigger
  imports Bridge_Reconcile
begin

text \<open>
  The wake-up protocol of the reconciler (\<open>ReconcileTrigger\<close> and the task of
  \<open>spawn_reconciler_with\<close> in \<open>src/src/nats_bridge/reconcile.rs\<close>): callers and the scanning task share a
  channel of capacity one and two flags.  Each atomic access is a step, so the relation covers
  every interleaving of any number of callers.  Two ghost fields say whether a scan is owed:
  \<open>ts_failed\<close> marks callers that found the channel full since the last scan began, and \<open>ts_owed\<close>
  that a caller who used the channel since then has returned.
\<close>

section \<open>State\<close>

datatype reconcile_reason = StartupReady | ReconnectReady | ReconcileEventLagged

datatype scanner_phase = Receiving | Woken | Starting | Scanning | Deciding | ScannerStopped

record trigger_state =
  ts_channel :: "reconcile_reason list"
  ts_pending :: bool
  ts_closed :: bool
  ts_stats :: reconcile_stats
  ts_phase :: scanner_phase
  ts_entered :: nat
  ts_failed :: "bool list"
  ts_owed :: bool

definition trigger_new :: trigger_state where
  "trigger_new =
     \<lparr>ts_channel = [], ts_pending = False, ts_closed = False, ts_stats = reconcile_stats_new,
      ts_phase = Receiving, ts_entered = 0, ts_failed = [], ts_owed = False\<rparr>"

section \<open>The caller's accesses\<close>

definition trigger_enter :: "trigger_state \<Rightarrow> trigger_state" where
  "trigger_enter s =
     (if ts_closed s then s
      else s\<lparr>ts_stats := (ts_stats s)\<lparr>rs_triggers := rs_triggers (ts_stats s) + 1\<rparr>, ts_entered := ts_entered s + 1\<rparr>)"

text \<open>\<open>try_send\<close> fails when the channel is full and when the task has dropped its end.\<close>

definition trigger_send :: "reconcile_reason \<Rightarrow> trigger_state \<Rightarrow> trigger_state" where
  "trigger_send reason s =
     (if ts_phase s = ScannerStopped \<or> ts_channel s \<noteq> []
      then s\<lparr>ts_entered := ts_entered s - 1, ts_failed := True # ts_failed s\<rparr>
      else s\<lparr>ts_entered := ts_entered s - 1, ts_channel := [reason], ts_owed := True\<rparr>)"

definition trigger_mark :: "bool \<Rightarrow> trigger_state \<Rightarrow> trigger_state" where
  "trigger_mark fresh s =
     s\<lparr>ts_pending := True, ts_owed := ts_owed s \<or> fresh,
       ts_stats := (if ts_pending s then ts_stats s
         else (ts_stats s)\<lparr>rs_coalesced := rs_coalesced (ts_stats s) + 1\<rparr>)\<rparr>"

text \<open>A whole call that nothing interrupts.\<close>

definition reconcile_trigger :: "reconcile_reason \<Rightarrow> trigger_state \<Rightarrow> trigger_state" where
  "reconcile_trigger reason s =
     (if ts_closed s then s
      else let s1 = trigger_send reason (trigger_enter s)
           in if ts_failed s1 = ts_failed s then s1
              else trigger_mark True (s1\<lparr>ts_failed := ts_failed s\<rparr>))"

section \<open>The task's accesses\<close>

definition scanner_recv :: "trigger_state \<Rightarrow> trigger_state" where
  "scanner_recv s = s\<lparr>ts_channel := tl (ts_channel s), ts_phase := Woken\<rparr>"

definition scanner_check :: "trigger_state \<Rightarrow> trigger_state" where
  "scanner_check s = s\<lparr>ts_phase := if ts_closed s then ScannerStopped else Starting\<rparr>"

definition scanner_begin :: "trigger_state \<Rightarrow> trigger_state" where
  "scanner_begin s =
     s\<lparr>ts_phase := Scanning, ts_stats := (ts_stats s)\<lparr>rs_scans := rs_scans (ts_stats s) + 1\<rparr>,
       ts_owed := False, ts_failed := map (\<lambda>_. False) (ts_failed s)\<rparr>"

text \<open>\<open>closed.load() || !pending.swap(false)\<close>: the load, and the swap when it is reached.\<close>

definition scanner_end :: "trigger_state \<Rightarrow> trigger_state" where
  "scanner_end s = s\<lparr>ts_phase := if ts_closed s then Receiving else Deciding\<rparr>"

definition scanner_swap :: "trigger_state \<Rightarrow> trigger_state" where
  "scanner_swap s = s\<lparr>ts_pending := False, ts_phase := if ts_pending s then Starting else Receiving\<rparr>"

definition close_first :: "trigger_state \<Rightarrow> trigger_state" where
  "close_first s = s\<lparr>ts_closed := True\<rparr>"

definition close_second :: "trigger_state \<Rightarrow> trigger_state" where
  "close_second s = s\<lparr>ts_pending := False\<rparr>"

datatype trigger_event =
    Entered | Sent reconcile_reason | Marked | Received | Checked | Began | Ended | Swapped | Closing | Closed

inductive trigger_step :: "trigger_state \<Rightarrow> trigger_event \<Rightarrow> trigger_state \<Rightarrow> bool" where
  enter: "trigger_step s Entered (trigger_enter s)"
| send: "ts_entered s > 0 \<Longrightarrow> trigger_step s (Sent r) (trigger_send r s)"
| mark: "ts_failed s = xs @ f # ys \<Longrightarrow> trigger_step s Marked (trigger_mark f (s\<lparr>ts_failed := xs @ ys\<rparr>))"
| recv: "ts_phase s = Receiving \<Longrightarrow> ts_channel s \<noteq> [] \<Longrightarrow> trigger_step s Received (scanner_recv s)"
| check: "ts_phase s = Woken \<Longrightarrow> trigger_step s Checked (scanner_check s)"
| begin_scan: "ts_phase s = Starting \<Longrightarrow> trigger_step s Began (scanner_begin s)"
| end_scan: "ts_phase s = Scanning \<Longrightarrow> trigger_step s Ended (scanner_end s)"
| swap: "ts_phase s = Deciding \<Longrightarrow> trigger_step s Swapped (scanner_swap s)"
| closing: "trigger_step s Closing (close_first s)"
| close: "ts_closed s \<Longrightarrow> trigger_step s Closed (close_second s)"

section \<open>No lost trigger\<close>

definition trigger_inv :: "trigger_state \<Rightarrow> bool" where
  "trigger_inv s \<longleftrightarrow> length (ts_channel s) \<le> 1 \<and> (\<not> ts_closed s \<longrightarrow>
     ts_phase s \<noteq> ScannerStopped
     \<and> (True \<in> set (ts_failed s) \<longrightarrow> ts_channel s \<noteq> [] \<or> ts_phase s \<in> {Woken, Starting})
     \<and> (ts_owed s \<longrightarrow> ts_channel s \<noteq> [] \<or> ts_phase s \<in> {Woken, Starting}
          \<or> ts_phase s \<in> {Scanning, Deciding} \<and> ts_pending s))"

lemmas trigger_defs = trigger_enter_def trigger_send_def trigger_mark_def scanner_recv_def scanner_check_def
  scanner_begin_def scanner_end_def scanner_swap_def close_first_def close_second_def

lemma trigger_step_inv: "trigger_step s e s' \<Longrightarrow> trigger_inv s \<Longrightarrow> trigger_inv s'"
proof (induction rule: trigger_step.induct)
  case (mark s xs f ys)
  then show ?case by (cases f) (auto simp: trigger_inv_def trigger_mark_def)
qed (auto simp: trigger_inv_def trigger_defs)

lemma trigger_runs_inv: "runs trigger_step s es s' \<Longrightarrow> trigger_inv s \<Longrightarrow> trigger_inv s'"
  by (induction rule: runs.induct) (auto intro: trigger_step_inv)

text \<open>
  C8: No lost wake-up.  However callers and the scanning task interleave, as long as the reconciler is
  not closed the task goes to sleep (waits on an empty channel) only if a scan has begun after
  the channel access of every trigger call that has returned.
\<close>

theorem no_lost_trigger:
  assumes "runs trigger_step trigger_new es s" and "\<not> ts_closed s"
    and "ts_phase s = Receiving" and "ts_channel s = []"
  shows "\<not> ts_owed s"
  using trigger_runs_inv [OF assms(1)] assms(2-4) by (simp add: trigger_inv_def trigger_new_def)

theorem no_lost_trigger_witness:
  "\<exists>es s. runs trigger_step trigger_new es s \<and> Sent ReconcileEventLagged \<in> set es \<and> \<not> ts_closed s
    \<and> ts_phase s = Receiving \<and> ts_channel s = [] \<and> \<not> ts_owed s"
proof -
  let ?s = "scanner_swap (scanner_end (scanner_begin (scanner_check (scanner_recv
    (trigger_send ReconcileEventLagged (trigger_enter trigger_new))))))"
  have run: "runs trigger_step trigger_new
      [Entered, Sent ReconcileEventLagged, Received, Checked, Began, Ended, Swapped] ?s"
    by (intro runs_Cons [where step = trigger_step, OF enter] runs_Cons [where step = trigger_step, OF send] runs_Cons [where step = trigger_step, OF recv] runs_Cons [where step = trigger_step, OF check]
        runs_Cons [where step = trigger_step, OF begin_scan] runs_Cons [where step = trigger_step, OF end_scan] runs_Cons [where step = trigger_step, OF swap] runs_Nil)
      (simp_all add: trigger_defs trigger_new_def)
  moreover have "\<not> ts_closed ?s" "ts_phase ?s = Receiving" "ts_channel ?s = []"
    by (simp_all add: trigger_defs trigger_new_def)
  ultimately show ?thesis using no_lost_trigger [OF run] by fastforce
qed

end
