(* ===== verification/Bridge_Lifecycle.thy ===== *)
theory Bridge_Lifecycle
  imports Reconcile_Trigger
begin

text \<open>
  The connection lifecycle of the bridge (\<open>src/src/nats_bridge/runtime.rs\<close>): callback delivery and the
  barrier commit of \<open>LifecycleControl\<close>, the supervisor's handlers for lifecycle changes, ended
  subscription generations, finished barriers, slow consumers and outage deadlines, reading a
  subscription, and retry delays.  A handler runs to its end before the next one, as the
  supervisor's loop does; callbacks come between handlers.  Times are milliseconds.
\<close>

section \<open>Delivered events\<close>

datatype delivered_event = DeliveredInitial | DeliveredConnected | DeliveredDisconnected | DeliveredError

record lifecycle_snapshot =
  ls_sequence :: u64
  ls_connection_epoch :: u64
  ls_invalidation_epoch :: u64
  ls_connected :: bool
  ls_last_event :: delivered_event
  ls_connected_sequence :: u64
  ls_invalidation_sequence :: u64

definition lifecycle_default :: lifecycle_snapshot where
  "lifecycle_default =
     \<lparr>ls_sequence = 0, ls_connection_epoch = 0, ls_invalidation_epoch = 0, ls_connected = False,
      ls_last_event = DeliveredInitial, ls_connected_sequence = 0, ls_invalidation_sequence = 0\<rparr>"

fun delivered_readiness :: "delivered_event \<Rightarrow> bridge_status \<Rightarrow> bridge_status" where
  "delivered_readiness DeliveredConnected s = snd (set_connected s)"
| "delivered_readiness DeliveredDisconnected s = snd (mark_disconnected s)"
| "delivered_readiness DeliveredError s = snd (invalidate_subscription_generation s)"
| "delivered_readiness DeliveredInitial s = s"

fun delivered_snapshot :: "delivered_event \<Rightarrow> lifecycle_snapshot \<Rightarrow> lifecycle_snapshot" where
  "delivered_snapshot DeliveredInitial ls = ls"
| "delivered_snapshot DeliveredConnected ls =
     ls\<lparr>ls_sequence := sat_add (ls_sequence ls) 1, ls_last_event := DeliveredConnected,
        ls_connection_epoch := sat_add (ls_connection_epoch ls) 1, ls_connected := True,
        ls_connected_sequence := sat_add (ls_sequence ls) 1\<rparr>"
| "delivered_snapshot DeliveredDisconnected ls =
     ls\<lparr>ls_sequence := sat_add (ls_sequence ls) 1, ls_last_event := DeliveredDisconnected,
        ls_invalidation_epoch := sat_add (ls_invalidation_epoch ls) 1, ls_connected := False,
        ls_invalidation_sequence := sat_add (ls_sequence ls) 1\<rparr>"
| "delivered_snapshot DeliveredError ls =
     ls\<lparr>ls_sequence := sat_add (ls_sequence ls) 1, ls_last_event := DeliveredError,
        ls_invalidation_epoch := sat_add (ls_invalidation_epoch ls) 1,
        ls_invalidation_sequence := sat_add (ls_sequence ls) 1\<rparr>"

record barrier_tags =
  bt_connection_epoch :: u64
  bt_invalidation_epoch :: u64
  bt_generation_id :: u64

definition barrier_tags_match :: "barrier_tags \<Rightarrow> lifecycle_snapshot \<Rightarrow> u64 option \<Rightarrow> bool" where
  "barrier_tags_match tags ls generation_id \<longleftrightarrow>
     ls_connected ls \<and> ls_connection_epoch ls = bt_connection_epoch tags
     \<and> ls_invalidation_epoch ls = bt_invalidation_epoch tags \<and> generation_id = Some (bt_generation_id tags)"

definition commit_barrier ::
  "barrier_tags \<Rightarrow> u64 option \<Rightarrow> lifecycle_snapshot \<Rightarrow> bridge_status \<Rightarrow> bool \<times> bridge_status" where
  "commit_barrier tags generation_id ls status =
     (if \<not> barrier_tags_match tags ls generation_id then (False, status)
      else case mark_all_subscriptions_established status of (t, status') \<Rightarrow> (became_ready t, status'))"

definition barrier_allowed_after_latest_delivery :: "lifecycle_snapshot \<Rightarrow> bool" where
  "barrier_allowed_after_latest_delivery ls \<longleftrightarrow>
     ls_connected ls \<and> ls_connected_sequence ls > ls_invalidation_sequence ls"

definition start_barrier :: "u64 option \<Rightarrow> lifecycle_snapshot \<Rightarrow> barrier_tags option" where
  "start_barrier generation ls =
     map_option (\<lambda>g. \<lparr>bt_connection_epoch = ls_connection_epoch ls,
       bt_invalidation_epoch = ls_invalidation_epoch ls, bt_generation_id = g\<rparr>) generation"

section \<open>Log actions\<close>

datatype lifecycle_reason =
    LifecycleStarting | BrokerUnavailable | SubscriptionsPending | LifecycleDisconnected | LifecycleReady
  | RetryScheduled

fun lifecycle_reason_str :: "lifecycle_reason \<Rightarrow> string" where
  "lifecycle_reason_str LifecycleStarting = ''starting''"
| "lifecycle_reason_str BrokerUnavailable = ''broker_unavailable''"
| "lifecycle_reason_str SubscriptionsPending = ''subscriptions_pending''"
| "lifecycle_reason_str LifecycleDisconnected = ''disconnected''"
| "lifecycle_reason_str LifecycleReady = ''ready''"
| "lifecycle_reason_str RetryScheduled = ''retry_scheduled''"

record lifecycle_action =
  la_bridge_ready :: bool
  la_reason :: lifecycle_reason
  la_host :: string
  la_port :: nat
  la_connected :: bool
  la_established :: nat
  la_expected :: nat
  la_retry_attempt :: "nat option"
  la_retry_delay_ms :: "nat option"
  la_error_kind :: "string option"

definition lifecycle_status :: "lifecycle_reason \<Rightarrow> string \<Rightarrow> nat \<Rightarrow> bridge_status \<Rightarrow> lifecycle_action" where
  "lifecycle_status reason host port status =
     \<lparr>la_bridge_ready = is_ready status, la_reason = reason, la_host = host, la_port = port,
      la_connected = bs_connected status, la_established = card (bs_established_subjects status),
      la_expected = bs_expected_subscriptions status, la_retry_attempt = None, la_retry_delay_ms = None,
      la_error_kind = None\<rparr>"

definition lifecycle_unavailable :: "string \<Rightarrow> nat \<Rightarrow> bridge_status \<Rightarrow> lifecycle_action" where
  "lifecycle_unavailable host port status =
     (lifecycle_status BrokerUnavailable host port status)\<lparr>la_error_kind := Some ''connection_unavailable''\<rparr>"

definition lifecycle_retry :: "string \<Rightarrow> nat \<Rightarrow> nat \<Rightarrow> nat \<Rightarrow> lifecycle_action" where
  "lifecycle_retry host port attempt delay =
     \<lparr>la_bridge_ready = False, la_reason = RetryScheduled, la_host = host, la_port = port, la_connected = False,
      la_established = 0, la_expected = 0, la_retry_attempt = Some attempt,
      la_retry_delay_ms = Some (min delay (2 ^ 64 - 1)), la_error_kind = None\<rparr>"

definition disconnected_reason :: "lifecycle_snapshot \<Rightarrow> lifecycle_reason" where
  "disconnected_reason ls = (if ls_connection_epoch ls = 0 then BrokerUnavailable else LifecycleDisconnected)"

definition reconcile_reason_for_ready_generation :: "u64 \<Rightarrow> reconcile_reason" where
  "reconcile_reason_for_ready_generation n = (if n = 0 then StartupReady else ReconnectReady)"

section \<open>Outages, slow consumers, retries\<close>

definition OUTAGE_WARNING_INTERVAL :: nat where
  "OUTAGE_WARNING_INTERVAL = 5 * 60 * 1000"

definition SLOW_CONSUMER_WARNING_INTERVAL :: nat where
  "SLOW_CONSUMER_WARNING_INTERVAL = 60 * 1000"

definition RETRY_MIN :: nat where
  "RETRY_MIN = 1000"

definition RETRY_MAX :: nat where
  "RETRY_MAX = 30000"

definition outage_begin :: "nat \<Rightarrow> nat option \<Rightarrow> bool \<times> nat option" where
  "outage_begin now next_warning =
     (case next_warning of Some _ \<Rightarrow> (False, next_warning) | None \<Rightarrow> (True, Some (now + OUTAGE_WARNING_INTERVAL)))"

definition outage_periodic_due :: "nat \<Rightarrow> nat option \<Rightarrow> bool \<times> nat option" where
  "outage_periodic_due now next_warning =
     (case next_warning of
        Some deadline \<Rightarrow> if now \<ge> deadline then (True, Some (now + OUTAGE_WARNING_INTERVAL)) else (False, next_warning)
      | None \<Rightarrow> (False, next_warning))"

definition outage_recovered :: "nat option \<Rightarrow> nat option" where
  "outage_recovered next_warning = None"

definition slow_consumer_should_warn :: "nat \<Rightarrow> nat option \<Rightarrow> bool \<times> nat option" where
  "slow_consumer_should_warn now next_warning =
     (if (case next_warning of None \<Rightarrow> False | Some deadline \<Rightarrow> now < deadline) then (False, next_warning)
      else (True, Some (now + SLOW_CONSUMER_WARNING_INTERVAL)))"

record slow_consumer_action =
  sa_host :: string
  sa_port :: nat
  sa_event_count :: u64

definition handle_slow_consumer ::
  "ingress_stats \<Rightarrow> nat option \<Rightarrow> nat \<Rightarrow> string \<Rightarrow> nat
    \<Rightarrow> slow_consumer_action option \<times> ingress_stats \<times> nat option" where
  "handle_slow_consumer stats warning_state now host port =
     (let stats' = record_slow_consumer stats
      in case slow_consumer_should_warn now warning_state of
           (warn, w) \<Rightarrow>
             (if warn then Some \<lparr>sa_host = host, sa_port = port, sa_event_count = slow_consumer_events stats'\<rparr> else None,
              stats', w))"

definition nominal_retry_delay :: "nat \<Rightarrow> nat" where
  "nominal_retry_delay attempt = [1, 2, 4, 8, 16, 30] ! min (attempt - 1) 5 * 1000"

definition retry_delay :: "nat \<Rightarrow> nat \<Rightarrow> nat" where
  "retry_delay attempt jitter_percent =
     (let base_ms = min (nominal_retry_delay attempt) (2 ^ 64 - 1);
          extra_ms = min (base_ms * min jitter_percent 20) (2 ^ 64 - 1) div 100
      in max RETRY_MIN (min RETRY_MAX (min (base_ms + extra_ms) (2 ^ 64 - 1))))"

section \<open>Reading a subscription\<close>

definition has_exact_own_origin :: "(string \<times> string) list option \<Rightarrow> string \<Rightarrow> bool" where
  "has_exact_own_origin headers local_node_id =
     (case headers of
        None \<Rightarrow> False
      | Some hs \<Rightarrow>
          (case filter (\<lambda>h. fst h = BRIDGE_ORIGIN_HEADER) hs of
             [] \<Rightarrow> False
           | v # rest \<Rightarrow> snd v = local_node_id \<and> rest = []))"

record nats_message =
  nm_subject :: string
  nm_headers :: "(string \<times> string) list option"
  nm_payload :: bytes

datatype read_outcome = ReaderBreaks | Consumed "ingress_action option" | Forwarded ingress_item

text \<open>One received message: what becomes of it, the counters and the oversized limiter it changes.\<close>

definition read_message ::
  "bool \<Rightarrow> string \<Rightarrow> string \<Rightarrow> nat \<Rightarrow> nats_message \<Rightarrow> ingress_stats \<times> (string \<times> warning_bucket) list
    \<Rightarrow> read_outcome \<times> ingress_stats \<times> (string \<times> warning_bucket) list" where
  "read_message accepting local_node_id coll now m st =
     (case st of (stats, limiter) \<Rightarrow>
        if \<not> accepting then (ReaderBreaks, stats, limiter)
        else if has_exact_own_origin (nm_headers m) local_node_id
        then (Consumed None, record_self_suppressed stats, limiter)
        else if is_payload_oversized (length (nm_payload m))
        then (case record_oversized_at (nm_subject m) coll (length (nm_payload m)) now limiter of
                (a, limiter') \<Rightarrow> (Consumed a, record_oversized_payload stats, limiter'))
        else (Forwarded \<lparr>ii_subject = nm_subject m, ii_collection = coll, ii_payload = nm_payload m\<rparr>, stats, limiter))"

text \<open>
  The reader over the messages of its subscriber, each with whether the bridge still accepts, the
  time, and whether the ingress queue takes the item.  It returns the items queued, in order.
\<close>

fun read_subscription ::
  "string \<Rightarrow> string \<Rightarrow> (bool \<times> nat \<times> bool \<times> nats_message) list \<Rightarrow> ingress_stats \<times> (string \<times> warning_bucket) list
    \<Rightarrow> ingress_item list \<times> ingress_stats \<times> (string \<times> warning_bucket) list" where
  "read_subscription local_node_id coll [] st = ([], st)"
| "read_subscription local_node_id coll ((accepting, now, sent, m) # ms) st =
     (case read_message accepting local_node_id coll now m st of
        (ReaderBreaks, st') \<Rightarrow> ([], st')
      | (Consumed _, st') \<Rightarrow> read_subscription local_node_id coll ms st'
      | (Forwarded item, st') \<Rightarrow>
          if \<not> sent then ([], st')
          else case read_subscription local_node_id coll ms st' of (items, st'') \<Rightarrow> (item # items, st''))"

end
