(* ===== verification/Bridge_Supervisor.thy ===== *)
theory Bridge_Supervisor
  imports Bridge_Lifecycle
begin

text \<open>
  The client supervisor (\<open>run_client_supervisor\<close> in \<open>src/src/nats_bridge/runtime.rs\<close>): one handler per
  arm of its loop, folded over the events it meets.  Whether \<open>build_subscription_generation\<close> gets
  all its subscribers and whether the broker round trip succeeds are part of the events, as the NATS
  client decides them.
\<close>

section \<open>State and handlers\<close>

record supervisor =
  sv_lifecycle :: lifecycle_snapshot
  sv_status :: bridge_status
  sv_outage :: "nat option"
  sv_slow_consumers :: "nat option"
  sv_generation :: "u64 option"
  sv_next_generation_id :: u64
  sv_handled_connection_epoch :: u64
  sv_handled_invalidation_epoch :: u64
  sv_ready_generations :: u64
  sv_barrier :: "barrier_tags option"
  sv_stats :: ingress_stats
  sv_actions :: "lifecycle_action list"
  sv_slow_actions :: "slow_consumer_action list"
  sv_triggers :: "reconcile_reason list"
  sv_host :: string
  sv_port :: nat
  sv_ingress :: bool
  sv_reconcile :: bool

definition supervisor_new :: "string list \<Rightarrow> string \<Rightarrow> nat \<Rightarrow> bool \<Rightarrow> bool \<Rightarrow> supervisor" where
  "supervisor_new subjects host port ingress reconcile =
     \<lparr>sv_lifecycle = lifecycle_default, sv_status = readiness_new subjects, sv_outage = None,
      sv_slow_consumers = None, sv_generation = None, sv_next_generation_id = 1,
      sv_handled_connection_epoch = 0, sv_handled_invalidation_epoch = 0, sv_ready_generations = 0,
      sv_barrier = None, sv_stats = zero_stats, sv_actions = [], sv_slow_actions = [], sv_triggers = [],
      sv_host = host, sv_port = port, sv_ingress = ingress, sv_reconcile = reconcile\<rparr>"

definition emit_unavailable :: "supervisor \<Rightarrow> supervisor" where
  "emit_unavailable s = s\<lparr>sv_actions := sv_actions s @ [lifecycle_unavailable (sv_host s) (sv_port s) (sv_status s)]\<rparr>"

definition emit_status :: "lifecycle_reason \<Rightarrow> supervisor \<Rightarrow> supervisor" where
  "emit_status r s = s\<lparr>sv_actions := sv_actions s @ [lifecycle_status r (sv_host s) (sv_port s) (sv_status s)]\<rparr>"

definition lifecycle_delivered :: "delivered_event \<Rightarrow> supervisor \<Rightarrow> supervisor" where
  "lifecycle_delivered ev s = s\<lparr>sv_status := delivered_readiness ev (sv_status s), sv_lifecycle := delivered_snapshot ev (sv_lifecycle s)\<rparr>"

definition build_generation :: "bool \<Rightarrow> supervisor \<Rightarrow> supervisor" where
  "build_generation built s =
     s\<lparr>sv_generation := (if built then Some (sv_next_generation_id s) else None),
       sv_next_generation_id := sat_add (sv_next_generation_id s) 1\<rparr>"

definition try_barrier :: "supervisor \<Rightarrow> supervisor" where
  "try_barrier s =
     (if barrier_allowed_after_latest_delivery (sv_lifecycle s)
      then s\<lparr>sv_barrier := start_barrier (sv_generation s) (sv_lifecycle s)\<rparr> else s)"

definition on_invalidation :: "nat \<Rightarrow> supervisor \<Rightarrow> supervisor" where
  "on_invalidation now s =
     (if ls_invalidation_epoch (sv_lifecycle s) = sv_handled_invalidation_epoch s then s
      else case outage_begin now (sv_outage s) of (first, outage) \<Rightarrow>
        let s' = s\<lparr>sv_handled_invalidation_epoch := ls_invalidation_epoch (sv_lifecycle s), sv_barrier := None,
                   sv_outage := outage\<rparr>
        in if ls_connected (sv_lifecycle s) then (if first then emit_unavailable s' else s')
           else if disconnected_reason (sv_lifecycle s) = BrokerUnavailable then emit_unavailable s'
           else emit_status LifecycleDisconnected s')"

definition on_connection :: "bool \<Rightarrow> supervisor \<Rightarrow> supervisor" where
  "on_connection built s =
     (if ls_connection_epoch (sv_lifecycle s) = sv_handled_connection_epoch s then s
      else
        let s' = emit_status SubscriptionsPending
                   (s\<lparr>sv_handled_connection_epoch := ls_connection_epoch (sv_lifecycle s),
                      sv_outage := outage_recovered (sv_outage s)\<rparr>)
        in if \<not> sv_ingress s' then s'
           else try_barrier (if sv_generation s' = None then build_generation built s' else s'))"

definition on_lifecycle :: "nat \<Rightarrow> bool \<Rightarrow> supervisor \<Rightarrow> supervisor" where
  "on_lifecycle now built s = on_connection built (on_invalidation now s)"

definition on_generation_ended :: "u64 \<Rightarrow> bool \<Rightarrow> supervisor \<Rightarrow> supervisor" where
  "on_generation_ended ended built s =
     (if sv_generation s \<noteq> Some ended then s
      else
        let rebuild = bs_connected (sv_status s);
            s' = s\<lparr>sv_status := snd (invalidate_subscription_generation (sv_status s)), sv_barrier := None,
                   sv_generation := None\<rparr>
        in if rebuild \<and> sv_ingress s' then try_barrier (build_generation built s') else s')"

definition on_slow_consumer :: "nat \<Rightarrow> supervisor \<Rightarrow> supervisor" where
  "on_slow_consumer now s =
     (case handle_slow_consumer (sv_stats s) (sv_slow_consumers s) now (sv_host s) (sv_port s) of
        (a, stats, w) \<Rightarrow> s\<lparr>sv_stats := stats, sv_slow_consumers := w,
          sv_slow_actions := sv_slow_actions s @ (case a of None \<Rightarrow> [] | Some x \<Rightarrow> [x])\<rparr>)"

definition on_barrier :: "bool \<Rightarrow> supervisor \<Rightarrow> supervisor" where
  "on_barrier succeeded s =
     (case sv_barrier s of
        None \<Rightarrow> s
      | Some tags \<Rightarrow>
          let s1 = s\<lparr>sv_barrier := None\<rparr>
          in if \<not> succeeded then s1
             else case commit_barrier tags (sv_generation s1) (sv_lifecycle s1) (sv_status s1) of (ready, status) \<Rightarrow>
               let s2 = s1\<lparr>sv_status := status\<rparr>
               in if \<not> ready then s2
                  else emit_status LifecycleReady
                    (s2\<lparr>sv_triggers := sv_triggers s2 @
                          (if sv_reconcile s2 then [reconcile_reason_for_ready_generation (sv_ready_generations s2)] else []),
                        sv_ready_generations := sat_add (sv_ready_generations s2) 1\<rparr>))"

definition on_outage_deadline :: "nat \<Rightarrow> supervisor \<Rightarrow> supervisor" where
  "on_outage_deadline now s =
     (case outage_periodic_due now (sv_outage s) of (due, outage) \<Rightarrow>
        let s' = s\<lparr>sv_outage := outage\<rparr> in if due then emit_unavailable s' else s')"

datatype ledger_worker_kind = ExclusionWorker | DeliveryWorker

definition ledger_unhealthy :: "ledger_worker_kind \<Rightarrow> supervisor \<Rightarrow> supervisor" where
  "ledger_unhealthy kind s =
     s\<lparr>sv_status := snd (case kind of ExclusionWorker \<Rightarrow> set_exclusion_healthy False (sv_status s)
        | DeliveryWorker \<Rightarrow> set_delivery_healthy False (sv_status s))\<rparr>"

section \<open>Runs\<close>

datatype supervisor_event =
    Callback delivered_event | LifecycleChanged nat bool | GenerationEnded u64 bool | SlowConsumer nat
  | BarrierDone bool | OutageDeadline nat | LedgerUnhealthy ledger_worker_kind | Quiesced

fun supervisor_step :: "supervisor_event \<Rightarrow> supervisor \<Rightarrow> supervisor" where
  "supervisor_step (Callback ev) s = lifecycle_delivered ev s"
| "supervisor_step (LifecycleChanged now built) s = on_lifecycle now built s"
| "supervisor_step (GenerationEnded ended built) s = on_generation_ended ended built s"
| "supervisor_step (SlowConsumer now) s = on_slow_consumer now s"
| "supervisor_step (BarrierDone ok) s = on_barrier ok s"
| "supervisor_step (OutageDeadline now) s = on_outage_deadline now s"
| "supervisor_step (LedgerUnhealthy kind) s = ledger_unhealthy kind s"
| "supervisor_step Quiesced s = s\<lparr>sv_status := snd (begin_shutdown (sv_status s))\<rparr>"

definition supervisor_run :: "supervisor_event list \<Rightarrow> supervisor \<Rightarrow> supervisor" where
  "supervisor_run es s = fold supervisor_step es s"

lemma supervisor_run_Nil [simp]: "supervisor_run [] s = s"
  by (simp add: supervisor_run_def)

lemma supervisor_run_snoc [simp]: "supervisor_run (es @ [e]) s = supervisor_step e (supervisor_run es s)"
  by (simp add: supervisor_run_def)

section \<open>What each handler leaves alone\<close>

lemma emit_frame [simp]:
  "sv_status (emit_unavailable s) = sv_status s" "sv_lifecycle (emit_unavailable s) = sv_lifecycle s"
  "sv_triggers (emit_unavailable s) = sv_triggers s" "sv_barrier (emit_unavailable s) = sv_barrier s"
  "sv_status (emit_status r s) = sv_status s" "sv_lifecycle (emit_status r s) = sv_lifecycle s"
  "sv_triggers (emit_status r s) = sv_triggers s" "sv_barrier (emit_status r s) = sv_barrier s"
  by (simp_all add: emit_unavailable_def emit_status_def)

lemma try_barrier_frame [simp]:
  "sv_status (try_barrier s) = sv_status s" "sv_lifecycle (try_barrier s) = sv_lifecycle s"
  "sv_triggers (try_barrier s) = sv_triggers s"
  by (simp_all add: try_barrier_def)

lemma build_generation_frame [simp]:
  "sv_status (build_generation b s) = sv_status s" "sv_lifecycle (build_generation b s) = sv_lifecycle s"
  "sv_triggers (build_generation b s) = sv_triggers s" "sv_barrier (build_generation b s) = sv_barrier s"
  by (simp_all add: build_generation_def)

lemma on_invalidation_frame [simp]:
  "sv_status (on_invalidation now s) = sv_status s" "sv_lifecycle (on_invalidation now s) = sv_lifecycle s"
  "sv_triggers (on_invalidation now s) = sv_triggers s"
  by (simp_all add: on_invalidation_def Let_def split: prod.split)

lemma on_connection_frame [simp]:
  "sv_status (on_connection b s) = sv_status s" "sv_lifecycle (on_connection b s) = sv_lifecycle s"
  "sv_triggers (on_connection b s) = sv_triggers s"
  by (simp_all add: on_connection_def Let_def)

lemma on_lifecycle_frame [simp]:
  "sv_status (on_lifecycle now b s) = sv_status s" "sv_lifecycle (on_lifecycle now b s) = sv_lifecycle s"
  "sv_triggers (on_lifecycle now b s) = sv_triggers s"
  by (simp_all add: on_lifecycle_def)

lemma on_generation_ended_frame [simp]:
  "sv_lifecycle (on_generation_ended g b s) = sv_lifecycle s"
  "sv_triggers (on_generation_ended g b s) = sv_triggers s"
  by (simp_all add: on_generation_ended_def Let_def)

lemma on_generation_ended_status:
  "sv_status (on_generation_ended g b s) = sv_status s
   \<or> sv_status (on_generation_ended g b s) = snd (invalidate_subscription_generation (sv_status s))"
  by (simp add: on_generation_ended_def Let_def)

lemma log_handlers_frame [simp]:
  "sv_status (on_slow_consumer now s) = sv_status s" "sv_lifecycle (on_slow_consumer now s) = sv_lifecycle s"
  "sv_barrier (on_slow_consumer now s) = sv_barrier s"
  "sv_status (on_outage_deadline now s) = sv_status s" "sv_lifecycle (on_outage_deadline now s) = sv_lifecycle s"
  "sv_barrier (on_outage_deadline now s) = sv_barrier s"
  by (simp_all add: on_slow_consumer_def on_outage_deadline_def Let_def split: prod.split)

lemma on_barrier_frame [simp]: "sv_lifecycle (on_barrier ok s) = sv_lifecycle s" "sv_barrier (on_barrier ok s) = None"
  by (auto simp: on_barrier_def Let_def split: option.split prod.split)

lemma on_barrier_status:
  "sv_status (on_barrier ok s) = sv_status s
   \<or> (ok \<and> (\<exists>tags. sv_barrier s = Some tags \<and> barrier_tags_match tags (sv_lifecycle s) (sv_generation s)
        \<and> sv_status (on_barrier ok s) = (sv_status s)\<lparr>bs_established_subjects := bs_configured_subjects (sv_status s)\<rparr>))"
  by (cases "sv_barrier s") (auto simp: on_barrier_def commit_barrier_def readiness_defs)

section \<open>Becoming ready\<close>

definition sup_inv :: "supervisor \<Rightarrow> bool" where
  "sup_inv s \<longleftrightarrow> bs_connected (sv_status s) = ls_connected (sv_lifecycle s)
     \<and> (bs_established_subjects (sv_status s) \<noteq> {} \<longrightarrow> ls_connected (sv_lifecycle s))
     \<and> bs_configured_subjects (sv_status s) \<noteq> {}"

lemma sup_inv_step: "sup_inv s \<Longrightarrow> sup_inv (supervisor_step e s)"
proof (cases e)
  case (Callback ev)
  moreover assume "sup_inv s"
  ultimately show ?thesis by (cases ev) (auto simp: sup_inv_def lifecycle_delivered_def readiness_defs)
next
  case (GenerationEnded g b)
  moreover assume "sup_inv s"
  ultimately show ?thesis
    using on_generation_ended_status [of g b s] by (auto simp: sup_inv_def readiness_defs)
next
  case (BarrierDone ok)
  moreover assume "sup_inv s"
  ultimately show ?thesis
    using on_barrier_status [of ok s] by (auto simp: sup_inv_def barrier_tags_match_def)
next
  case (LedgerUnhealthy kind)
  moreover assume "sup_inv s"
  ultimately show ?thesis by (cases kind) (auto simp: sup_inv_def ledger_unhealthy_def readiness_defs)
qed (auto simp: sup_inv_def readiness_defs)

lemma sup_inv_run:
  assumes "subjects \<noteq> []"
  shows "sup_inv (supervisor_run es (supervisor_new subjects host port ingress reconcile))"
proof (induction es rule: rev_induct)
  case Nil
  then show ?case
    using assms by (simp add: sup_inv_def supervisor_new_def readiness_new_def lifecycle_default_def)
next
  case (snoc e es)
  then show ?case by (simp add: sup_inv_step)
qed

lemma ready_edge_step:
  assumes "sup_inv s" "\<not> is_ready (sv_status s)" "is_ready (sv_status (supervisor_step e s))"
  shows "e = BarrierDone True \<and> sv_triggers (supervisor_step e s) = sv_triggers s @
    (if sv_reconcile s then [reconcile_reason_for_ready_generation (sv_ready_generations s)] else [])"
proof (cases e)
  case (Callback ev)
  then show ?thesis using assms by (cases ev) (auto simp: sup_inv_def lifecycle_delivered_def readiness_defs is_ready_def)
next
  case (GenerationEnded g b)
  then show ?thesis
    using assms on_generation_ended_status [of g b s] by (auto simp: sup_inv_def readiness_defs is_ready_def)
next
  case (BarrierDone ok)
  then have changed: "sv_status (on_barrier ok s) \<noteq> sv_status s" using assms by auto
  then obtain tags where ok: "ok" "sv_barrier s = Some tags"
    and tags: "barrier_tags_match tags (sv_lifecycle s) (sv_generation s)"
    and st: "sv_status (on_barrier ok s) = (sv_status s)\<lparr>bs_established_subjects := bs_configured_subjects (sv_status s)\<rparr>"
    using on_barrier_status [of ok s] by blast
  have "is_ready ((sv_status s)\<lparr>bs_established_subjects := bs_configured_subjects (sv_status s)\<rparr>)"
    using assms(3) BarrierDone st by simp
  then show ?thesis
    using BarrierDone ok tags assms(2)
    by (simp add: on_barrier_def commit_barrier_def readiness_defs became_ready_def)
next
  case (LedgerUnhealthy kind)
  then show ?thesis
    using assms by (cases kind) (auto simp: ledger_unhealthy_def readiness_defs is_ready_def)
qed (use assms in \<open>auto simp: readiness_defs is_ready_def\<close>)

section \<open>Freshness of the barrier\<close>

fun is_callback :: "supervisor_event \<Rightarrow> bool" where
  "is_callback (Callback ev) = (ev \<noteq> DeliveredInitial)"
| "is_callback _ = False"

fun starts_barriers :: "supervisor_event \<Rightarrow> bool" where
  "starts_barriers (LifecycleChanged now built) = True"
| "starts_barriers (GenerationEnded ended built) = True"
| "starts_barriers _ = False"

definition callbacks :: "supervisor_event list \<Rightarrow> nat" where
  "callbacks es = length (filter is_callback es)"

lemma callbacks_simps [simp]:
  "callbacks [] = 0" "callbacks (xs @ ys) = callbacks xs + callbacks ys"
  "callbacks (e # es) = (if is_callback e then 1 else 0) + callbacks es"
  by (simp_all add: callbacks_def)

text \<open>Each connection is announced once: between two \<open>Connected\<close> callbacks there is a \<open>Disconnected\<close>.\<close>

fun connected_after :: "bool \<Rightarrow> supervisor_event \<Rightarrow> bool" where
  "connected_after c (Callback DeliveredConnected) = True"
| "connected_after c (Callback DeliveredDisconnected) = False"
| "connected_after c _ = c"

fun orderly :: "bool \<Rightarrow> supervisor_event list \<Rightarrow> bool" where
  "orderly c [] = True"
| "orderly c (e # es) = ((e = Callback DeliveredConnected \<longrightarrow> \<not> c) \<and> orderly (connected_after c e) es)"

lemma orderly_snoc:
  "orderly c (es @ [e]) \<longleftrightarrow> orderly c es \<and> (e = Callback DeliveredConnected \<longrightarrow> \<not> fold (\<lambda>e c. connected_after c e) es c)"
  by (induction es arbitrary: c) auto

lemma step_connected: "ls_connected (sv_lifecycle (supervisor_step e s)) = connected_after (ls_connected (sv_lifecycle s)) e"
proof (cases e)
  case (Callback ev)
  then show ?thesis by (cases ev) (simp_all add: lifecycle_delivered_def)
next
  case (LedgerUnhealthy kind)
  then show ?thesis by (simp add: ledger_unhealthy_def)
qed simp_all

lemma run_connected:
  "ls_connected (sv_lifecycle (supervisor_run es s)) = fold (\<lambda>e c. connected_after c e) es (ls_connected (sv_lifecycle s))"
  by (induction es rule: rev_induct) (simp_all add: step_connected)

definition epochs :: "lifecycle_snapshot \<Rightarrow> nat" where
  "epochs ls = unat (ls_connection_epoch ls) + unat (ls_invalidation_epoch ls)"

lemma step_epochs:
  assumes "epochs (sv_lifecycle s) < 2 ^ 64 - 1"
  shows "epochs (sv_lifecycle (supervisor_step e s)) = epochs (sv_lifecycle s) + (if is_callback e then 1 else 0)"
proof (cases e)
  case (Callback ev)
  then show ?thesis using assms by (cases ev) (simp_all add: epochs_def lifecycle_delivered_def unat_sat_add)
next
  case (LedgerUnhealthy kind)
  then show ?thesis by (simp add: ledger_unhealthy_def)
qed simp_all

lemma run_epochs:
  assumes "callbacks es < 2 ^ 64 - 1"
  shows "epochs (sv_lifecycle (supervisor_run es (supervisor_new subjects host port ingress reconcile))) = callbacks es"
  using assms
proof (induction es rule: rev_induct)
  case Nil
  then show ?case by (simp add: epochs_def supervisor_new_def lifecycle_default_def)
next
  case (snoc e es)
  then show ?case by (simp add: step_epochs)
qed

lemma start_barrier_epochs:
  "start_barrier g ls = Some t \<Longrightarrow> unat (bt_connection_epoch t) + unat (bt_invalidation_epoch t) = epochs ls"
  by (auto simp: start_barrier_def epochs_def)

lemma on_invalidation_barrier: "sv_barrier (on_invalidation now s) \<in> {None, sv_barrier s}"
  by (simp add: on_invalidation_def Let_def split: prod.split)

lemma on_connection_barrier:
  "sv_barrier (on_connection b s) = sv_barrier s \<or> (\<exists>g. sv_barrier (on_connection b s) = start_barrier g (sv_lifecycle s))"
  by (simp add: on_connection_def try_barrier_def Let_def) (auto simp: emit_status_def build_generation_def)

lemma on_generation_ended_barrier:
  "sv_barrier (on_generation_ended g b s) \<in> {None, sv_barrier s}
   \<or> (\<exists>g'. sv_barrier (on_generation_ended g b s) = start_barrier g' (sv_lifecycle s))"
  by (simp add: on_generation_ended_def try_barrier_def Let_def) (auto simp: build_generation_def)

lemma step_barrier:
  assumes "sv_barrier (supervisor_step e s) = Some t"
  shows "sv_barrier s = Some t \<or> (starts_barriers e
     \<and> unat (bt_connection_epoch t) + unat (bt_invalidation_epoch t) = epochs (sv_lifecycle s))"
proof (cases e)
  case (LifecycleChanged now b)
  then show ?thesis
    using assms on_connection_barrier [of b "on_invalidation now s"] on_invalidation_barrier [of now s]
    by (simp add: on_lifecycle_def) (metis start_barrier_epochs option.distinct(1))
next
  case (GenerationEnded g b)
  then show ?thesis
    using assms on_generation_ended_barrier [of g b s] by simp (metis start_barrier_epochs option.distinct(1))
next
  case (Callback ev)
  then show ?thesis using assms by (simp add: lifecycle_delivered_def)
next
  case (LedgerUnhealthy kind)
  then show ?thesis using assms by (simp add: ledger_unhealthy_def)
qed (use assms in auto)

lemma barrier_started:
  assumes "callbacks es < 2 ^ 64 - 1"
    and "sv_barrier (supervisor_run es (supervisor_new subjects host port ingress reconcile)) = Some t"
  shows "\<exists>a b. es = a @ b \<and> b \<noteq> [] \<and> starts_barriers (hd b)
    \<and> unat (bt_connection_epoch t) + unat (bt_invalidation_epoch t) = callbacks a"
  using assms
proof (induction es rule: rev_induct)
  case Nil
  then show ?case by (simp add: supervisor_new_def)
next
  case (snoc e es)
  let ?s = "supervisor_run es (supervisor_new subjects host port ingress reconcile)"
  have few: "callbacks es < 2 ^ 64 - 1" using snoc.prems(1) by simp
  from snoc.prems(2) have "sv_barrier (supervisor_step e ?s) = Some t" by simp
  then consider "sv_barrier ?s = Some t"
    | "starts_barriers e" "unat (bt_connection_epoch t) + unat (bt_invalidation_epoch t) = callbacks es"
    using step_barrier run_epochs [OF few] by metis
  then show ?case
  proof cases
    case 1
    then obtain a b where "es = a @ b" "b \<noteq> []" "starts_barriers (hd b)"
      "unat (bt_connection_epoch t) + unat (bt_invalidation_epoch t) = callbacks a"
      using snoc.IH few by blast
    then show ?thesis by (intro exI [of _ a] exI [of _ "b @ [e]"]) simp
  next
    case 2
    then show ?thesis by (intro exI [of _ es] exI [of _ "[e]"]) simp
  qed
qed

text \<open>The round trip of a barrier that commits began after the last callback.\<close>

definition confirmed :: "supervisor_event list \<Rightarrow> bool" where
  "confirmed es \<longleftrightarrow> (\<exists>a b c. es = a @ b @ BarrierDone True # c \<and> b \<noteq> [] \<and> starts_barriers (hd b)
     \<and> callbacks b = 0 \<and> callbacks c = 0)"

lemma confirmed_snoc: "confirmed es \<Longrightarrow> \<not> is_callback e \<Longrightarrow> confirmed (es @ [e])"
  unfolding confirmed_def by (elim exE conjE) (rule exI, rule exI, rule_tac x = "c @ [e]" in exI, simp)

lemma barrier_confirms:
  assumes few: "callbacks es < 2 ^ 64 - 1"
    and s: "s = supervisor_run es (supervisor_new subjects host port ingress reconcile)"
    and t: "sv_barrier s = Some t" and tags: "barrier_tags_match t (sv_lifecycle s) (sv_generation s)"
  shows "confirmed (es @ [BarrierDone True])"
proof -
  obtain a b where ab: "es = a @ b" "b \<noteq> []" "starts_barriers (hd b)"
    and sum: "unat (bt_connection_epoch t) + unat (bt_invalidation_epoch t) = callbacks a"
    using barrier_started [OF few] t s by blast
  have "epochs (sv_lifecycle s) = callbacks es" using run_epochs [OF few] s by simp
  with tags sum have "callbacks a = callbacks es" by (simp add: barrier_tags_match_def epochs_def)
  with ab have "callbacks b = 0" by simp
  with ab show ?thesis
    unfolding confirmed_def by (intro exI [of _ a] exI [of _ b] exI [of _ "[]"]) simp
qed

lemma established_step:
  assumes "bs_established_subjects (sv_status (supervisor_step e s)) \<noteq> {}" "sup_inv s"
    and "e = Callback DeliveredConnected \<Longrightarrow> \<not> ls_connected (sv_lifecycle s)"
  shows "(bs_established_subjects (sv_status s) \<noteq> {} \<and> \<not> is_callback e)
    \<or> (e = BarrierDone True \<and> (\<exists>t. sv_barrier s = Some t \<and> barrier_tags_match t (sv_lifecycle s) (sv_generation s)))"
proof (cases e)
  case (Callback ev)
  then show ?thesis using assms by (cases ev) (auto simp: lifecycle_delivered_def readiness_defs sup_inv_def)
next
  case (GenerationEnded g b)
  then show ?thesis using assms on_generation_ended_status [of g b s] by (auto simp: readiness_defs)
next
  case (BarrierDone ok)
  then show ?thesis using assms on_barrier_status [of ok s] by auto
next
  case (LedgerUnhealthy kind)
  then show ?thesis using assms by (cases kind) (auto simp: ledger_unhealthy_def readiness_defs)
qed (use assms in \<open>auto simp: readiness_defs\<close>)

lemma established_confirmed:
  assumes "subjects \<noteq> []" "callbacks es < 2 ^ 64 - 1" "orderly False es"
    and "bs_established_subjects (sv_status (supervisor_run es (supervisor_new subjects host port ingress reconcile))) \<noteq> {}"
  shows "confirmed es"
  using assms(2-)
proof (induction es rule: rev_induct)
  case Nil
  then show ?case by (simp add: supervisor_new_def readiness_new_def)
next
  case (snoc e es)
  let ?s = "supervisor_run es (supervisor_new subjects host port ingress reconcile)"
  have few: "callbacks es < 2 ^ 64 - 1" and ord: "orderly False es" using snoc.prems by (simp_all add: orderly_snoc)
  have "ls_connected (sv_lifecycle (supervisor_new subjects host port ingress reconcile)) = False"
    by (simp add: supervisor_new_def lifecycle_default_def)
  then have "e = Callback DeliveredConnected \<Longrightarrow> \<not> ls_connected (sv_lifecycle ?s)"
    using snoc.prems(2) by (simp add: orderly_snoc run_connected)
  then consider "bs_established_subjects (sv_status ?s) \<noteq> {}" "\<not> is_callback e"
    | t where "e = BarrierDone True" "sv_barrier ?s = Some t" "barrier_tags_match t (sv_lifecycle ?s) (sv_generation ?s)"
    using established_step [OF _ sup_inv_run [OF assms(1)]] snoc.prems(3) by (metis supervisor_run_snoc)
  then show ?case
  proof cases
    case 1
    then show ?thesis using snoc.IH few ord by (blast intro: confirmed_snoc)
  next
    case 2
    then show ?thesis using barrier_confirms [OF few refl] by blast
  qed
qed

section \<open>Properties\<close>

definition sample_supervisor :: supervisor where
  "sample_supervisor = supervisor_new [''a''] ''h'' 4222 True True"

definition sample_events :: "supervisor_event list" where
  "sample_events = [Callback DeliveredConnected, LifecycleChanged 0 True]"

lemmas supervisor_eval = sample_supervisor_def sample_events_def supervisor_run_def supervisor_new_def
  readiness_new_def lifecycle_default_def lifecycle_delivered_def on_lifecycle_def on_invalidation_def on_connection_def
  emit_status_def emit_unavailable_def build_generation_def try_barrier_def start_barrier_def on_barrier_def
  commit_barrier_def barrier_tags_match_def barrier_allowed_after_latest_delivery_def readiness_defs became_ready_def
  is_ready_def outage_recovered_def sat_add_def reconcile_reason_for_ready_generation_def

text \<open>
  C4: While the bridge is ready, the broker round trip that made it so lies entirely after the last
  lifecycle callback, if connections are announced once each.
\<close>

theorem ready_is_confirmed:
  assumes "subjects \<noteq> []" "callbacks es < 2 ^ 64 - 1" "orderly False es"
    and "is_ready (sv_status (supervisor_run es (supervisor_new subjects host port ingress reconcile)))"
  shows "confirmed es"
proof (rule established_confirmed [OF assms(1-3)])
  show "bs_established_subjects (sv_status (supervisor_run es (supervisor_new subjects host port ingress reconcile))) \<noteq> {}"
    using assms(4) sup_inv_run [OF assms(1)] by (simp add: is_ready_def sup_inv_def)
qed

theorem ready_is_confirmed_witness:
  "is_ready (sv_status (supervisor_run (sample_events @ [BarrierDone True]) sample_supervisor))
   \<and> confirmed (sample_events @ [BarrierDone True])"
proof
  show ready: "is_ready (sv_status (supervisor_run (sample_events @ [BarrierDone True]) sample_supervisor))"
    by (simp add: supervisor_eval)
  show "confirmed (sample_events @ [BarrierDone True])"
    by (rule ready_is_confirmed [OF _ _ _ ready [unfolded sample_supervisor_def]]) (simp_all add: sample_events_def)
qed

text \<open>
  The bridge becomes ready only by a successful barrier, and each time it does, the
  reconciler is triggered.
\<close>

lemma becoming_ready_triggers:
  assumes "subjects \<noteq> []" "s = supervisor_run es (supervisor_new subjects host port ingress reconcile)"
    and "\<not> is_ready (sv_status s)" "is_ready (sv_status (supervisor_step e s))"
  shows "e = BarrierDone True \<and> sv_triggers (supervisor_step e s) = sv_triggers s @
    (if sv_reconcile s then [reconcile_reason_for_ready_generation (sv_ready_generations s)] else [])"
  using ready_edge_step sup_inv_run [OF assms(1)] assms(2-4) by blast

lemma becoming_ready_triggers_witness:
  "sv_triggers (supervisor_step (BarrierDone True) (supervisor_run sample_events sample_supervisor)) = [StartupReady]"
proof -
  let ?s = "supervisor_run sample_events sample_supervisor"
  have off: "\<not> is_ready (sv_status ?s)" by (simp add: supervisor_eval)
  have on: "is_ready (sv_status (supervisor_step (BarrierDone True) ?s))" by (simp add: supervisor_eval)
  have "sv_triggers ?s = []" "sv_reconcile ?s" "sv_ready_generations ?s = 0" by (simp_all add: supervisor_eval)
  then show ?thesis
    using becoming_ready_triggers [OF _ _ off on] by (simp add: sample_supervisor_def reconcile_reason_for_ready_generation_def)
qed

text \<open>
  If a \<open>Disconnected\<close> callback is lost, the bridge stays ready on the old connection's round trip,
  and the barrier of the new connection commits without triggering the reconciler.
\<close>

lemma lost_disconnect_skips_reconciliation:
  "let before = sample_events @ [BarrierDone True];
       lost = before @ [Callback DeliveredConnected];
       relinked = lost @ [LifecycleChanged 1 True, BarrierDone True]
   in is_ready (sv_status (supervisor_run lost sample_supervisor))
    \<and> is_ready (sv_status (supervisor_run relinked sample_supervisor))
    \<and> sv_triggers (supervisor_run relinked sample_supervisor) = sv_triggers (supervisor_run before sample_supervisor)"
  by (simp add: supervisor_eval)

end
