(* ===== verification/Bridge_Shutdown.thy ===== *)
theory Bridge_Shutdown
  imports Bridge_Supervisor
begin

text \<open>
  Bridge shutdown and operational counters (\<open>shutdown\<close>, \<open>join_ledger_worker\<close> and the supervisor's
  shutdown arm in \<open>src/src/nats_bridge/runtime.rs\<close>; \<open>src/src/nats_bridge/operations.rs\<close>).  How each
  awaited task ends under the deadline is an input; the code's accounting of it is modelled whole.
\<close>

section \<open>Reports\<close>

datatype shutdown_phase = PhaseRunning | PhaseQuiescing | PhaseAborting | PhaseComplete

datatype shutdown_stage =
    StageProducers | StageConsumers | StageClientFlush | StageClientDrain | StageLedgerExclusion
  | StageLedgerDelivery | StageComplete

datatype shutdown_failure =
    DeadlineExceeded | TaskPanicked | ClientFailure | LedgerIoUnjoined ledger_worker_kind

record shutdown_report =
  sr_phase :: shutdown_phase
  sr_stage :: shutdown_stage
  sr_joined_tasks :: nat
  sr_aborted_tasks :: nat
  sr_failure :: "shutdown_failure option"

definition report_clean :: "nat \<Rightarrow> nat \<Rightarrow> shutdown_report" where
  "report_clean joined aborted =
     \<lparr>sr_phase = PhaseComplete, sr_stage = StageComplete, sr_joined_tasks = joined,
      sr_aborted_tasks = aborted, sr_failure = None\<rparr>"

definition is_clean :: "shutdown_report \<Rightarrow> bool" where
  "is_clean r \<longleftrightarrow> sr_failure r = None \<and> sr_phase r = PhaseComplete"

record supervisor_shutdown =
  ss_stage :: shutdown_stage
  ss_failure :: "shutdown_failure option"

section \<open>The supervisor's shutdown arm\<close>

text \<open>How an await under the deadline ends.\<close>

datatype 'a awaited = Ended 'a | Failed | TimedOut

datatype drain_wait = StateChanged | ChannelClosed | WaitTimedOut

text \<open>
  The wait for the connection to close: while it is connected, one lifecycle change after another.
  When the awaited changes are used up the connection has closed.
\<close>

fun wait_disconnected :: "drain_wait list \<Rightarrow> bool" where
  "wait_disconnected [] = True"
| "wait_disconnected (StateChanged # ws) = wait_disconnected ws"
| "wait_disconnected (ChannelClosed # ws) = True"
| "wait_disconnected (WaitTimedOut # ws) = False"

fun client_stage :: "shutdown_stage \<Rightarrow> unit awaited \<Rightarrow> supervisor_shutdown option" where
  "client_stage stage (Ended _) = None"
| "client_stage stage Failed = Some \<lparr>ss_stage = stage, ss_failure = Some ClientFailure\<rparr>"
| "client_stage stage TimedOut = Some \<lparr>ss_stage = stage, ss_failure = Some DeadlineExceeded\<rparr>"

fun egress_stage :: "unit awaited option \<Rightarrow> supervisor_shutdown option" where
  "egress_stage None = None"
| "egress_stage (Some (Ended _)) = None"
| "egress_stage (Some Failed) = Some \<lparr>ss_stage = StageConsumers, ss_failure = Some TaskPanicked\<rparr>"
| "egress_stage (Some TimedOut) = Some \<lparr>ss_stage = StageConsumers, ss_failure = Some DeadlineExceeded\<rparr>"

text \<open>\<open>barrier\<close> and \<open>generation\<close> are \<open>Some False\<close> when stopping the running one misses the deadline.\<close>

definition supervisor_stop ::
  "bool option \<Rightarrow> bool option \<Rightarrow> unit awaited option \<Rightarrow> unit awaited \<Rightarrow> unit awaited \<Rightarrow> drain_wait list
    \<Rightarrow> supervisor_shutdown" where
  "supervisor_stop barrier generation egress flush drain waits =
     (if barrier = Some False \<or> generation = Some False
      then \<lparr>ss_stage = StageProducers, ss_failure = Some DeadlineExceeded\<rparr>
      else case egress_stage egress of Some r \<Rightarrow> r | None \<Rightarrow>
        (case client_stage StageClientFlush flush of Some r \<Rightarrow> r | None \<Rightarrow>
          (case client_stage StageClientDrain drain of Some r \<Rightarrow> r | None \<Rightarrow>
            if wait_disconnected waits then \<lparr>ss_stage = StageComplete, ss_failure = None\<rparr>
            else \<lparr>ss_stage = StageClientDrain, ss_failure = Some DeadlineExceeded\<rparr>)))"

section \<open>The runtime's shutdown\<close>

record tally =
  ty_joined :: nat
  ty_aborted :: nat
  ty_failure :: "(shutdown_failure \<times> shutdown_stage) option"

definition note_failure :: "shutdown_failure \<Rightarrow> shutdown_stage \<Rightarrow> tally \<Rightarrow> tally" where
  "note_failure f stage t = (if ty_failure t = None then t\<lparr>ty_failure := Some (f, stage)\<rparr> else t)"

definition note_joined :: "tally \<Rightarrow> tally" where
  "note_joined t = t\<lparr>ty_joined := ty_joined t + 1\<rparr>"

definition note_aborted :: "tally \<Rightarrow> tally" where
  "note_aborted t = t\<lparr>ty_aborted := ty_aborted t + 1\<rparr>"

datatype producer_end = ProducerDone | ProducerCancelled | ProducerPanicked | ProducerTimedOut

fun join_producer :: "producer_end \<Rightarrow> tally \<Rightarrow> tally" where
  "join_producer ProducerDone t = note_aborted (note_joined t)"
| "join_producer ProducerCancelled t = note_aborted (note_joined t)"
| "join_producer ProducerPanicked t = note_failure TaskPanicked StageProducers (note_aborted (note_joined t))"
| "join_producer ProducerTimedOut t = note_failure DeadlineExceeded StageProducers (note_aborted t)"

fun supervisor_outcome :: "supervisor_shutdown awaited \<Rightarrow> supervisor_shutdown" where
  "supervisor_outcome (Ended r) = r"
| "supervisor_outcome Failed = \<lparr>ss_stage = StageConsumers, ss_failure = Some TaskPanicked\<rparr>"
| "supervisor_outcome TimedOut = \<lparr>ss_stage = StageConsumers, ss_failure = Some DeadlineExceeded\<rparr>"

definition join_supervisor :: "supervisor_shutdown awaited \<Rightarrow> tally \<Rightarrow> tally" where
  "join_supervisor r t =
     (let t' = (if r = TimedOut then note_aborted t else note_joined t); out = supervisor_outcome r
      in case ss_failure out of None \<Rightarrow> t' | Some f \<Rightarrow> note_failure f (ss_stage out) t')"

fun join_consumer :: "unit awaited \<Rightarrow> tally \<Rightarrow> tally" where
  "join_consumer (Ended _) t = note_joined t"
| "join_consumer Failed t = note_failure TaskPanicked StageConsumers (note_joined t)"
| "join_consumer TimedOut t = note_failure DeadlineExceeded StageConsumers (note_aborted t)"

text \<open>A ledger worker's join: absent, or whether \<open>join_worker\<close> returned \<open>Ok\<close> in time.\<close>

definition join_ledger_worker :: "ledger_worker_kind \<Rightarrow> bool option \<Rightarrow> shutdown_failure option" where
  "join_ledger_worker kind ledger =
     (case ledger of None \<Rightarrow> None | Some ok \<Rightarrow> if ok then None else Some (LedgerIoUnjoined kind))"

definition join_ledgers :: "bool option \<Rightarrow> bool option \<Rightarrow> tally \<Rightarrow> tally" where
  "join_ledgers excl deliv t =
     (case join_ledger_worker ExclusionWorker excl of
        Some f \<Rightarrow> note_failure f StageLedgerExclusion t
      | None \<Rightarrow>
          (case join_ledger_worker DeliveryWorker deliv of
             Some f \<Rightarrow> note_failure f StageLedgerDelivery t
           | None \<Rightarrow> t))"

record shutdown_ends =
  se_producers :: "producer_end list"
  se_supervisor :: "supervisor_shutdown awaited"
  se_consumers :: "unit awaited list"
  se_exclusion :: "bool option"
  se_delivery :: "bool option"
  se_operations :: "unit awaited option"

definition shutdown_tally :: "shutdown_ends \<Rightarrow> tally" where
  "shutdown_tally e =
     (let t1 = fold join_producer (se_producers e) \<lparr>ty_joined = 0, ty_aborted = 0, ty_failure = None\<rparr>;
          t2 = fold join_consumer (se_consumers e) (join_supervisor (se_supervisor e) t1);
          t3 = join_ledgers (se_exclusion e) (se_delivery e) t2
      in case se_operations e of None \<Rightarrow> t3 | Some r \<Rightarrow> join_consumer r t3)"

definition shutdown_report_of :: "tally \<Rightarrow> shutdown_report" where
  "shutdown_report_of t =
     (case ty_failure t of
        Some (f, stage) \<Rightarrow> \<lparr>sr_phase = PhaseAborting, sr_stage = stage, sr_joined_tasks = ty_joined t,
           sr_aborted_tasks = ty_aborted t, sr_failure = Some f\<rparr>
      | None \<Rightarrow> report_clean (ty_joined t) (ty_aborted t))"

section \<open>Operational counters\<close>

record outcomes =
  oc_shutdown_clean :: u64
  oc_shutdown_failure :: u64
  oc_shutdown_timeout :: u64
  oc_shutdown_aborted_tasks :: u64
  oc_ledger_io_unjoined :: u64

definition record_shutdown :: "shutdown_report \<Rightarrow> outcomes \<Rightarrow> outcomes" where
  "record_shutdown r oc =
     (let o1 = (if is_clean r then oc\<lparr>oc_shutdown_clean := oc_shutdown_clean oc + 1\<rparr>
                else oc\<lparr>oc_shutdown_failure := oc_shutdown_failure oc + 1\<rparr>);
          o2 = o1\<lparr>oc_shutdown_aborted_tasks := oc_shutdown_aborted_tasks o1 + word_of_nat (sr_aborted_tasks r)\<rparr>
      in case sr_failure r of
           Some DeadlineExceeded \<Rightarrow> o2\<lparr>oc_shutdown_timeout := oc_shutdown_timeout o2 + 1\<rparr>
         | Some (LedgerIoUnjoined _) \<Rightarrow> o2\<lparr>oc_ledger_io_unjoined := oc_ledger_io_unjoined o2 + 1\<rparr>
         | _ \<Rightarrow> o2)"

text \<open>What a shutdown changes of the runtime handle, besides taking its tasks.\<close>

record runtime_handle =
  rh_status :: bridge_status
  rh_trigger :: "trigger_state option"
  rh_outcomes :: outcomes

definition shutdown :: "shutdown_ends \<Rightarrow> runtime_handle \<Rightarrow> (shutdown_report + shutdown_report) \<times> runtime_handle" where
  "shutdown e h =
     (let report = shutdown_report_of (shutdown_tally e)
      in (if is_clean report then Inr report else Inl report,
          h\<lparr>rh_status := snd (begin_shutdown (rh_status h)),
            rh_trigger := map_option (\<lambda>t. close_second (close_first t)) (rh_trigger h),
            rh_outcomes := record_shutdown report (rh_outcomes h)\<rparr>))"

record operations_snapshot =
  os_enabled :: bool
  os_accepting :: bool
  os_ready :: bool
  os_connected :: bool
  os_delivery_healthy :: bool
  os_exclusion_healthy :: bool
  os_received :: u64
  os_stored :: u64
  os_invalid_input :: u64
  os_self_suppressed :: u64
  os_store_failures :: u64
  os_slow_consumer :: u64
  os_remote_published :: u64
  os_publish_failures :: u64
  os_reconnects :: u64
  os_event_lagged :: u64
  os_queue_loss :: u64
  os_ledger_failures :: u64
  os_delivery_reservations :: u64
  os_delivery_completions :: u64
  os_delivery_reservations_uncertain :: u64
  os_reconciliation :: reconcile_stats
  os_outcomes :: outcomes

definition aggregate ::
  "ingress_stats \<Rightarrow> egress_stats \<Rightarrow> reconcile_stats \<Rightarrow> bridge_status \<Rightarrow> lifecycle_snapshot \<Rightarrow> outcomes
    \<Rightarrow> operations_snapshot" where
  "aggregate ing eg rc status ls oc =
     \<lparr>os_enabled = bs_enabled status, os_accepting = bs_accepting status, os_ready = is_ready status,
      os_connected = bs_connected status, os_delivery_healthy = bs_delivery_healthy status,
      os_exclusion_healthy = bs_exclusion_healthy status, os_received = received ing, os_stored = stored ing,
      os_invalid_input = sat_add (invalid_utf8 ing) (invalid_json ing), os_self_suppressed = self_suppressed ing,
      os_store_failures = final_store_failures ing, os_slow_consumer = slow_consumer_events ing,
      os_remote_published = es_published eg,
      os_publish_failures = sat_add (sat_add (es_publish_failed eg) (es_max_payload_exceeded eg)) (es_flush_failed eg),
      os_reconnects = sat_sub (ls_connection_epoch ls) 1, os_event_lagged = es_event_lagged eg,
      os_queue_loss = sat_add (es_queue_full eg) (es_queue_closed eg), os_ledger_failures = es_ledger_unavailable eg,
      os_delivery_reservations = es_reserved eg, os_delivery_completions = es_completed eg,
      os_delivery_reservations_uncertain = sat_sub (es_reserved eg) (es_completed eg),
      os_reconciliation = rc, os_outcomes = oc\<rparr>"

section \<open>Lemmas\<close>

fun producer_ok :: "producer_end \<Rightarrow> bool" where
  "producer_ok ProducerDone = True"
| "producer_ok ProducerCancelled = True"
| "producer_ok _ = False"

fun ended :: "'a awaited \<Rightarrow> bool" where
  "ended (Ended _) = True"
| "ended _ = False"

lemmas tally_defs = note_failure_def note_joined_def note_aborted_def

lemma note_simps [simp]:
  "ty_failure (note_joined t) = ty_failure t" "ty_failure (note_aborted t) = ty_failure t"
  "ty_joined (note_joined t) = ty_joined t + 1" "ty_joined (note_aborted t) = ty_joined t"
  "ty_joined (note_failure f g t) = ty_joined t" "ty_failure (note_failure f g t) \<noteq> None"
  by (auto simp: tally_defs)

lemma join_producers:
  "(ty_failure (fold join_producer ps t) = None) = (ty_failure t = None \<and> list_all producer_ok ps)"
  "list_all producer_ok ps \<Longrightarrow> ty_joined (fold join_producer ps t) = ty_joined t + length ps"
proof (induction ps arbitrary: t)
  case (Cons p ps)
  {
    case 1
    then show ?case using Cons.IH(1) [of "join_producer p t"] by (cases p) simp_all
  next
    case 2
    then show ?case using Cons.IH(2) [of "join_producer p t"] by (cases p) simp_all
  }
qed simp_all

lemma join_consumer_ok:
  "(ty_failure (join_consumer r t) = None) = (ty_failure t = None \<and> ended r)"
  "ended r \<Longrightarrow> ty_joined (join_consumer r t) = ty_joined t + 1"
  by (cases r; simp)+

lemma join_consumers:
  "(ty_failure (fold join_consumer rs t) = None) = (ty_failure t = None \<and> list_all ended rs)"
  "list_all ended rs \<Longrightarrow> ty_joined (fold join_consumer rs t) = ty_joined t + length rs"
  by (induction rs arbitrary: t) (auto simp: join_consumer_ok)

lemma join_supervisor_ok:
  "(ty_failure (join_supervisor r t) = None) = (ty_failure t = None \<and> ss_failure (supervisor_outcome r) = None)"
  by (cases "ss_failure (supervisor_outcome r)") (simp_all add: join_supervisor_def Let_def)

lemma join_supervisor_joined:
  "ss_failure (supervisor_outcome r) = None \<Longrightarrow> ty_joined (join_supervisor r t) = ty_joined t + 1"
  by (cases r) (simp_all add: join_supervisor_def)

lemma join_ledgers_ok:
  "(ty_failure (join_ledgers x d t) = None) = (ty_failure t = None \<and> x \<noteq> Some False \<and> d \<noteq> Some False)"
  by (cases x; cases d) (simp_all add: join_ledgers_def join_ledger_worker_def)

lemma join_ledgers_joined: "ty_joined (join_ledgers x d t) = ty_joined t"
  by (cases x; cases d) (simp_all add: join_ledgers_def join_ledger_worker_def)

definition all_joined :: "shutdown_ends \<Rightarrow> bool" where
  "all_joined e \<longleftrightarrow> list_all producer_ok (se_producers e) \<and> ss_failure (supervisor_outcome (se_supervisor e)) = None
     \<and> list_all ended (se_consumers e) \<and> se_exclusion e \<noteq> Some False \<and> se_delivery e \<noteq> Some False
     \<and> list_all ended (case se_operations e of None \<Rightarrow> [] | Some r \<Rightarrow> [r])"

lemmas tally_facts = join_producers join_consumers join_supervisor_ok join_supervisor_joined join_ledgers_ok
  join_ledgers_joined join_consumer_ok

lemma tally_ok: "(ty_failure (shutdown_tally e) = None) = all_joined e"
  by (cases "se_operations e") (simp_all add: shutdown_tally_def Let_def all_joined_def tally_facts conj_ac)

lemma tally_joined:
  "all_joined e \<Longrightarrow> ty_joined (shutdown_tally e)
     = length (se_producers e) + 1 + length (se_consumers e) + (if se_operations e = None then 0 else 1)"
  by (cases "se_operations e") (simp_all add: shutdown_tally_def Let_def all_joined_def tally_facts)

lemma nominal_bounds: "1000 \<le> nominal_retry_delay n \<and> nominal_retry_delay n \<le> 30000"
proof -
  have "min (n - 1) 5 \<in> {0, 1, 2, 3, 4, 5}" by auto
  then show ?thesis unfolding nominal_retry_delay_def by (elim insertE emptyE) simp_all
qed

lemma jitter_bound: "b * min j 20 div 100 \<le> b div (5::nat)"
proof -
  have "b * min j 20 div 100 \<le> b * 20 div 100" by (intro div_le_mono mult_le_mono2) simp
  also have "\<dots> = b div 5" by simp
  finally show ?thesis .
qed

lemma retry_delay_eq:
  "retry_delay n j = max RETRY_MIN (min RETRY_MAX (nominal_retry_delay n + nominal_retry_delay n * min j 20 div 100))"
proof -
  let ?b = "nominal_retry_delay n"
  have b: "?b \<le> 30000" using nominal_bounds by simp
  have "?b * min j 20 \<le> 30000 * 20" using b by (intro mult_le_mono) simp_all
  then have m: "min (?b * min j 20) (2 ^ 64 - 1) = ?b * min j 20" by simp
  have "?b + ?b * min j 20 div 100 \<le> 2 ^ 64 - 1" using b jitter_bound [of ?b j] by simp
  then have "min (?b + ?b * min j 20 div 100) (2 ^ 64 - 1) = ?b + ?b * min j 20 div 100" by (rule min_absorb1)
  moreover have "min ?b (2 ^ 64 - 1) = ?b" using b by simp
  ultimately show ?thesis using m by (simp only: retry_delay_def Let_def)
qed

section \<open>Properties\<close>

text \<open>
  C31: Shutdown reports success exactly when every producer, the supervisor, every consumer, both ledger
  workers and the summary task ended well in time, and then it has joined every task.  Either way the
  bridge is not ready afterwards, and only a success is counted as clean.
\<close>

theorem shutdown_clean_exact:
  "(\<exists>r. fst (shutdown e h) = Inr r) = all_joined e
   \<and> (\<forall>r. fst (shutdown e h) = Inr r \<longrightarrow> sr_stage r = StageComplete \<and> sr_joined_tasks r
        = length (se_producers e) + 1 + length (se_consumers e) + (if se_operations e = None then 0 else 1))
   \<and> \<not> is_ready (rh_status (snd (shutdown e h)))
   \<and> oc_shutdown_clean (rh_outcomes (snd (shutdown e h)))
       = oc_shutdown_clean (rh_outcomes h) + (if all_joined e then 1 else 0)"
  using tally_ok [of e] tally_joined [of e]
  by (auto simp: shutdown_def shutdown_report_of_def is_clean_def report_clean_def Let_def record_shutdown_def
      readiness_defs is_ready_def split: option.split shutdown_failure.split)

definition sample_ends :: shutdown_ends where
  "sample_ends = \<lparr>se_producers = [ProducerCancelled],
     se_supervisor = Ended (supervisor_stop None (Some True) None (Ended ()) (Ended ()) [StateChanged]),
     se_consumers = [Ended ()], se_exclusion = Some True, se_delivery = Some True, se_operations = None\<rparr>"

definition sample_handle :: runtime_handle where
  "sample_handle = \<lparr>rh_status = readiness_new [''s''], rh_trigger = None,
     rh_outcomes = \<lparr>oc_shutdown_clean = 0, oc_shutdown_failure = 0, oc_shutdown_timeout = 0,
       oc_shutdown_aborted_tasks = 0, oc_ledger_io_unjoined = 0\<rparr>\<rparr>"

theorem shutdown_clean_exact_witness:
  "\<exists>r. fst (shutdown sample_ends sample_handle) = Inr r \<and> sr_joined_tasks r = 3"
proof -
  have "all_joined sample_ends" by (simp add: all_joined_def sample_ends_def supervisor_stop_def)
  then obtain r where r: "fst (shutdown sample_ends sample_handle) = Inr r"
    using shutdown_clean_exact [of sample_ends sample_handle] by blast
  then have "sr_joined_tasks r = length (se_producers sample_ends) + 1 + length (se_consumers sample_ends)
      + (if se_operations sample_ends = None then 0 else 1)"
    using shutdown_clean_exact [of sample_ends sample_handle] by blast
  with r show ?thesis by (simp add: sample_ends_def)
qed

text \<open>
  The delay before a reconnect is between 1 and 30 seconds, at least the nominal delay and at most a
  fifth longer, for every attempt and jitter.
\<close>

lemma retry_delay_bounds:
  "RETRY_MIN \<le> retry_delay n j \<and> retry_delay n j \<le> RETRY_MAX \<and> nominal_retry_delay n \<le> retry_delay n j
   \<and> retry_delay n j \<le> nominal_retry_delay n + nominal_retry_delay n div 5"
  using nominal_bounds [of n] jitter_bound [of "nominal_retry_delay n" j]
  by (auto simp: retry_delay_eq RETRY_MIN_def RETRY_MAX_def)

end
