(* ===== verification/Node_Process.thy ===== *)
theory Node_Process
  imports Rpc_Service Node_Changes Bridge_Shutdown
begin

text \<open>
  The process around the node: the identity of its endpoint (\<open>src/src/identity.rs\<close>), the watcher that copies the
  state of a co-located agent into documents (\<open>watcher.rs\<close>), and the decisions of start-up and shutdown
  (\<open>main.rs\<close>).  HTTP, file reads and certificates are library calls, given by their results.
\<close>

section \<open>Identity\<close>

definition derive_iroh_secret_seed :: "crypto_lib \<Rightarrow> string \<Rightarrow> string \<Rightarrow> unit + bytes option" where
  "derive_iroh_secret_seed lib base64_shared_key node_id =
     (let trimmed = trim base64_shared_key
      in if trimmed = [] then Inr None
         else case b64_decode lib trimmed of
           None \<Rightarrow> Inl ()
         | Some secret \<Rightarrow> Inr (Some (derive_iroh_node_key lib secret node_id)))"

definition derive_endpoint_id :: "crypto_lib \<Rightarrow> (bytes \<Rightarrow> string) \<Rightarrow> string \<Rightarrow> string \<Rightarrow> unit + string" where
  "derive_endpoint_id lib public base64_shared_key node_id =
     (case derive_iroh_secret_seed lib base64_shared_key node_id of
        Inl e \<Rightarrow> Inl e
      | Inr None \<Rightarrow> Inl ()
      | Inr (Some seed) \<Rightarrow> Inr (public seed))"

section \<open>Client of the agent\<close>

record tls_config =
  tls_cert :: "string option"
  tls_key :: "string option"
  tls_ca_cert :: "string option"

datatype client_kind = PlainH2c | MutualTls bytes "bytes option"

text \<open>\<open>read\<close> is the content of a file, \<open>identity_ok\<close>, \<open>ca_ok\<close> and \<open>build_ok\<close> whether the library accepts what it is given.\<close>

definition build_client ::
  "(string \<Rightarrow> bytes option) \<Rightarrow> (bytes \<Rightarrow> bool) \<Rightarrow> (bytes \<Rightarrow> bool) \<Rightarrow> bool \<Rightarrow> tls_config \<Rightarrow> client_kind option" where
  "build_client read_file identity_ok ca_ok build_ok tls =
     Option.bind
       (case (tls_cert tls, tls_key tls, tls_ca_cert tls) of
          (None, None, None) \<Rightarrow> Some PlainH2c
        | (Some cert, Some key, ca_cert) \<Rightarrow>
            Option.bind (read_file cert) (\<lambda>c. Option.bind (read_file key) (\<lambda>k.
              if \<not> identity_ok (c @ k) then None
              else case ca_cert of
                None \<Rightarrow> Some (MutualTls (c @ k) None)
              | Some ca \<Rightarrow> Option.bind (read_file ca) (\<lambda>a. if ca_ok a then Some (MutualTls (c @ k) (Some a)) else None)))
        | _ \<Rightarrow> None)
       (\<lambda>kind. if build_ok then Some kind else None)"

section \<open>What the watcher writes\<close>

record agent_status =
  as_version :: "string option"
  as_architecture :: "string option"
  as_classification :: "string option"
  as_k8s_version :: "string option"
  as_k8s_node_status :: "string option"
  as_zarf_version :: "string option"
  as_run_mode :: "string option"

record 'n zarf_package =
  zp_name :: "string option"
  zp_version :: "string option"
  zp_status :: "32 word option"
  zp_flavor :: "string option"
  zp_namespace_override :: "string option"
  zp_annotations :: "(string \<times> 'n json) list"

record package_tag =
  tg_reference :: "string option"
  tg_arch :: "string option"
  tg_version :: "string option"
  tg_total_bytes :: "64 word option"
  tg_pull_status :: "32 word option"

record registry_package =
  rp_package_name :: "string option"
  rp_tags :: "package_tag list option"

record registry_info =
  ri_host :: "string option"
  ri_packages :: "registry_package list option"

abbreviation or_unknown :: "string option \<Rightarrow> string" where
  "or_unknown x \<equiv> (case x of Some s \<Rightarrow> s | None \<Rightarrow> ''unknown'')"

abbreviation or_empty :: "'a list option \<Rightarrow> 'a list" where
  "or_empty x \<equiv> (case x of Some xs \<Rightarrow> xs | None \<Rightarrow> [])"

definition write_opt :: "('a \<Rightarrow> 'n json) \<Rightarrow> 'a option \<Rightarrow> 'n json" where
  "write_opt f x = (case x of Some y \<Rightarrow> f y | None \<Rightarrow> JNull)"

definition status_document :: "('n, 'f) json_numbers \<Rightarrow> string \<Rightarrow> 64 word \<Rightarrow> agent_status \<Rightarrow> 'n json" where
  "status_document nums agent_id now st = JObject
     [(''agent_id'', JString agent_id), (''node_type'', JString ''uds-remote-agent''),
      (''version'', write_opt_str (as_version st)), (''architecture'', write_opt_str (as_architecture st)),
      (''classification'', write_opt_str (as_classification st)), (''k8s_version'', write_opt_str (as_k8s_version st)),
      (''k8s_node_status'', write_opt_str (as_k8s_node_status st)), (''zarf_version'', write_opt_str (as_zarf_version st)),
      (''run_mode'', write_opt_str (as_run_mode st)), (''last_seen'', write_i64 nums now)]"

definition package_document ::
  "('n, 'f) json_numbers \<Rightarrow> string \<Rightarrow> 64 word \<Rightarrow> 'n zarf_package \<Rightarrow> string \<times> 'n json" where
  "package_document nums agent_id now pkg =
     (agent_id @ '':'' @ or_unknown (zp_name pkg), JObject
     [(''agent_id'', JString agent_id), (''package'', JString (or_unknown (zp_name pkg))),
      (''version'', write_opt_str (zp_version pkg)), (''status'', write_opt (write_i32 nums) (zp_status pkg)),
      (''flavor'', write_opt_str (zp_flavor pkg)), (''namespace_override'', write_opt_str (zp_namespace_override pkg)),
      (''annotations'', JObject (zp_annotations pkg)), (''last_seen'', write_i64 nums now)])"

definition tag_document ::
  "('n, 'f) json_numbers \<Rightarrow> string \<Rightarrow> 64 word \<Rightarrow> registry_info \<Rightarrow> registry_package \<Rightarrow> package_tag \<Rightarrow> string \<times> 'n json" where
  "tag_document nums agent_id now reg pkg tag =
     (agent_id @ '':'' @ or_unknown (tg_reference tag) @ ''-'' @ or_unknown (tg_arch tag), JObject
     [(''agent_id'', JString agent_id), (''registry'', write_opt_str (ri_host reg)),
      (''package'', write_opt_str (rp_package_name pkg)), (''reference'', JString (or_unknown (tg_reference tag))),
      (''arch'', JString (or_unknown (tg_arch tag))), (''version'', write_opt_str (tg_version tag)),
      (''total_bytes'', write_opt (write_i64 nums) (tg_total_bytes tag)),
      (''pull_status'', write_i32 nums (case tg_pull_status tag of Some s \<Rightarrow> s | None \<Rightarrow> 0)),
      (''last_seen'', write_i64 nums now)])"

definition pulled_documents ::
  "('n, 'f) json_numbers \<Rightarrow> string \<Rightarrow> 64 word \<Rightarrow> registry_info list \<Rightarrow> (string \<times> 'n json) list" where
  "pulled_documents nums agent_id now regs =
     concat (map (\<lambda>r. concat (map (\<lambda>p. map (tag_document nums agent_id now r p) (or_empty (rp_tags p))) (or_empty (ri_packages r)))) regs)"

text \<open>The answer of the agent to one request: none, one with an error status, one that does not parse, or a body.\<close>

datatype 'a agent_reply = NoReply | ErrorStatus | BadBody | Reply 'a

text \<open>Documents are put one after the other, each with a nonce of its own; the first failure ends the poll.\<close>

fun put_documents ::
  "('n, 'd, 's) node_env \<Rightarrow> (nat \<Rightarrow> bytes) \<Rightarrow> string \<Rightarrow> (string \<times> 'n json) list \<Rightarrow> 's node \<Rightarrow> bool \<times> 's node" where
  "put_documents env nonces coll [] nd = (True, nd)"
| "put_documents env nonces coll ((i, v) # docs) nd =
     (case to_str (ne_serde env) v of
        None \<Rightarrow> (False, nd)
      | Some json \<Rightarrow>
          (case put_document env (nonces 0) coll i json nd of
             (Inl _, nd') \<Rightarrow> (False, nd')
           | (Inr _, nd') \<Rightarrow> put_documents env (\<lambda>k. nonces (Suc k)) coll docs nd'))"

definition poll ::
  "('n, 'd, 's) node_env \<Rightarrow> (nat \<Rightarrow> bytes) \<Rightarrow> string \<Rightarrow> ('a \<Rightarrow> (string \<times> 'n json) list) \<Rightarrow> 'a agent_reply \<Rightarrow> 's node \<Rightarrow> bool \<times> 's node" where
  "poll env nonces coll docs r nd = (case r of Reply a \<Rightarrow> put_documents env nonces coll (docs a) nd | _ \<Rightarrow> (False, nd))"

definition poll_status where
  "poll_status nums env nonces agent_id now r nd =
     poll env nonces ''nodes'' (\<lambda>st. [(agent_id, status_document nums agent_id now st)]) r nd"

definition poll_packages where
  "poll_packages nums env nonces agent_id now r nd =
     poll env nonces ''deployments'' (\<lambda>pkgs. map (package_document nums agent_id now) (or_empty pkgs)) r nd"

definition poll_pulled_packages where
  "poll_pulled_packages nums env nonces agent_id now r nd =
     poll env nonces ''packages'' (\<lambda>regs. pulled_documents nums agent_id now (or_empty regs)) r nd"

text \<open>One turn of the loop: a poll that fails is logged, and the next one runs all the same.\<close>

definition watcher_turn where
  "watcher_turn nums env nonces1 nonces2 nonces3 agent_id now status packages pulled nd =
     snd (poll_pulled_packages nums env nonces3 agent_id now pulled
       (snd (poll_packages nums env nonces2 agent_id now packages
         (snd (poll_status nums env nonces1 agent_id now status nd)))))"

section \<open>Start-up\<close>

definition empty_prefixed_env_keys :: "(string \<times> string) list \<Rightarrow> string \<Rightarrow> string list" where
  "empty_prefixed_env_keys vars pre = map fst (filter (\<lambda>(k, v). starts_with k pre \<and> v = []) vars)"

text \<open>The arguments that start-up decides on; the others are the field of type \<open>'r\<close>.\<close>

record 'r args =
  ar_shared_key :: string
  ar_encryption_key :: "string option"
  ar_nats_url :: "string option"
  ar_nats_mapping :: "string list"
  ar_node_id :: "string option"
  ar_rpc_default_timeout_secs :: u64
  ar_rpc_max_timeout_secs :: u64
  ar_enable_kubernetes_discovery :: bool
  ar_peer :: "string list"
  ar_rest :: 'r

definition redacted_resolved_args :: "'r args \<Rightarrow> bridge_config \<Rightarrow> 'r args" where
  "redacted_resolved_args a cfg =
     a\<lparr>ar_shared_key := ''<redacted>'',
       ar_encryption_key := map_option (\<lambda>_. ''<redacted>'') (ar_encryption_key a),
       ar_nats_url := (case cfg of Enabled c \<Rightarrow> Some (display_endpoint (ec_endpoint c)) | Disabled \<Rightarrow> None)\<rparr>"

datatype startup_error = TimeoutOrder | BridgeIssues "config_issue list" | BadSharedKey

record startup =
  su_bridge :: bridge_config
  su_node_id :: string
  su_seed :: "bytes option"
  su_random_id_warning :: bool

text \<open>What is rejected before the node is built.\<close>

definition startup_checks :: "crypto_lib \<Rightarrow> nats_env \<Rightarrow> string \<Rightarrow> 'r args \<Rightarrow> startup_error + startup" where
  "startup_checks lib env uuid a =
     (if ar_rpc_default_timeout_secs a > ar_rpc_max_timeout_secs a then Inl TimeoutOrder
      else case from_raw env (ar_nats_url a) (ar_nats_mapping a) of
        Inl issues \<Rightarrow> Inl (BridgeIssues issues)
      | Inr cfg \<Rightarrow>
          let node_id = (case ar_node_id a of Some i \<Rightarrow> i | None \<Rightarrow> uuid)
          in case validate_node_identity env cfg node_id of
               Inl issues \<Rightarrow> Inl (BridgeIssues issues)
             | Inr _ \<Rightarrow>
                 (case derive_iroh_secret_seed lib (ar_shared_key a) node_id of
                    Inl _ \<Rightarrow> Inl BadSharedKey
                  | Inr seed \<Rightarrow>
                      Inr \<lparr>su_bridge = cfg, su_node_id = node_id, su_seed = seed,
                        su_random_id_warning = (seed \<noteq> None \<and> ar_node_id a = None \<and> \<not> ar_enable_kubernetes_discovery a)\<rparr>))"

definition start_bridge_runtime_with :: "(enabled_config \<Rightarrow> 'e + 't) \<Rightarrow> bridge_config \<Rightarrow> 'e + 't option" where
  "start_bridge_runtime_with spawn cfg =
     (case cfg of
        Disabled \<Rightarrow> Inr None
      | Enabled c \<Rightarrow> (case spawn c of Inl e \<Rightarrow> Inl e | Inr h \<Rightarrow> Inr (Some h)))"

text \<open>The peers dialled at start: an entry without \<open>@\<close> is reported and skipped, an empty one skipped.\<close>

definition startup_peers :: "string list \<Rightarrow> (string \<times> string) list" where
  "startup_peers specs = List.map_filter (\<lambda>s. if s = [] then None else split_once (CHR ''@'') s) specs"

section \<open>Shutdown\<close>

definition shutdown_bridge :: "shutdown_ends \<Rightarrow> runtime_handle option \<Rightarrow> bool \<times> runtime_handle option" where
  "shutdown_bridge ends bridge =
     (case bridge of
        None \<Rightarrow> (True, None)
      | Some h \<Rightarrow> (case shutdown ends h of (r, h') \<Rightarrow> (\<not> isl r, Some h')))"

datatype server_end = ServerReturned | ServerFailed | ServerTimedOut

definition serve_result :: "server_end \<Rightarrow> bool" where
  "serve_result e \<longleftrightarrow> e = ServerReturned"

datatype main_error = ServerShutdownFailed | BridgeShutdownFailed | NodeCleanupFailed | MultipleStagesFailed

definition main_result :: "bool \<Rightarrow> bool \<Rightarrow> bool \<Rightarrow> main_error + unit" where
  "main_result serve_ok bridge_ok node_ok =
     (case (serve_ok, bridge_ok, node_ok) of
        (True, True, True) \<Rightarrow> Inr ()
      | (False, True, True) \<Rightarrow> Inl ServerShutdownFailed
      | (True, False, True) \<Rightarrow> Inl BridgeShutdownFailed
      | (True, True, False) \<Rightarrow> Inl NodeCleanupFailed
      | _ \<Rightarrow> Inl MultipleStagesFailed)"

text \<open>After the stop signal on TCP: the bridge, the server and the node, each whatever became of the others.\<close>

definition tcp_shutdown ::
  "shutdown_ends \<Rightarrow> server_end \<Rightarrow> bool \<Rightarrow> runtime_handle option \<Rightarrow> (main_error + unit) \<times> runtime_handle option" where
  "tcp_shutdown ends server node_ok bridge =
     (case shutdown_bridge ends bridge of
        (bridge_ok, bridge') \<Rightarrow> (main_result (serve_result server) bridge_ok node_ok, bridge'))"

text \<open>On a Unix socket: the listener may have failed, and the connections are joined within a deadline.\<close>

definition unix_shutdown ::
  "shutdown_ends \<Rightarrow> bool \<Rightarrow> bool \<Rightarrow> bool \<Rightarrow> runtime_handle option \<Rightarrow> (main_error + unit) \<times> runtime_handle option" where
  "unix_shutdown ends listener_ok connections_joined node_ok bridge =
     (case shutdown_bridge ends bridge of
        (bridge_ok, bridge') \<Rightarrow> (main_result (listener_ok \<and> connections_joined) bridge_ok node_ok, bridge'))"

section \<open>Identities agree\<close>

text \<open>The identifier computed offline is the one a node with these settings starts with.\<close>

lemma offline_identity_matches:
  assumes "startup_checks lib env uuid a = Inr su" and "su_seed su = Some seed"
  shows "derive_endpoint_id lib public (ar_shared_key a) (su_node_id su) = Inr (public seed)"
  using assms
  by (auto simp: startup_checks_def derive_endpoint_id_def Let_def split: if_splits sum.splits)

text \<open>
  The static and the Kubernetes derivation agree on a shared key without white space around it.  With
  white space only the static one trims it, so one derives an identity where the other has none.
\<close>

lemma static_k8s_agree:
  assumes "trim sk = sk" and "sk \<noteq> []" and "name \<noteq> []"
  shows "derive_iroh_secret_seed lib sk name = Inr (Some seed) \<longleftrightarrow> resolve_k8s_identity lib (Some name) sk = DerivedIdentity seed"
  using assms by (auto simp: derive_iroh_secret_seed_def resolve_k8s_identity_def Let_def split: option.splits)

lemma static_k8s_drift:
  assumes "sk \<noteq> []" and "trim sk \<noteq> []" and "name \<noteq> []" and "b64_decode lib sk = None" and "b64_decode lib (trim sk) = Some key"
  shows "derive_iroh_secret_seed lib sk name = Inr (Some (derive_iroh_node_key lib key name))"
    and "resolve_k8s_identity lib (Some name) sk = InvalidSharedKey"
  using assms by (simp_all add: derive_iroh_secret_seed_def resolve_k8s_identity_def Let_def)

text \<open>Nothing checks the length of the shared secret.\<close>

lemma short_secret_accepted:
  "trim sk \<noteq> [] \<Longrightarrow> b64_decode lib (trim sk) = Some [x] \<Longrightarrow>
    derive_iroh_secret_seed lib sk name = Inr (Some (derive_iroh_node_key lib [x] name))"
  by (simp add: derive_iroh_secret_seed_def Let_def)

section \<open>Secrets\<close>

text \<open>
  The printed configuration does not depend on the secrets: arguments that differ in the shared key,
  in the value of the encryption key and in a NATS URL with the same sanitized endpoint print alike.
\<close>

lemma redaction_hides_secrets:
  assumes "ec_endpoint c = ec_endpoint c'" and "(ek = None) = (ek' = None)"
  shows "redacted_resolved_args (a\<lparr>ar_shared_key := k, ar_encryption_key := ek, ar_nats_url := u\<rparr>) (Enabled c)
    = redacted_resolved_args (a\<lparr>ar_shared_key := k', ar_encryption_key := ek', ar_nats_url := u'\<rparr>) (Enabled c')"
  using assms by (cases ek; cases ek') (simp_all add: redacted_resolved_args_def)

text \<open>The watcher talks without TLS only if no TLS setting is given at all.\<close>

lemma plain_only_without_settings:
  "build_client read_file identity_ok ca_ok build_ok tls = Some PlainH2c \<Longrightarrow>
    tls_cert tls = None \<and> tls_key tls = None \<and> tls_ca_cert tls = None"
  by (auto simp: build_client_def bind_eq_Some_conv split: option.splits if_splits)

section \<open>The watcher and the typed nodes\<close>

text \<open>The status document is read as a typed node: its type is the agent's, everything else is a default.\<close>

lemma agent_read_as_node:
  assumes "text_of sd t (status_document nums agent_id now st)"
  shows "map_to_node nums sd agent_id t = Some
    \<lparr>kn_id = agent_id, kn_node_type = ''uds-remote-agent'', kn_name = [], kn_status = 0, kn_latitude = float_zero nums,
     kn_longitude = float_zero nums, kn_altitude_m = float_zero nums, kn_readiness = float_zero nums,
     kn_capabilities = [], kn_unit_id = None, kn_callsign = None\<rparr>"
proof -
  obtain w where "from_str sd t = Some w" and "same_fields w (status_document nums agent_id now st)"
    using assms by (auto simp: text_of_def)
  then show ?thesis
    by (simp add: map_to_node_def same_fields_jfield status_document_def jfield_object read_str_def read_i64_def
        read_f64_def read_opt_f64_def read_strs_def)
qed

text \<open>An agent that is silent leaves the store as it was.\<close>

lemma silent_agent:
  "watcher_turn nums env n1 n2 n3 agent_id now NoReply NoReply NoReply nd = nd"
  by (simp add: watcher_turn_def poll_status_def poll_packages_def poll_pulled_packages_def poll_def)

section \<open>Exit\<close>

text \<open>The process exits cleanly exactly when the server returned, the node was cleaned up and the bridge, if any, shut down cleanly.\<close>

lemma tcp_shutdown_clean:
  "fst (tcp_shutdown ends server node_ok bridge) = Inr () \<longleftrightarrow>
    server = ServerReturned \<and> node_ok \<and> (bridge = None \<or> is_clean (shutdown_report_of (shutdown_tally ends)))"
  by (cases bridge)
    (auto simp: tcp_shutdown_def shutdown_bridge_def shutdown_def Let_def main_result_def serve_result_def split: bool.splits)

end
