(* ===== verification/Attachment_Ingest.thy ===== *)
theory Attachment_Ingest
  imports Attachment_Validate
begin

text \<open>
  Ingesting a bundle (\<open>src/src/attachments/ingest.rs\<close>): every file into the blob store, a distribution
  per file, and rollback on failure.  The blob store, the distribution service and opening files are
  parameters; \<open>content_addressed\<close> is what the code relies on of the store.
\<close>

section \<open>Interfaces\<close>

record blob_token =
  tk_hash :: string
  tk_size_bytes :: u64

record blob_metadata =
  bm_name :: "string option"
  bm_content_type :: "string option"

datatype transfer_priority = TransferCritical | TransferHigh | TransferNormal | TransferLow

text \<open>\<open>be_create\<close> is given the content of the stream, which it reads to its end, and the expected size.\<close>

record 's blob_env =
  be_open :: "string \<Rightarrow> bytes option"
  be_sha256 :: "bytes \<Rightarrow> bytes"
  be_list :: "'s \<Rightarrow> string list"
  be_create :: "bytes \<Rightarrow> u64 option \<Rightarrow> blob_metadata \<Rightarrow> 's \<Rightarrow> blob_token option \<times> 's"
  be_delete :: "string \<Rightarrow> 's \<Rightarrow> bool \<times> 's"
  be_distribute :: "blob_token \<Rightarrow> validated_scope \<Rightarrow> transfer_priority \<Rightarrow> 's \<Rightarrow> string option \<times> 's"

text \<open>Creating adds the hash of the content, deleting removes at most the hash named, distributing removes nothing.\<close>

definition content_addressed :: "'s blob_env \<Rightarrow> bool" where
  "content_addressed env \<longleftrightarrow>
     (\<forall>c n m s tok s'. be_create env c n m s = (Some tok, s') \<longrightarrow> set (be_list env s') = insert (tk_hash tok) (set (be_list env s)))
   \<and> (\<forall>c n m s s'. be_create env c n m s = (None, s') \<longrightarrow> set (be_list env s') = set (be_list env s))
   \<and> (\<forall>h s s'. be_delete env h s = (True, s') \<longrightarrow> set (be_list env s') = set (be_list env s) - {h})
   \<and> (\<forall>h s s'. be_delete env h s = (False, s') \<longrightarrow> set (be_list env s') = set (be_list env s))
   \<and> (\<forall>t c p s. set (be_list env (snd (be_distribute env t c p s))) = set (be_list env s))"

section \<open>Ingest\<close>

datatype ingest_error = OpenFailed nat | BlobFailed nat | HashMismatch nat | DistributeFailed nat

record ingested_blob =
  ib_file_index :: nat
  ib_blob_token :: blob_token
  ib_distribution_id :: string

definition build_blob_metadata :: "validated_file \<Rightarrow> blob_metadata" where
  "build_blob_metadata v =
     \<lparr>bm_name = (case vf_display_name v of Some n \<Rightarrow> Some n | None \<Rightarrow> Some (vf_relative_path v)),
      bm_content_type = vf_content_type v\<rparr>"

definition ingest_file :: "'s blob_env \<Rightarrow> validated_file \<Rightarrow> 's \<Rightarrow> (ingest_error + blob_token) \<times> 's" where
  "ingest_file env v s =
     (case be_open env (vf_absolute_path v) of
        None \<Rightarrow> (Inl (OpenFailed (vf_file_index v)), s)
      | Some content \<Rightarrow>
          (case be_create env content (Some (vf_size_bytes v)) (build_blob_metadata v) s of
             (None, s') \<Rightarrow> (Inl (BlobFailed (vf_file_index v)), s')
           | (Some tok, s') \<Rightarrow>
               if be_sha256 env content \<noteq> vf_sha256 v
               then (Inl (HashMismatch (vf_file_index v)), snd (be_delete env (tk_hash tok) s'))
               else (Inr tok, s')))"

fun rollback :: "'s blob_env \<Rightarrow> blob_token list \<Rightarrow> string list \<Rightarrow> 's \<Rightarrow> 's" where
  "rollback env [] pre s = s"
| "rollback env (tok # toks) pre s =
     rollback env toks pre (if tk_hash tok \<in> set pre then s else snd (be_delete env (tk_hash tok) s))"

text \<open>The first phase: the tokens so far, in order, are rolled back when a file fails.\<close>

fun ingest_files ::
  "'s blob_env \<Rightarrow> string list \<Rightarrow> validated_file list \<Rightarrow> blob_token list \<Rightarrow> 's \<Rightarrow> (ingest_error + blob_token list) \<times> 's" where
  "ingest_files env pre [] created s = (Inr created, s)"
| "ingest_files env pre (v # vs) created s =
     (case ingest_file env v s of
        (Inl e, s') \<Rightarrow> (Inl e, rollback env created pre s')
      | (Inr tok, s') \<Rightarrow> ingest_files env pre vs (created @ [tok]) s')"

fun distribute_files ::
  "'s blob_env \<Rightarrow> string list \<Rightarrow> blob_token list \<Rightarrow> validated_scope \<Rightarrow> transfer_priority
    \<Rightarrow> (validated_file \<times> blob_token) list \<Rightarrow> ingested_blob list \<Rightarrow> 's \<Rightarrow> (ingest_error + ingested_blob list) \<times> 's" where
  "distribute_files env pre created scope prio [] handles s = (Inr handles, s)"
| "distribute_files env pre created scope prio ((v, tok) # vs) handles s =
     (case be_distribute env tok scope prio s of
        (None, s') \<Rightarrow> (Inl (DistributeFailed (vf_file_index v)), rollback env created pre s')
      | (Some d, s') \<Rightarrow>
          distribute_files env pre created scope prio vs
            (handles @ [\<lparr>ib_file_index = vf_file_index v, ib_blob_token = tok, ib_distribution_id = d\<rparr>]) s')"

definition ingest_bundle ::
  "'s blob_env \<Rightarrow> validated_bundle \<Rightarrow> transfer_priority \<Rightarrow> 's \<Rightarrow> (ingest_error + ingested_blob list) \<times> 's" where
  "ingest_bundle env b prio s =
     (let pre = be_list env s
      in case ingest_files env pre (vb_files b) [] s of
           (Inl e, s') \<Rightarrow> (Inl e, s')
         | (Inr created, s') \<Rightarrow>
             distribute_files env pre created (vb_scope b) prio (zip (vb_files b) created) [] s')"

section \<open>Lemmas\<close>

lemma delete_keeps:
  "content_addressed env \<Longrightarrow> set (be_list env s) - {h} \<subseteq> set (be_list env (snd (be_delete env h s)))"
  by (cases "be_delete env h s"; cases "fst (be_delete env h s)") (auto simp: content_addressed_def)

lemma create_keeps:
  "content_addressed env \<Longrightarrow> set (be_list env s) \<subseteq> set (be_list env (snd (be_create env c n m s)))"
  by (cases "be_create env c n m s"; cases "fst (be_create env c n m s)") (auto simp: content_addressed_def)

lemma rollback_keeps:
  assumes ca: "content_addressed env"
  shows "set pre \<inter> set (be_list env s) \<subseteq> set (be_list env (rollback env toks pre s))"
proof (induction toks arbitrary: s)
  case (Cons tok toks)
  let ?s = "if tk_hash tok \<in> set pre then s else snd (be_delete env (tk_hash tok) s)"
  have "set pre \<inter> set (be_list env s) \<subseteq> set pre \<inter> set (be_list env ?s)"
    using delete_keeps [OF ca, of s "tk_hash tok"] by auto
  with Cons.IH [of ?s] show ?case by auto
qed simp

lemma ingest_file_keeps:
  assumes ca: "content_addressed env" and run: "ingest_file env v s = (r, s')"
    and good: "r \<noteq> Inl (HashMismatch (vf_file_index v))"
  shows "set (be_list env s) \<subseteq> set (be_list env s')"
proof (cases "be_open env (vf_absolute_path v)")
  case None
  then show ?thesis using run by (simp add: ingest_file_def)
next
  case (Some c)
  then show ?thesis
    using run good create_keeps [OF ca, of s c "Some (vf_size_bytes v)" "build_blob_metadata v"]
    by (auto simp: ingest_file_def split: prod.splits option.splits if_splits)
qed

lemma ingest_files_keep:
  assumes ca: "content_addressed env" and "ingest_files env pre vs created s = (r, s')" "\<forall>i. r \<noteq> Inl (HashMismatch i)"
  shows "set pre \<inter> set (be_list env s) \<subseteq> set (be_list env s')"
  using assms(2,3)
proof (induction vs arbitrary: created s)
  case (Cons v vs)
  obtain q t where one: "ingest_file env v s = (q, t)" by fastforce
  show ?case
  proof (cases q)
    case (Inl e)
    then have "set (be_list env s) \<subseteq> set (be_list env t)"
      using ingest_file_keeps [OF ca one] Cons.prems one by auto
    then show ?thesis using Inl one Cons.prems(1) rollback_keeps [OF ca, of pre t created] by auto
  next
    case (Inr tok)
    then have "set (be_list env s) \<subseteq> set (be_list env t)" using ingest_file_keeps [OF ca one] by simp
    moreover have "set pre \<inter> set (be_list env t) \<subseteq> set (be_list env s')"
      using Inr one Cons.prems by (intro Cons.IH [of "created @ [tok]" t]) auto
    ultimately show ?thesis by blast
  qed
qed simp

lemma distribute_files_keep:
  assumes ca: "content_addressed env" and "distribute_files env pre created scope prio vs handles s = (r, s')"
  shows "set pre \<inter> set (be_list env s) \<subseteq> set (be_list env s')"
  using assms(2)
proof (induction vs arbitrary: handles s)
  case (Cons w vs)
  obtain v tok where w: "w = (v, tok)" by fastforce
  obtain d t where one: "be_distribute env tok scope prio s = (d, t)" by fastforce
  then have same: "set (be_list env t) = set (be_list env s)"
    using ca unfolding content_addressed_def by (metis snd_conv)
  show ?case
  proof (cases d)
    case None
    then show ?thesis using one w Cons.prems rollback_keeps [OF ca, of pre t created] same by auto
  next
    case (Some i)
    then show ?thesis using one w Cons.prems Cons.IH [of _ t] same by auto
  qed
qed simp

lemma distribute_files_handles:
  "distribute_files env pre created scope prio vs handles s = (Inr hs, s') \<Longrightarrow>
     map ib_file_index hs = map ib_file_index handles @ map (vf_file_index \<circ> fst) vs
     \<and> map ib_blob_token hs = map ib_blob_token handles @ map snd vs"
proof (induction vs arbitrary: handles s)
  case (Cons w vs)
  obtain v tok where "w = (v, tok)" by fastforce
  with Cons.prems Cons.IH show ?case by (fastforce split: prod.splits option.splits)
qed simp

lemma ingest_files_length: "ingest_files env pre vs created s = (Inr toks, s') \<Longrightarrow> length toks = length created + length vs"
  by (induction vs arbitrary: created s) (fastforce split: prod.splits sum.splits)+

section \<open>Properties\<close>

text \<open>
  C15: A bundle that is ingested, or fails for any reason but a hash mismatch, leaves every blob in the
  store that was there before; and a success has one handle per file, in order.
\<close>

theorem ingest_keeps_existing:
  assumes "content_addressed env" "ingest_bundle env b prio s = (r, s')" "\<forall>i. r \<noteq> Inl (HashMismatch i)"
  shows "set (be_list env s) \<subseteq> set (be_list env s')
    \<and> (\<forall>hs. r = Inr hs \<longrightarrow> map ib_file_index hs = map vf_file_index (vb_files b))"
proof -
  obtain q t where files: "ingest_files env (be_list env s) (vb_files b) [] s = (q, t)" by fastforce
  show ?thesis
  proof (cases q)
    case (Inl e)
    then show ?thesis
      using files assms(2,3) ingest_files_keep [OF assms(1) files] by (auto simp: ingest_bundle_def)
  next
    case (Inr created)
    have rest: "distribute_files env (be_list env s) created (vb_scope b) prio (zip (vb_files b) created) [] t = (r, s')"
      using Inr files assms(2) by (simp add: ingest_bundle_def)
    have len: "length created = length (vb_files b)" using ingest_files_length files Inr by fastforce
    have "set (be_list env s) \<subseteq> set (be_list env t)" using ingest_files_keep [OF assms(1) files] Inr by simp
    then have "set (be_list env s) \<subseteq> set (be_list env s')"
      using distribute_files_keep [OF assms(1) rest] by blast
    moreover have "map ib_file_index hs = map vf_file_index (vb_files b)" if "r = Inr hs" for hs
      using distribute_files_handles [of env _ created _ _ _ "[]" t hs s'] rest that len
      by (metis append_Nil list.simps(8) map_fst_zip map_map)
    ultimately show ?thesis by blast
  qed
qed

text \<open>
  C39: A hash mismatch deletes the blob even if it was in the store before the request: a request that
  declares the wrong digest for content another distribution is serving takes that content away.
\<close>

theorem mismatch_deletes_existing:
  assumes "content_addressed env" "vb_files b = [v]" "be_open env (vf_absolute_path v) = Some c"
    and "be_create env c (Some (vf_size_bytes v)) (build_blob_metadata v) s = (Some tok, s1)" "tk_hash tok \<in> set (be_list env s)"
    and "be_sha256 env c \<noteq> vf_sha256 v" "be_delete env (tk_hash tok) s1 = (True, s2)"
  shows "ingest_bundle env b prio s = (Inl (HashMismatch (vf_file_index v)), s2)
    \<and> tk_hash tok \<in> set (be_list env s) \<and> tk_hash tok \<notin> set (be_list env s2)"
proof -
  have "set (be_list env s2) = set (be_list env s1) - {tk_hash tok}"
    using assms(1,7) unfolding content_addressed_def by blast
  then show ?thesis using assms by (simp add: ingest_bundle_def ingest_file_def)
qed

text \<open>A store that keeps contents in a list; the content is its own hash.\<close>

definition list_store :: "(string list) blob_env" where
  "list_store = \<lparr>be_open = (\<lambda>p. if p = ''/o/f'' then Some [1, 2, 3] else None), be_sha256 = (\<lambda>_. replicate 32 0),
     be_list = id, be_create = (\<lambda>c n m s. (Some \<lparr>tk_hash = of_bytes c, tk_size_bytes = word_of_nat (length c)\<rparr>, List.insert (of_bytes c) s)),
     be_delete = (\<lambda>h s. (True, removeAll h s)), be_distribute = (\<lambda>t c p s. (Some (''d-'' @ tk_hash t), s))\<rparr>"

lemma list_store_ca: "content_addressed list_store"
  by (auto simp: content_addressed_def list_store_def)

theorem ingest_keeps_existing_witness:
  "\<exists>r s'. ingest_bundle list_store sample_bundle TransferNormal [''k''] = (r, s') \<and> ''k'' \<in> set s'"
proof -
  let ?r = "ingest_bundle list_store sample_bundle TransferNormal [''k'']"
  have "fst ?r \<noteq> Inl (HashMismatch i)" for i
    by (simp add: ingest_bundle_def ingest_file_def list_store_def sample_bundle_def)
  then have "set (be_list list_store [''k'']) \<subseteq> set (be_list list_store (snd ?r))"
    using ingest_keeps_existing [OF list_store_ca, of sample_bundle TransferNormal "[''k'']" "fst ?r" "snd ?r"] by simp
  then show ?thesis by (intro exI [of _ "fst ?r"] exI [of _ "snd ?r"]) (simp add: list_store_def)
qed

definition wrong_bundle :: validated_bundle where
  "wrong_bundle = sample_bundle\<lparr>vb_files := [(hd (vb_files sample_bundle))\<lparr>vf_sha256 := replicate 32 1\<rparr>]\<rparr>"

theorem mismatch_deletes_existing_witness:
  "\<exists>h s2. ingest_bundle list_store wrong_bundle TransferNormal [h] = (Inl (HashMismatch 0), s2) \<and> h \<notin> set s2"
proof -
  let ?v = "hd (vb_files wrong_bundle)" and ?h = "of_bytes [1, 2, 3]"
  have v: "vb_files wrong_bundle = [?v]" "vf_file_index ?v = 0" "be_open list_store (vf_absolute_path ?v) = Some [1, 2, 3]"
    by (simp_all add: wrong_bundle_def sample_bundle_def list_store_def)
  have c: "be_create list_store [1, 2, 3] (Some (vf_size_bytes ?v)) (build_blob_metadata ?v) [?h] = (Some \<lparr>tk_hash = ?h, tk_size_bytes = 3\<rparr>, [?h])"
    by (simp add: list_store_def)
  have sha: "be_sha256 list_store [1, 2, 3] \<noteq> vf_sha256 ?v"
    by (simp add: list_store_def wrong_bundle_def replicate_eq_replicate)
  have d: "be_delete list_store (tk_hash \<lparr>tk_hash = ?h, tk_size_bytes = 3\<rparr>) [?h] = (True, [])" by (simp add: list_store_def)
  have "tk_hash \<lparr>tk_hash = ?h, tk_size_bytes = 3\<rparr> \<in> set (be_list list_store [?h])" by (simp add: list_store_def)
  from mismatch_deletes_existing [OF list_store_ca v(1,3) c this sha d, of TransferNormal] v(2)
  show ?thesis by (intro exI [of _ ?h] exI [of _ "[]"]) simp
qed

end
