(* ===== verification/Cli_Commands.thy ===== *)
theory Cli_Commands
  imports Json Attachment_Ingest
begin

text \<open>
  What the command line program (\<open>src/crates/peat-cli/src/\<close>) decides by itself: exit codes, the grammars of its
  arguments, where it finds credentials, and the documents that \<open>create\<close> and \<open>update\<close> write.  The schema
  registry, the parsing of floating-point numbers and of endpoint identifiers are parameters.
\<close>

section \<open>Errors and numbers\<close>

datatype cli_error = Generic | AuthError | PermissionDenied | Malformed | NotImplemented | Interrupted | BrokenPipe

fun exit_code :: "cli_error \<Rightarrow> 8 word" where
  "exit_code Generic = 1"
| "exit_code NotImplemented = 1"
| "exit_code AuthError = 2"
| "exit_code PermissionDenied = 3"
| "exit_code Malformed = 4"
| "exit_code Interrupted = 130"
| "exit_code BrokenPipe = 0"

text \<open>\<open>str::parse\<close> of a number: an optional sign, then digits.\<close>

definition parse_u64 :: "string \<Rightarrow> u64 option" where
  "parse_u64 s =
     (case parse_digits (if starts_with s ''+'' then tl s else s) of
        Some n \<Rightarrow> if n < 2 ^ 64 then Some (word_of_nat n) else None
      | None \<Rightarrow> None)"

definition parse_i64 :: "string \<Rightarrow> int option" where
  "parse_i64 s =
     (let neg = starts_with s ''-''
      in case parse_digits (if neg \<or> starts_with s ''+'' then tl s else s) of
           Some n \<Rightarrow>
             let i = (if neg then - int n else int n) in if - (2 ^ 63) \<le> i \<and> i < 2 ^ 63 then Some i else None
         | None \<Rightarrow> None)"

section \<open>Arguments\<close>

definition strip_suffix :: "string \<Rightarrow> string \<Rightarrow> string option" where
  "strip_suffix s p = (if suffix p s then Some (take (length s - length p) s) else None)"

text \<open>Milliseconds; minutes are multiplied at 64 bits, which wraps in a release build.\<close>

definition parse_timeout :: "string \<Rightarrow> cli_error + nat" where
  "parse_timeout s =
     (let result = (\<lambda>to_ms num. case parse_u64 num of Some n \<Rightarrow> Inr (to_ms n) | None \<Rightarrow> Inl Malformed)
      in case strip_suffix s ''ms'' of
           Some num \<Rightarrow> result unat num
         | None \<Rightarrow>
             (case strip_suffix s ''s'' of
                Some num \<Rightarrow> result (\<lambda>n. unat n * 1000) num
              | None \<Rightarrow>
                  (case strip_suffix s ''m'' of
                     Some num \<Rightarrow> result (\<lambda>n. unat (n * 60) * 1000) num
                   | None \<Rightarrow> Inl Malformed)))"

definition parse_target :: "string \<Rightarrow> cli_error + string \<times> string option" where
  "parse_target s =
     (if s = [] then Inl Malformed
      else case split_once (CHR ''/'') s of
        Some (c, d) \<Rightarrow> if d = [] \<or> c = [] \<or> CHR ''/'' \<in> set d then Inl Malformed else Inr (c, Some d)
      | None \<Rightarrow> Inr (s, None))"

fun split_on :: "char \<Rightarrow> string \<Rightarrow> string list" where
  "split_on sep [] = [[]]"
| "split_on sep (c # s) =
     (if c = sep then [] # split_on sep s
      else case split_on sep s of [] \<Rightarrow> [[c]] | p # ps \<Rightarrow> (c # p) # ps)"

datatype cli_scope = ScopeAll | ScopeNodes "string list" | ScopeFormation string

definition parse_scope :: "string \<Rightarrow> cli_error + cli_scope" where
  "parse_scope s =
     (if s = ''all'' then Inr ScopeAll
      else case strip_prefix s ''nodes:'' of
        Some rest \<Rightarrow>
          let ids = filter (\<lambda>i. i \<noteq> []) (split_on (CHR '','') rest)
          in if ids = [] then Inl Malformed else Inr (ScopeNodes ids)
      | None \<Rightarrow>
          (case strip_prefix s ''formation:'' of
             Some i \<Rightarrow> if i = [] then Inl Malformed else Inr (ScopeFormation i)
           | None \<Rightarrow> Inl Malformed))"

definition parse_priority :: "string \<Rightarrow> cli_error + transfer_priority" where
  "parse_priority s =
     (if s = ''critical'' then Inr TransferCritical else if s = ''high'' then Inr TransferHigh
      else if s = ''normal'' then Inr TransferNormal else if s = ''low'' then Inr TransferLow else Inl Malformed)"

definition parse_peer_spec :: "(string \<Rightarrow> 'i option) \<Rightarrow> string \<Rightarrow> cli_error + 'i \<times> string" where
  "parse_peer_spec parse_id spec =
     (case split_once (CHR ''@'') spec of
        None \<Rightarrow> Inl Malformed
      | Some (i, addr) \<Rightarrow> (case parse_id i of None \<Rightarrow> Inl Malformed | Some p \<Rightarrow> Inr (p, addr)))"

section \<open>Credentials\<close>

definition resolve_path_with ::
  "(string \<Rightarrow> bool) \<Rightarrow> string option \<Rightarrow> string option \<Rightarrow> string list \<Rightarrow> cli_error + string" where
  "resolve_path_with exists_on_disk explicit env candidates =
     (case explicit of
        Some p \<Rightarrow> Inr p
      | None \<Rightarrow>
          if env \<noteq> None \<and> env \<noteq> Some [] then Inr (the env)
          else case candidates of
            [] \<Rightarrow> Inl AuthError
          | first # _ \<Rightarrow> (case find exists_on_disk candidates of Some c \<Rightarrow> Inr c | None \<Rightarrow> Inr first))"

definition expand_data_dir :: "string option \<Rightarrow> string \<Rightarrow> cli_error + string" where
  "expand_data_dir home raw =
     (case strip_prefix raw ''~/'' of
        Some rest \<Rightarrow> (case home of None \<Rightarrow> Inl AuthError | Some h \<Rightarrow> Inr (path_join h rest))
      | None \<Rightarrow> Inr raw)"

section \<open>Documents\<close>

text \<open>Numbers belong to the JSON library; a float that is not finite has none.\<close>

record 'n numbers =
  of_i64 :: "int \<Rightarrow> 'n"
  of_float_text :: "string \<Rightarrow> 'n option"

definition coerce_value :: "'n numbers \<Rightarrow> string \<Rightarrow> 'n json" where
  "coerce_value nums raw =
     (if raw = ''null'' then JNull else if raw = ''true'' then JBool True else if raw = ''false'' then JBool False
      else case parse_i64 raw of
        Some n \<Rightarrow> JNumber (of_i64 nums n)
      | None \<Rightarrow> (case of_float_text nums raw of Some x \<Rightarrow> JNumber x | None \<Rightarrow> JString raw))"

fun json_entries :: "'n json \<Rightarrow> (string \<times> 'n json) list" where
  "json_entries (JObject kvs) = kvs"
| "json_entries _ = []"

text \<open>A value that is not an object becomes an empty one.  \<open>apply_set\<close> never passes an empty path.\<close>

fun set_path :: "'n json \<Rightarrow> string list \<Rightarrow> 'n json \<Rightarrow> 'n json" where
  "set_path v [] new = v"
| "set_path v [k] new = JObject (AList.update k new (json_entries v))"
| "set_path v (k # k' # ks) new =
     (let entry = (case map_of (json_entries v) k of Some w \<Rightarrow> w | None \<Rightarrow> JObject [])
      in JObject (AList.update k (set_path entry (k' # ks) new) (json_entries v)))"

definition set_parts :: "string \<Rightarrow> cli_error + string list \<times> string" where
  "set_parts expr =
     (case split_once (CHR ''='') expr of
        None \<Rightarrow> Inl Malformed
      | Some (p, raw) \<Rightarrow>
          if p = [] \<or> [] \<in> set (split_on (CHR ''.'') p) then Inl Malformed else Inr (split_on (CHR ''.'') p, raw))"

definition apply_set :: "'n numbers \<Rightarrow> 'n json \<Rightarrow> string \<Rightarrow> cli_error + 'n json" where
  "apply_set nums v expr =
     (case set_parts expr of Inl e \<Rightarrow> Inl e | Inr (parts, raw) \<Rightarrow> Inr (set_path v parts (coerce_value nums raw)))"

fun apply_sets :: "'n numbers \<Rightarrow> 'n json \<Rightarrow> string list \<Rightarrow> cli_error + 'n json" where
  "apply_sets nums v [] = Inr v"
| "apply_sets nums v (e # es) = (case apply_set nums v e of Inl x \<Rightarrow> Inl x | Inr v' \<Rightarrow> apply_sets nums v' es)"

record 'n schema_type =
  st_zero :: "'n json"
  st_valid :: "'n json \<Rightarrow> bool"

type_synonym 'n schema_registry = "string \<Rightarrow> 'n schema_type option"

definition validate_against_schema :: "'n schema_registry \<Rightarrow> string \<Rightarrow> 'n json \<Rightarrow> bool" where
  "validate_against_schema reg coll v = (case reg coll of None \<Rightarrow> True | Some st \<Rightarrow> st_valid st v)"

definition underlay :: "(string \<times> 'n json) list \<Rightarrow> (string \<times> 'n json) list \<Rightarrow> (string \<times> 'n json) list" where
  "underlay defaults user = fold (\<lambda>(k, d) m. if map_of m k = None then AList.update k d m else m) defaults user"

definition apply_proto3_defaults :: "'n schema_registry \<Rightarrow> string \<Rightarrow> 'n json \<Rightarrow> 'n json" where
  "apply_proto3_defaults reg coll v =
     (case (reg coll, v) of
        (Some st, JObject user) \<Rightarrow>
          (case st_zero st of JObject defaults \<Rightarrow> JObject (underlay defaults user) | _ \<Rightarrow> JObject user)
      | _ \<Rightarrow> v)"

definition reconcile_id :: "'n schema_registry \<Rightarrow> string \<Rightarrow> string \<Rightarrow> 'n json \<Rightarrow> cli_error + 'n json" where
  "reconcile_id reg coll doc_id v =
     (case (reg coll, v) of
        (Some _, JObject m) \<Rightarrow>
          (case map_of m ''id'' of
             Some (JString i) \<Rightarrow> if i \<noteq> doc_id then Inl Malformed else Inr v
           | Some _ \<Rightarrow> Inr v
           | None \<Rightarrow> Inr (JObject (AList.update ''id'' (JString doc_id) m)))
      | _ \<Rightarrow> Inr v)"

text \<open>The common part of \<open>create\<close> and \<open>update\<close>: from the proposed value to the document that is written.\<close>

definition finish_document :: "'n schema_registry \<Rightarrow> bool \<Rightarrow> string \<Rightarrow> string \<Rightarrow> 'n json \<Rightarrow> cli_error + 'n json" where
  "finish_document reg no_validate coll doc_id v =
     (case reconcile_id reg coll doc_id v of
        Inl e \<Rightarrow> Inl e
      | Inr w \<Rightarrow>
          let doc = apply_proto3_defaults reg coll w
          in if \<not> no_validate \<and> \<not> validate_against_schema reg coll doc then Inl Malformed else Inr doc)"

text \<open>\<open>create\<close> and \<open>update\<close> up to the write: the key and the document.  \<open>from_doc\<close> is what \<open>read_from\<close> gave, if
  asked for; without it the argument parser requires at least one \<open>--set\<close>.\<close>

definition prepare_create ::
  "'n numbers \<Rightarrow> 'n schema_registry \<Rightarrow> string \<Rightarrow> bool \<Rightarrow> string \<Rightarrow> (cli_error + 'n json) option \<Rightarrow> string list
    \<Rightarrow> cli_error + string \<times> 'n json" where
  "prepare_create nums reg uuid no_validate target from_doc sets =
     (case parse_target target of
        Inl e \<Rightarrow> Inl e
      | Inr (coll, d) \<Rightarrow>
          let doc_id = (case d of Some x \<Rightarrow> x | None \<Rightarrow> uuid)
          in case (case from_doc of Some r \<Rightarrow> r | None \<Rightarrow> apply_sets nums (JObject []) sets) of
               Inl e \<Rightarrow> Inl e
             | Inr v \<Rightarrow>
                 (case finish_document reg no_validate coll doc_id v of
                    Inl e \<Rightarrow> Inl e | Inr doc \<Rightarrow> Inr (coll @ '':'' @ doc_id, doc)))"

definition prepare_update ::
  "'n numbers \<Rightarrow> 'n schema_registry \<Rightarrow> bool \<Rightarrow> string \<Rightarrow> (cli_error + 'n json) option \<Rightarrow> string list
    \<Rightarrow> (string \<Rightarrow> cli_error + 'n json option) \<Rightarrow> cli_error + string \<times> 'n json" where
  "prepare_update nums reg no_validate target from_doc sets existing =
     (case parse_target target of
        Inl e \<Rightarrow> Inl e
      | Inr (coll, None) \<Rightarrow> Inl Malformed
      | Inr (coll, Some doc_id) \<Rightarrow>
          let key = coll @ '':'' @ doc_id
          in case from_doc of
               Some (Inl e) \<Rightarrow> Inl e
             | _ \<Rightarrow>
                 (case existing key of
                    Inl e \<Rightarrow> Inl e
                  | Inr old \<Rightarrow>
                      (case (case from_doc of
                               Some r \<Rightarrow> r
                             | None \<Rightarrow> apply_sets nums (case old of Some v \<Rightarrow> v | None \<Rightarrow> JObject []) sets) of
                         Inl e \<Rightarrow> Inl e
                       | Inr v \<Rightarrow>
                           (case finish_document reg no_validate coll doc_id v of
                              Inl e \<Rightarrow> Inl e | Inr doc \<Rightarrow> Inr (key, doc)))))"

section \<open>Setting one path\<close>

fun get_path :: "string list \<Rightarrow> 'n json \<Rightarrow> 'n json option" where
  "get_path [] v = Some v"
| "get_path (k # ks) v = Option.bind (map_of (json_entries v) k) (get_path ks)"

lemma json_get_entries: "json_get k v = map_of (json_entries v) k"
  by (cases v) simp_all

lemma set_path_same: "ks \<noteq> [] \<Longrightarrow> get_path ks (set_path v ks new) = Some new"
  by (induction v ks new rule: set_path.induct) (simp_all add: AList.update_conv' Let_def)

lemma set_path_other:
  "\<not> prefix ks qs \<Longrightarrow> \<not> prefix qs ks \<Longrightarrow> get_path qs (set_path v ks new) = get_path qs v"
proof (induction v ks new arbitrary: qs rule: set_path.induct)
  case (2 v k new)
  then show ?case by (cases qs) (auto simp: AList.update_conv')
next
  case (3 v k k' ks new)
  obtain q qt where qs: "qs = q # qt" using "3.prems"(2) by (cases qs) auto
  show ?case
  proof (cases "q = k")
    case True
    let ?e = "case map_of (json_entries v) k of Some w \<Rightarrow> w | None \<Rightarrow> JObject []"
    have pre: "\<not> prefix (k' # ks) qt" "\<not> prefix qt (k' # ks)" using "3.prems" qs True by auto
    then have ne: "qt \<noteq> []" by auto
    have "get_path qt (set_path ?e (k' # ks) new) = get_path qt ?e" using "3.IH" [OF refl pre] .
    then show ?thesis using qs True ne
      by (cases qt; cases "map_of (json_entries v) k") (auto simp: AList.update_conv' Let_def)
  qed (use qs in \<open>simp add: AList.update_conv' Let_def\<close>)
qed simp

lemma split_on_not_Nil [simp]: "split_on sep s \<noteq> []"
  by (induction s) (auto split: list.split)

text \<open>
  A \<open>--set\<close> that is accepted stores its value at its path and changes no path that is neither above nor
  below it, even where it has to replace a scalar by an object.
\<close>

lemma set_changes_only_path:
  assumes "apply_set nums v expr = Inr v'" "set_parts expr = Inr (ks, raw)"
  shows "get_path ks v' = Some (coerce_value nums raw)
    \<and> (\<forall>qs. \<not> prefix ks qs \<longrightarrow> \<not> prefix qs ks \<longrightarrow> get_path qs v' = get_path qs v)"
proof -
  have v': "v' = set_path v ks (coerce_value nums raw)" using assms by (simp add: apply_set_def)
  have "ks \<noteq> []" using assms(2) by (auto simp: set_parts_def split: option.splits prod.splits if_splits)
  then show ?thesis using v' set_path_same set_path_other by blast
qed

lemma set_changes_only_path_witness:
  "\<exists>v'. apply_set \<lparr>of_i64 = (\<lambda>i. i), of_float_text = (\<lambda>_. None)\<rparr>
      (JObject [(''a'', JString ''x''), (''b'', JNull)]) ''a.c=-7'' = Inr v'
    \<and> get_path [''a'', ''c''] v' = Some (JNumber (- 7)) \<and> get_path [''b''] v' = Some JNull"
proof -
  let ?nums = "\<lparr>of_i64 = (\<lambda>i. i), of_float_text = (\<lambda>_. None)\<rparr> :: int numbers"
  let ?v = "JObject [(''a'', JString ''x''), (''b'', JNull)] :: int json"
  have parts: "set_parts ''a.c=-7'' = Inr ([''a'', ''c''], ''-7'')" by code_simp
  then obtain v' where v': "apply_set ?nums ?v ''a.c=-7'' = Inr v'" by (simp add: apply_set_def)
  have "coerce_value ?nums ''-7'' = JNumber (- 7)"
    by (simp add: coerce_value_def parse_i64_def parse_digits_def digit_value_def starts_with_def Let_def)
  moreover have "get_path [''b''] v' = get_path [''b''] ?v"
    using set_changes_only_path [OF v' parts] by (auto simp del: get_path.simps)
  moreover have "get_path [''b''] ?v = Some JNull" by simp
  ultimately show ?thesis
    using v' set_changes_only_path [OF v' parts] by (simp del: get_path.simps)
qed

section \<open>Identifiers\<close>

lemma underlay_keeps: "map_of user k = Some v \<Longrightarrow> map_of (underlay defaults user) k = Some v"
proof (induction defaults arbitrary: user)
  case (Cons kd defaults)
  obtain j d where kd: "kd = (j, d)" by (cases kd)
  let ?user = "if map_of user j = None then AList.update j d user else user"
  have "map_of ?user k = Some v" using Cons.prems by (auto simp: AList.update_conv')
  from Cons.IH [OF this] show ?case by (simp add: underlay_def kd)
qed (simp add: underlay_def)

lemma defaults_keep: "map_of m k = Some v \<Longrightarrow> map_of (json_entries (apply_proto3_defaults reg coll (JObject m))) k = Some v"
  by (auto simp: apply_proto3_defaults_def underlay_keeps split: option.splits json.splits)

lemma defaults_unregistered: "reg coll = None \<Longrightarrow> apply_proto3_defaults reg coll v = v"
  by (simp add: apply_proto3_defaults_def)

lemma reconcile_object:
  assumes "reconcile_id reg coll d (JObject m) = Inr w"
  obtains m' where "w = JObject m'" "\<forall>k v. map_of m k = Some v \<longrightarrow> map_of m' k = Some v"
    "reg coll \<noteq> None \<longrightarrow> (\<exists>x. map_of m' ''id'' = Some x \<and> (\<forall>i. x = JString i \<longrightarrow> i = d))"
proof (cases "reg coll = None \<or> map_of m ''id'' \<noteq> None")
  case True
  have "w = JObject m \<and> (reg coll \<noteq> None \<longrightarrow> (\<exists>x. map_of m ''id'' = Some x \<and> (\<forall>i. x = JString i \<longrightarrow> i = d)))"
  proof (cases "reg coll")
    case None
    then show ?thesis using assms by (simp add: reconcile_id_def)
  next
    case (Some st)
    then obtain x where "map_of m ''id'' = Some x" using True by auto
    then show ?thesis using assms Some by (cases x) (auto simp: reconcile_id_def split: if_splits)
  qed
  then show ?thesis using that by blast
next
  case False
  then have "w = JObject (AList.update ''id'' (JString d) m)" using assms by (auto simp: reconcile_id_def)
  moreover have "map_of (AList.update ''id'' (JString d) m) k = Some v" if "map_of m k = Some v" for k v
    using that False by (auto simp: AList.update_conv')
  ultimately show ?thesis using that by (simp add: AList.update_conv')
qed

lemma finish_object:
  assumes "finish_document reg nv coll d (JObject m) = Inr doc"
  shows "\<And>k v. map_of m k = Some v \<Longrightarrow> json_get k doc = Some v"
    and "reg coll \<noteq> None \<Longrightarrow> \<exists>x. json_get ''id'' doc = Some x \<and> (\<forall>i. x = JString i \<longrightarrow> i = d)"
    and "nv \<or> validate_against_schema reg coll doc"
proof -
  obtain w where w: "reconcile_id reg coll d (JObject m) = Inr w" and doc: "doc = apply_proto3_defaults reg coll w"
    and valid: "nv \<or> validate_against_schema reg coll doc"
    using assms by (auto simp: finish_document_def Let_def split: sum.splits if_splits)
  obtain m' where m': "w = JObject m'" "\<forall>k v. map_of m k = Some v \<longrightarrow> map_of m' k = Some v"
    "reg coll \<noteq> None \<longrightarrow> (\<exists>x. map_of m' ''id'' = Some x \<and> (\<forall>i. x = JString i \<longrightarrow> i = d))"
    by (rule reconcile_object [OF w])
  have keep: "map_of m' k = Some v \<Longrightarrow> json_get k doc = Some v" for k v
    unfolding doc m'(1) json_get_entries by (rule defaults_keep)
  show "\<And>k v. map_of m k = Some v \<Longrightarrow> json_get k doc = Some v" using m'(2) keep by blast
  show "reg coll \<noteq> None \<Longrightarrow> \<exists>x. json_get ''id'' doc = Some x \<and> (\<forall>i. x = JString i \<longrightarrow> i = d)" using m'(3) keep by blast
  show "nv \<or> validate_against_schema reg coll doc" by (rule valid)
qed

text \<open>
  What \<open>create\<close> writes agrees with its key: a document object of a registered type carries an identifier, and
  one that is a string is the document part of the key; the caller's fields survive the defaults; and the
  document satisfies the schema unless validation was switched off.
\<close>

lemma created_document_agrees:
  assumes "prepare_create nums reg uuid nv target (Some (Inr (JObject m))) sets = Inr (key, doc)"
    and "parse_target target = Inr (coll, d)"
  shows "key = coll @ '':'' @ (case d of Some x \<Rightarrow> x | None \<Rightarrow> uuid)
    \<and> (reg coll \<noteq> None \<longrightarrow> (\<exists>w. json_get ''id'' doc = Some w \<and> (\<forall>i. w = JString i \<longrightarrow> i = (case d of Some x \<Rightarrow> x | None \<Rightarrow> uuid))))
    \<and> (\<forall>k v. map_of m k = Some v \<longrightarrow> json_get k doc = Some v) \<and> (nv \<or> validate_against_schema reg coll doc)"
proof -
  let ?d = "case d of Some x \<Rightarrow> x | None \<Rightarrow> uuid"
  have fin: "finish_document reg nv coll ?d (JObject m) = Inr doc" and key: "key = coll @ '':'' @ ?d"
    using assms by (auto simp: prepare_create_def Let_def split: sum.splits)
  show ?thesis using key finish_object [OF fin] by blast
qed

section \<open>Grammars\<close>

lemma parse_target_exact:
  "parse_target s = Inr (c, Some d) \<longleftrightarrow> s = c @ CHR ''/'' # d \<and> c \<noteq> [] \<and> d \<noteq> [] \<and> CHR ''/'' \<notin> set c \<and> CHR ''/'' \<notin> set d"
  by (auto simp: parse_target_def split_once_append split: option.splits prod.splits if_splits dest: split_once_SomeD)

text \<open>A number of minutes that is accepted may wrap to a short time.\<close>

lemma minutes_wrap: "parse_timeout ''307445734561825861m'' = Inr 44000"
  by (simp add: parse_timeout_def strip_suffix_def suffix_def parse_u64_def parse_digits_def digit_value_def starts_with_def Let_def)

end
