(* ===== verification/Node_Peers.thy ===== *)
theory Node_Peers
  imports Node_Changes
begin

text \<open>
  The peers of a node (\<open>src/src/node.rs\<close>): connecting with retries, disconnecting, the watchdog that reconnects
  registered peers with growing pauses, the discovery of peers by mDNS and Kubernetes, and the dialling
  of the command line program (\<open>crates/peat-cli/src/join.rs\<close>).  Name resolution, the handshake and the textual form
  of identifiers belong to libraries and are parameters; times are natural numbers of seconds.
\<close>

section \<open>State\<close>

record peer_registration =
  pr_addresses :: "string list"
  pr_relay_url :: string
  pr_next_attempt :: nat
  pr_backoff :: nat

definition RECONNECT_BACKOFF_MIN :: nat where
  "RECONNECT_BACKOFF_MIN = 5"

definition RECONNECT_BACKOFF_MAX :: nat where
  "RECONNECT_BACKOFF_MAX = 120"

definition CONNECT_RETRY_ATTEMPTS :: nat where
  "CONNECT_RETRY_ATTEMPTS = 3"

text \<open>The registered peers, those with a live connection and those known to the blob store.\<close>

record 'i peers =
  np_registered :: "('i \<times> peer_registration) list"
  np_live :: "'i set"
  np_known :: "'i set"
  np_sync_active :: bool

record ('i, 'a) dial_env =
  de_parse_id :: "string \<Rightarrow> 'i option"
  de_show_id :: "'i \<Rightarrow> string"
  de_lookup :: "string \<Rightarrow> string + 'a list"
  de_relay_error :: "string \<Rightarrow> string option"

section \<open>Dialling\<close>

fun resolve_addresses :: "('i, 'a) dial_env \<Rightarrow> string list \<Rightarrow> string + 'a list" where
  "resolve_addresses env [] = Inr []"
| "resolve_addresses env (a # as) =
     (if a = [] then resolve_addresses env as
      else case de_lookup env a of
        Inl e \<Rightarrow> Inl (''resolve `'' @ a @ ''`: '' @ e)
      | Inr [] \<Rightarrow> Inl (''no addresses resolved for `'' @ a @ ''`'')
      | Inr socks \<Rightarrow>
          (case resolve_addresses env as of Inl e \<Rightarrow> Inl e | Inr rest \<Rightarrow> Inr (socks @ rest)))"

text \<open>\<open>attempts k\<close> is the error of the \<open>k\<close>-th handshake, if it fails.\<close>

definition connect_failed_text :: "nat \<Rightarrow> string \<Rightarrow> string" where
  "connect_failed_text attempt e = ''connect_and_authenticate failed after '' @ show_nat attempt @ '' attempts: '' @ e"

function connect_loop :: "(nat \<Rightarrow> string option) \<Rightarrow> nat \<Rightarrow> string + unit" where
  "connect_loop attempts attempt =
     (case attempts attempt of
        None \<Rightarrow> Inr ()
      | Some e \<Rightarrow>
          if attempt < CONNECT_RETRY_ATTEMPTS then connect_loop attempts (Suc attempt)
          else Inl (connect_failed_text attempt e))"
  by pat_completeness auto

termination
  by (relation "measure (\<lambda>(_, k). CONNECT_RETRY_ATTEMPTS - k)") auto

declare connect_loop.simps [simp del]

definition dial_and_attach ::
  "('i, 'a) dial_env \<Rightarrow> (nat \<Rightarrow> string option) \<Rightarrow> 'i \<Rightarrow> peer_registration \<Rightarrow> 'i peers \<Rightarrow> (string + unit) \<times> 'i peers" where
  "dial_and_attach env attempts peer_id reg st =
     (case resolve_addresses env (pr_addresses reg) of
        Inl e \<Rightarrow> (Inl e, st)
      | Inr _ \<Rightarrow>
          if pr_relay_url reg \<noteq> [] \<and> de_relay_error env (pr_relay_url reg) \<noteq> None
          then (Inl (''invalid relay URL `'' @ pr_relay_url reg @ ''`: '' @ the (de_relay_error env (pr_relay_url reg))), st)
          else case connect_loop attempts 1 of
            Inl e \<Rightarrow> (Inl e, st)
          | Inr _ \<Rightarrow> (Inr (), st\<lparr>np_live := insert peer_id (np_live st), np_known := insert peer_id (np_known st)\<rparr>))"

definition connect_peer ::
  "('i, 'a) dial_env \<Rightarrow> (nat \<Rightarrow> string option) \<Rightarrow> nat \<Rightarrow> string \<Rightarrow> string list \<Rightarrow> string \<Rightarrow> 'i peers \<Rightarrow> (string + unit) \<times> 'i peers" where
  "connect_peer env attempts now endpoint_id addresses relay_url st =
     (case de_parse_id env endpoint_id of
        None \<Rightarrow> (Inl ''invalid endpoint ID'', st)
      | Some peer_id \<Rightarrow>
          if \<not> list_ex (\<lambda>a. a \<noteq> []) addresses \<and> relay_url = []
          then (Inl ''ConnectPeer requires at least one of `addresses` or `relay_url`'', st)
          else
            let reg = \<lparr>pr_addresses = addresses, pr_relay_url = relay_url, pr_next_attempt = now,
                       pr_backoff = RECONNECT_BACKOFF_MIN\<rparr>
            in case dial_and_attach env attempts peer_id reg st of
                 (Inl e, st') \<Rightarrow> (Inl e, st')
               | (Inr _, st') \<Rightarrow> (Inr (), st'\<lparr>np_registered := AList.update peer_id reg (np_registered st')\<rparr>))"

definition disconnect_peer :: "('i, 'a) dial_env \<Rightarrow> string \<Rightarrow> 'i peers \<Rightarrow> (string + unit) \<times> 'i peers" where
  "disconnect_peer env endpoint_id st =
     (case de_parse_id env endpoint_id of
        None \<Rightarrow> (Inl ''invalid endpoint ID'', st)
      | Some peer_id \<Rightarrow>
          (Inr (), st\<lparr>np_registered := AList.delete peer_id (np_registered st), np_live := np_live st - {peer_id}\<rparr>))"

definition start_sync :: "'i peers \<Rightarrow> 'i peers" where
  "start_sync st = st\<lparr>np_sync_active := True\<rparr>"

definition stop_sync :: "'i peers \<Rightarrow> 'i peers" where
  "stop_sync st = st\<lparr>np_sync_active := False\<rparr>"

section \<open>The watchdog\<close>

definition watchdog_dead :: "nat \<Rightarrow> 'i peers \<Rightarrow> ('i \<times> peer_registration) list" where
  "watchdog_dead now st = filter (\<lambda>(i, reg). i \<notin> np_live st \<and> pr_next_attempt reg \<le> now) (np_registered st)"

definition watchdog_entry :: "nat \<Rightarrow> bool \<Rightarrow> peer_registration \<Rightarrow> peer_registration" where
  "watchdog_entry now ok entry =
     (if ok then entry\<lparr>pr_backoff := RECONNECT_BACKOFF_MIN, pr_next_attempt := now\<rparr>
      else let b = min (pr_backoff entry * 2) RECONNECT_BACKOFF_MAX
           in entry\<lparr>pr_backoff := b, pr_next_attempt := now + b\<rparr>)"

text \<open>One peer of the list: the dial, then the update of its entry if it is still registered.\<close>

definition watchdog_dial ::
  "('i, 'a) dial_env \<Rightarrow> (nat \<Rightarrow> string option) \<Rightarrow> nat \<Rightarrow> 'i \<times> peer_registration \<Rightarrow> 'i peers \<Rightarrow> 'i peers" where
  "watchdog_dial env attempts now p st =
     (case dial_and_attach env attempts (fst p) (snd p) st of
        (r, st') \<Rightarrow>
          (case map_of (np_registered st') (fst p) of
             None \<Rightarrow> st'
           | Some entry \<Rightarrow>
               st'\<lparr>np_registered := AList.update (fst p) (watchdog_entry now (\<not> isl r) entry) (np_registered st')\<rparr>))"

section \<open>Discovery\<close>

record discovered =
  di_node_id :: string
  di_addresses :: "string list"
  di_metadata :: "(string \<times> string) list"

definition parse_u16 :: "string \<Rightarrow> nat option" where
  "parse_u16 s =
     (case parse_digits (if starts_with s ''+'' then tl s else s) of
        Some n \<Rightarrow> if n < 2 ^ 16 then Some n else None
      | None \<Rightarrow> None)"

definition mdns_peer_addresses :: "discovered \<Rightarrow> string list" where
  "mdns_peer_addresses p =
     (if di_addresses p \<noteq> [] then di_addresses p
      else case Option.bind (map_of (di_metadata p) ''port'') parse_u16 of
        Some port \<Rightarrow> [''127.0.0.1:'' @ show_nat port]
      | None \<Rightarrow> [])"

fun contains :: "string \<Rightarrow> string \<Rightarrow> bool" where
  "contains [] p = (p = [])"
| "contains (c # s) p = (prefix p (c # s) \<or> contains s p)"

definition permanent_error :: "string \<Rightarrow> bool" where
  "permanent_error msg \<longleftrightarrow> contains msg ''formation'' \<or> contains msg ''mismatch'' \<or> contains msg ''auth''"

text \<open>
  The addresses of a discovered peer in turn, until one connects.  \<open>dial\<close> is the dialling of the program:
  that of the node, or that of the command line program.
\<close>

fun mdns_dial ::
  "(string \<Rightarrow> 't \<Rightarrow> (string + unit) \<times> 't) \<Rightarrow> string \<Rightarrow> string list \<Rightarrow> string set \<times> 't \<Rightarrow> string set \<times> 't" where
  "mdns_dial dial node_id [] (failed, st) = (failed, st)"
| "mdns_dial dial node_id (a # as) (failed, st) =
     (case dial a st of
        (Inr _, st') \<Rightarrow> (failed, st')
      | (Inl e, st') \<Rightarrow> mdns_dial dial node_id as (if permanent_error e then insert node_id failed else failed, st'))"

definition mdns_turn ::
  "(string \<Rightarrow> 't \<Rightarrow> (string + unit) \<times> 't) \<Rightarrow> ('t \<Rightarrow> string set) \<Rightarrow> string \<Rightarrow> string \<Rightarrow> discovered \<Rightarrow> string set \<times> 't \<Rightarrow> string set \<times> 't" where
  "mdns_turn dial connected our_id formation_id p s =
     (if di_node_id p = our_id \<or> di_node_id p \<in> fst s then s
      else if (case map_of (di_metadata p) ''formation_id'' of Some fid \<Rightarrow> fid \<noteq> formation_id | None \<Rightarrow> False) then s
      else if di_node_id p \<in> connected (snd s) then s
      else mdns_dial dial (di_node_id p) (mdns_peer_addresses p) s)"

text \<open>The node's dialling of one discovered address; a name that is no identifier is passed over.\<close>

definition discovered_registration :: "nat \<Rightarrow> string \<Rightarrow> peer_registration" where
  "discovered_registration now a =
     \<lparr>pr_addresses = [a], pr_relay_url = [], pr_next_attempt = now, pr_backoff = RECONNECT_BACKOFF_MIN\<rparr>"

definition node_mdns_turn ::
  "('i, 'a) dial_env \<Rightarrow> (string \<Rightarrow> nat \<Rightarrow> string option) \<Rightarrow> nat \<Rightarrow> string \<Rightarrow> string \<Rightarrow> discovered
    \<Rightarrow> string set \<times> 'i peers \<Rightarrow> string set \<times> 'i peers" where
  "node_mdns_turn env attempts now our_id formation_id p s =
     (case de_parse_id env (di_node_id p) of
        None \<Rightarrow> s
      | Some i \<Rightarrow>
          mdns_turn (\<lambda>a. dial_and_attach env (attempts a) i (discovered_registration now a))
            (\<lambda>st. de_show_id env ` np_live st) our_id formation_id p s)"

fun k8s_dial_addresses ::
  "('i, 'a) dial_env \<Rightarrow> (string \<Rightarrow> nat \<Rightarrow> string option) \<Rightarrow> nat \<Rightarrow> 'i \<Rightarrow> string list \<Rightarrow> 'i peers \<Rightarrow> 'i peers" where
  "k8s_dial_addresses env attempts now i [] st = st"
| "k8s_dial_addresses env attempts now i (a # as) st =
     (case dial_and_attach env (attempts a) i (discovered_registration now a) st of
        (Inr _, st') \<Rightarrow> st'
      | (Inl _, st') \<Rightarrow> k8s_dial_addresses env attempts now i as st')"

definition k8s_turn ::
  "crypto_lib \<Rightarrow> (bytes \<Rightarrow> 'i) \<Rightarrow> ('i, 'a) dial_env \<Rightarrow> (string \<Rightarrow> nat \<Rightarrow> string option) \<Rightarrow> nat \<Rightarrow> string option \<Rightarrow> bytes \<Rightarrow> 'i list
    \<Rightarrow> string \<times> string list \<Rightarrow> 'i peers \<Rightarrow> 'i peers" where
  "k8s_turn lib public env attempts now our_pod_name shared_key connected peer st =
     (case k8s_dial_decision lib public peer our_pod_name shared_key connected of
        Dial i \<Rightarrow> k8s_dial_addresses env attempts now i (snd peer) st
      | _ \<Rightarrow> st)"

section \<open>Interleaving\<close>

text \<open>
  The node's peers over time.  A call, a lost connection, a discovered peer and the watchdog's dials
  alternate; a tick of the watchdog fixes the list it then works through, at the time of the tick.
\<close>

record 'i peer_world =
  pw_peers :: "'i peers"
  pw_clock :: nat
  pw_tick :: nat
  pw_pending :: "('i \<times> peer_registration) list"

datatype 'i peer_event = PConnect string | PDisconnect string | PLost 'i | PDiscovered 'i | PTime nat | PTick | PDial

inductive peer_step :: "('i, 'a) dial_env \<Rightarrow> 'i peer_world \<Rightarrow> 'i peer_event \<Rightarrow> 'i peer_world \<Rightarrow> bool" for env where
  step_connect: "peer_step env w (PConnect e)
    (w\<lparr>pw_peers := snd (connect_peer env attempts (pw_clock w) e addrs relay (pw_peers w))\<rparr>)"
| step_disconnect: "peer_step env w (PDisconnect e) (w\<lparr>pw_peers := snd (disconnect_peer env e (pw_peers w))\<rparr>)"
| step_lost: "peer_step env w (PLost i) (w\<lparr>pw_peers := (pw_peers w)\<lparr>np_live := np_live (pw_peers w) - {i}\<rparr>\<rparr>)"
| step_discovered: "peer_step env w (PDiscovered i)
    (w\<lparr>pw_peers := snd (dial_and_attach env attempts i reg (pw_peers w))\<rparr>)"
| step_time: "pw_clock w \<le> t \<Longrightarrow> peer_step env w (PTime t) (w\<lparr>pw_clock := t\<rparr>)"
| step_tick: "pw_pending w = [] \<Longrightarrow>
    peer_step env w PTick (w\<lparr>pw_tick := pw_clock w, pw_pending := watchdog_dead (pw_clock w) (pw_peers w)\<rparr>)"
| step_dial: "pw_pending w = p # ps \<Longrightarrow>
    peer_step env w PDial (w\<lparr>pw_peers := watchdog_dial env attempts (pw_tick w) p (pw_peers w), pw_pending := ps\<rparr>)"

definition no_peers :: "'i peer_world" where
  "no_peers = \<lparr>pw_peers = \<lparr>np_registered = [], np_live = {}, np_known = {}, np_sync_active = False\<rparr>, pw_clock = 0,
     pw_tick = 0, pw_pending = []\<rparr>"

section \<open>Backoff\<close>

definition backoff_ok :: "nat \<Rightarrow> peer_registration \<Rightarrow> bool" where
  "backoff_ok now reg \<longleftrightarrow> RECONNECT_BACKOFF_MIN \<le> pr_backoff reg \<and> pr_backoff reg \<le> RECONNECT_BACKOFF_MAX
     \<and> pr_next_attempt reg \<le> now + RECONNECT_BACKOFF_MAX"

definition peers_ok :: "nat \<Rightarrow> 'i peers \<Rightarrow> bool" where
  "peers_ok now st \<longleftrightarrow> (\<forall>i reg. map_of (np_registered st) i = Some reg \<longrightarrow> backoff_ok now reg)"

definition world_ok :: "'i peer_world \<Rightarrow> bool" where
  "world_ok w \<longleftrightarrow> pw_tick w \<le> pw_clock w \<and> peers_ok (pw_clock w) (pw_peers w)"

lemmas backoff_limits = RECONNECT_BACKOFF_MIN_def RECONNECT_BACKOFF_MAX_def

lemma dial_registered [simp]: "np_registered (snd (dial_and_attach env attempts i reg st)) = np_registered st"
  by (simp add: dial_and_attach_def split: sum.split)

lemma watchdog_entry_ok: "backoff_ok now entry \<Longrightarrow> t \<le> now \<Longrightarrow> backoff_ok now (watchdog_entry t ok entry)"
  by (auto simp: backoff_ok_def watchdog_entry_def Let_def backoff_limits)

lemma backoff_ok_mono: "backoff_ok t reg \<Longrightarrow> t \<le> t' \<Longrightarrow> backoff_ok t' reg"
  by (auto simp: backoff_ok_def)

lemma peers_ok_update:
  assumes "peers_ok now st" and "backoff_ok now reg"
  shows "peers_ok now (st\<lparr>np_registered := AList.update i reg (np_registered st)\<rparr>)"
  using assms by (auto simp: peers_ok_def map_of_AList_update)

lemma peers_ok_registered: "np_registered st' = np_registered st \<Longrightarrow> peers_ok now st \<Longrightarrow> peers_ok now st'"
  by (simp add: peers_ok_def)

lemma connect_ok:
  assumes "peers_ok now st"
  shows "peers_ok now (snd (connect_peer env attempts now e addrs relay st))"
proof (cases "de_parse_id env e")
  case (Some i)
  let ?reg = "\<lparr>pr_addresses = addrs, pr_relay_url = relay, pr_next_attempt = now, pr_backoff = RECONNECT_BACKOFF_MIN\<rparr>"
  obtain r st' where d: "dial_and_attach env attempts i ?reg st = (r, st')" by fastforce
  then have st': "peers_ok now st'"
    using assms dial_registered [of env attempts i ?reg st] by (auto intro: peers_ok_registered)
  have "backoff_ok now ?reg" by (simp add: backoff_ok_def backoff_limits)
  with st' have "peers_ok now (st'\<lparr>np_registered := AList.update i ?reg (np_registered st')\<rparr>)"
    by (rule peers_ok_update)
  then show ?thesis
    using assms Some d st' by (auto simp: connect_peer_def Let_def split: sum.split)
qed (use assms in \<open>simp add: connect_peer_def\<close>)

lemma watchdog_dial_ok:
  assumes "peers_ok now st" and "t \<le> now"
  shows "peers_ok now (watchdog_dial env attempts t p st)"
proof -
  obtain r st' where d: "dial_and_attach env attempts (fst p) (snd p) st = (r, st')" by fastforce
  then have st': "peers_ok now st'"
    using assms(1) dial_registered [of env attempts "fst p" "snd p" st] by (auto intro: peers_ok_registered)
  then have "backoff_ok now (watchdog_entry t (\<not> isl r) entry)" if "map_of (np_registered st') (fst p) = Some entry" for entry
    using that assms(2) unfolding peers_ok_def by (blast intro: watchdog_entry_ok)
  then show ?thesis
    using st' d by (auto simp: watchdog_dial_def peers_ok_update split: option.split)
qed

lemma peer_step_ok: "peer_step env w e w' \<Longrightarrow> world_ok w \<Longrightarrow> world_ok w'"
proof (induction rule: peer_step.induct)
  case (step_disconnect w e)
  then show ?case
    by (auto simp: world_ok_def peers_ok_def disconnect_peer_def delete_conv' split: option.split)
next
  case (step_discovered w i attempts reg)
  then show ?case
    by (auto simp: world_ok_def intro: peers_ok_registered [OF dial_registered])
next
  case (step_time w t)
  then show ?case
    by (auto simp: world_ok_def peers_ok_def intro: backoff_ok_mono)
qed (auto simp: world_ok_def connect_ok watchdog_dial_ok intro: peers_ok_registered)

lemma peer_runs_ok: "runs (peer_step env) w es w' \<Longrightarrow> world_ok w \<Longrightarrow> world_ok w'"
  by (induction rule: runs.induct) (auto intro: peer_step_ok)


definition sample_dial_env :: "(string, nat) dial_env" where
  "sample_dial_env = \<lparr>de_parse_id = Some, de_show_id = (\<lambda>i. i), de_lookup = (\<lambda>_. Inr [1]), de_relay_error = (\<lambda>_. None)\<rparr>"


section \<open>A disconnect during a dial\<close>

text \<open>
  A disconnect that comes while the watchdog is dialling the peer is undone: the dial connects it,
  and it is not registered any more, so nothing will disconnect it.
\<close>

lemma disconnect_undone_by_dial:
  assumes "de_parse_id env e = Some i" and "pw_pending w = (i, reg) # ps"
    and "dial_and_attach env attempts i reg (snd (disconnect_peer env e (pw_peers w))) = (Inr (), st)"
  shows "\<exists>w'. runs (peer_step env) w [PDisconnect e, PDial] w' \<and> i \<in> np_live (pw_peers w')
    \<and> map_of (np_registered (pw_peers w')) i = None"
proof -
  let ?w1 = "w\<lparr>pw_peers := snd (disconnect_peer env e (pw_peers w))\<rparr>"
  let ?w2 = "?w1\<lparr>pw_peers := watchdog_dial env attempts (pw_tick ?w1) (i, reg) (pw_peers ?w1), pw_pending := ps\<rparr>"
  have "peer_step env w (PDisconnect e) ?w1" by (rule step_disconnect)
  moreover have "peer_step env ?w1 PDial ?w2" by (rule step_dial) (simp add: assms(2))
  ultimately have run: "runs (peer_step env) w [PDisconnect e, PDial] ?w2"
    by (meson runs.intros)
  have none: "map_of (np_registered st) i = None"
    using dial_registered [of env attempts i reg "snd (disconnect_peer env e (pw_peers w))"] assms(1)
    unfolding assms(3) by (simp add: disconnect_peer_def delete_conv')
  have live: "i \<in> np_live st"
    using assms(3) by (auto simp: dial_and_attach_def split: sum.splits if_splits)
  have "watchdog_dial env attempts (pw_tick w) (i, reg) (snd (disconnect_peer env e (pw_peers w))) = st"
    using assms(3) none by (simp add: watchdog_dial_def)
  with none live have "i \<in> np_live (pw_peers ?w2) \<and> map_of (np_registered (pw_peers ?w2)) i = None"
    by simp
  with run show ?thesis by blast
qed

section \<open>Failures of discovered peers\<close>

lemma connect_loop_fails:
  assumes "\<And>k. attempts k \<noteq> None"
  shows "\<exists>e. connect_loop attempts 1 = Inl e \<and> contains e ''auth''"
proof -
  obtain e where e: "attempts 3 = Some e" using assms [of 3] by blast
  have "connect_loop attempts 3 = Inl (connect_failed_text 3 e)"
    using e by (subst connect_loop.simps) (simp add: CONNECT_RETRY_ATTEMPTS_def)
  moreover have "connect_loop attempts 2 = connect_loop attempts 3"
    using assms [of 2] by (subst connect_loop.simps) (auto simp: CONNECT_RETRY_ATTEMPTS_def)
  moreover have "connect_loop attempts 1 = connect_loop attempts 2"
    using assms [of 1] by (subst connect_loop.simps) (auto simp: CONNECT_RETRY_ATTEMPTS_def numeral_2_eq_2)
  moreover have "contains (connect_failed_text 3 e) ''auth''"
    by (simp add: connect_failed_text_def)
  ultimately show ?thesis by metis
qed

lemma dial_fails:
  assumes "\<And>k. attempts k \<noteq> None" and "\<exists>x xs. de_lookup env a = Inr (x # xs)"
  shows "\<exists>e. dial_and_attach env attempts i (discovered_registration now a) st = (Inl e, st) \<and> permanent_error e"
proof -
  obtain e where "connect_loop attempts 1 = Inl e" and "contains e ''auth''"
    using connect_loop_fails [of attempts] assms(1) by blast
  then show ?thesis
    using assms(2) by (auto simp: dial_and_attach_def discovered_registration_def permanent_error_def)
qed

lemma mdns_dial_fails:
  assumes "\<And>a st. a \<in> set as \<Longrightarrow> \<exists>e. dial a st = (Inl e, st) \<and> permanent_error e"
  shows "mdns_dial dial n as (failed, st) = (if as = [] then failed else insert n failed, st)"
  using assms
proof (induction as arbitrary: failed)
  case (Cons a as)
  obtain e where "dial a st = (Inl e, st)" and "permanent_error e" using Cons.prems [of a st] by auto
  then show ?case using Cons.IH [of "insert n failed"] Cons.prems by auto
qed simp

text \<open>
  C28: A discovered peer that cannot be reached once is never dialled again.  The text of every failed
  handshake says \<open>connect_and_authenticate\<close>, which the watcher takes for an authentication failure: when the
  three attempts at each address fail for whatever reason, the peer joins the peers that failed
  authentication, and from then on no announcement of it changes anything, even if it could be reached.
\<close>

theorem transient_failure_blacklists:
  assumes "de_parse_id env (di_node_id p) = Some i" and "mdns_peer_addresses p \<noteq> []"
    and "\<And>a. a \<in> set (mdns_peer_addresses p) \<Longrightarrow> \<exists>x xs. de_lookup env a = Inr (x # xs)"
    and "\<And>a k. attempts a k \<noteq> None" and "di_node_id p \<noteq> our_id" and "di_node_id p \<notin> failed"
    and "map_of (di_metadata p) ''formation_id'' \<in> {None, Some formation}" and "di_node_id p \<notin> de_show_id env ` np_live st"
  shows "node_mdns_turn env attempts now our_id formation p (failed, st) = (insert (di_node_id p) failed, st)
    \<and> (di_node_id q = di_node_id p \<and> di_node_id p \<in> failed' \<longrightarrow>
        node_mdns_turn env attempts' now' our_id formation q (failed', st') = (failed', st'))"
proof
  have "mdns_dial (\<lambda>a. dial_and_attach env (attempts a) i (discovered_registration now a)) (di_node_id p)
      (mdns_peer_addresses p) (failed, st) = (insert (di_node_id p) failed, st)"
    using assms(2) dial_fails [OF assms(4) assms(3)] by (subst mdns_dial_fails) auto
  then show "node_mdns_turn env attempts now our_id formation p (failed, st) = (insert (di_node_id p) failed, st)"
    using assms(1,5-8) by (auto simp: node_mdns_turn_def mdns_turn_def split: option.split)
  show "di_node_id q = di_node_id p \<and> di_node_id p \<in> failed' \<longrightarrow>
      node_mdns_turn env attempts' now' our_id formation q (failed', st') = (failed', st')"
    by (auto simp: node_mdns_turn_def mdns_turn_def split: option.split)
qed

theorem transient_failure_blacklists_witness:
  "node_mdns_turn sample_dial_env (\<lambda>_ _. None) 9 ''me'' ''f'' \<lparr>di_node_id = ''p'', di_addresses = [''h:1''], di_metadata = []\<rparr>
     (node_mdns_turn sample_dial_env (\<lambda>_ _. Some ''timed out'') 0 ''me'' ''f''
        \<lparr>di_node_id = ''p'', di_addresses = [''h:1''], di_metadata = []\<rparr> ({}, pw_peers no_peers))
   = ({''p''}, pw_peers no_peers)"
proof -
  let ?p = "\<lparr>di_node_id = ''p'', di_addresses = [''h:1''], di_metadata = []\<rparr>"
  note blacklisted = transient_failure_blacklists [of sample_dial_env ?p "''p''" "\<lambda>_ _. Some ''timed out''" "''me''" "{}" "''f''"
      "pw_peers no_peers" 0 ?p "{''p''}" "\<lambda>_ _. None" 9 "pw_peers no_peers"]
  show ?thesis
    using blacklisted by (simp add: sample_dial_env_def mdns_peer_addresses_def no_peers_def)
qed

end
