(* ===== verification/Attachment_Inbox.thy ===== *)
theory Attachment_Inbox
  imports Attachment_Ingest
begin

text \<open>
  The receiving inbox (\<open>src/src/attachments/inbox.rs\<close>): where a received blob lands and how it is
  published.  A file system is a map from paths, as component lists, to contents; which calls fail
  and how much a copy writes are inputs.
\<close>

section \<open>Where a file lands\<close>

fun normal_components :: "path_component list \<Rightarrow> string list option" where
  "normal_components [] = Some []"
| "normal_components (NormalDir c # cs) = map_option (Cons c) (normal_components cs)"
| "normal_components (CurDir # cs) = normal_components cs"
| "normal_components (_ # cs) = None"

definition inbox_relpath :: "blob_metadata \<Rightarrow> string list option" where
  "inbox_relpath md =
     (case bm_name md of
        None \<Rightarrow> None
      | Some raw \<Rightarrow>
          if raw = [] then None
          else case normal_components (components raw) of
            None \<Rightarrow> None
          | Some safe \<Rightarrow> if safe = [] then None else Some safe)"

record distribution_document =
  dd_distribution_id :: string
  dd_blob_size :: u64
  dd_blob_metadata :: blob_metadata

definition inbox_target :: "string \<Rightarrow> distribution_document \<Rightarrow> path_component list" where
  "inbox_target root doc =
     (case inbox_relpath (dd_blob_metadata doc) of
        Some names \<Rightarrow> components root @ map NormalDir names
      | None \<Rightarrow> components (path_join root (dd_distribution_id doc @ ''.bin'')))"

section \<open>Delivery\<close>

type_synonym inbox_fs = "path_component list \<rightharpoonup> bytes"

record deliver_io =
  di_mkdir :: bool
  di_created :: bool
  di_copied :: nat
  di_copy_ok :: bool
  di_stat :: bool
  di_remove :: bool
  di_rename :: bool

definition already_delivered :: "string \<Rightarrow> distribution_document \<Rightarrow> inbox_fs \<Rightarrow> bool" where
  "already_delivered root doc fs =
     (case fs (inbox_target root doc) of None \<Rightarrow> False | Some c \<Rightarrow> length c = unat (dd_blob_size doc))"

definition partial_path :: "path_component list \<Rightarrow> path_component list" where
  "partial_path target =
     butlast target @ [NormalDir (''.'' @ (case last target of NormalDir n \<Rightarrow> n | _ \<Rightarrow> ''blob'') @ ''.partial'')]"

definition inbox_deliver ::
  "deliver_io \<Rightarrow> string \<Rightarrow> distribution_document \<Rightarrow> bytes \<Rightarrow> inbox_fs \<Rightarrow> bool \<times> inbox_fs" where
  "inbox_deliver io root doc blob fs =
     (let target = inbox_target root doc; tmp = partial_path target; written = take (di_copied io) blob;
          fs1 = fs(tmp \<mapsto> written)
      in if \<not> di_mkdir io then (False, fs)
         else if \<not> di_copy_ok io then (False, if di_created io then fs1 else fs)
         else if \<not> di_stat io then (False, fs1)
         else if length written \<noteq> unat (dd_blob_size doc)
         then (False, if di_remove io then fs1(tmp := None) else fs1)
         else if \<not> di_rename io then (False, fs1)
         else (True, fs1(tmp := None, target \<mapsto> written)))"

section \<open>Lemmas\<close>

lemma normal_components_eq:
  "normal_components cs = (if ParentDir \<in> set cs \<or> RootDir \<in> set cs then None
     else Some (List.map_filter (\<lambda>c. case c of NormalDir n \<Rightarrow> Some n | _ \<Rightarrow> None) cs))"
  by (induction cs rule: normal_components.induct) (auto simp: List.map_filter_def)

lemma split_slash_plain: "CHR ''/'' \<notin> set x \<Longrightarrow> split_slash x = [x]"
  by (induction x) auto

lemma map_filter_append: "List.map_filter f (xs @ ys) = List.map_filter f xs @ List.map_filter f ys"
  by (simp add: List.map_filter_def)

lemma components_append:
  assumes "a \<noteq> []"
  shows "components (a @ CHR ''/'' # b) = components a @ List.map_filter body_component (split_slash b)"
proof -
  have "hd (split_slash a @ split_slash b) = hd (split_slash a)" by simp
  moreover have "starts_with (a @ CHR ''/'' # b) ''/'' = starts_with a ''/''"
    using assms by (cases a) (auto simp: starts_with_def)
  ultimately show ?thesis unfolding components_def split_slash_append map_filter_append by simp
qed

lemma join_plain:
  assumes x: "CHR ''/'' \<notin> set x" "x \<notin> {[], ''.'', ''..''}" and root: "root \<noteq> []"
  shows "components (path_join root x) = components root @ [NormalDir x]"
proof -
  have body: "List.map_filter body_component (split_slash x) = [NormalDir x]"
    using x by (simp add: split_slash_plain List.map_filter_def body_component_def)
  have rel: "\<not> starts_with x ''/''" using x by (cases x) (auto simp: starts_with_def)
  show ?thesis
  proof (cases "last root = CHR ''/''")
    case True
    then obtain a where a: "root = a @ ''/''" using root by (metis append_butlast_last_id)
    show ?thesis
    proof (cases "a = []")
      case True
      then show ?thesis
        using a rel body root x
        by (simp add: path_join_def components_def starts_with_def split_slash_plain List.map_filter_def body_component_def)
    next
      case False
      then show ?thesis
        using a rel body \<open>last root = CHR ''/''\<close> components_append [OF False, of x] components_append [OF False, of "[]"]
        by (simp add: path_join_def List.map_filter_def body_component_def)
    qed
  next
    case False
    then show ?thesis using rel body root components_append [OF root, of x] by (simp add: path_join_def)
  qed
qed

text \<open>A relative path has a component, and at most a leading \<open>.\<close>.\<close>

lemma components_nonempty:
  assumes "p \<noteq> []" "\<not> starts_with p ''/''"
  shows "filter (\<lambda>c. c \<noteq> CurDir) (components p) \<noteq> [] \<or> components p = [CurDir]"
proof -
  have first: "hd (split_slash p) \<noteq> []" using assms by (cases p) (auto simp: starts_with_def split: list.split)
  have body: "CurDir \<notin> set (List.map_filter body_component ps)" for ps
    by (auto simp: List.map_filter_def body_component_def split: if_splits)
  show ?thesis
  proof (cases "hd (split_slash p) = ''.''")
    case True
    then show ?thesis
      using assms(2) body [of "split_slash p"]
      by (cases "List.map_filter body_component (split_slash p)") (auto simp: components_def)
  next
    case False
    obtain q qs where "split_slash p = q # qs" by (metis list.exhaust split_slash_not_Nil)
    then have "components p = the (body_component q) # List.map_filter body_component qs" "body_component q \<noteq> None"
      using assms(2) False first by (auto simp: components_def List.map_filter_def body_component_def)
    moreover have "the (body_component q) \<noteq> CurDir" using calculation(2) by (auto simp: body_component_def split: if_splits)
    ultimately show ?thesis by simp
  qed
qed

lemma partial_path_neq:
  assumes "target \<noteq> []" "last target = NormalDir n"
  shows "partial_path target \<noteq> target"
proof
  assume "partial_path target = target"
  then have "last (partial_path target) = last target" by simp
  then have "''.'' @ n @ ''.partial'' = n" using assms by (simp add: partial_path_def)
  then have "length (''.'' @ n @ ''.partial'') = length n" by (rule arg_cong)
  then show False by simp
qed

lemma inbox_target_names:
  assumes "root \<noteq> []" "CHR ''/'' \<notin> set (dd_distribution_id doc)"
  shows "\<exists>names. names \<noteq> [] \<and> inbox_target root doc = components root @ map NormalDir names"
proof (cases "inbox_relpath (dd_blob_metadata doc)")
  case None
  let ?x = "dd_distribution_id doc @ ''.bin''"
  have "CHR ''/'' \<notin> set ?x" "?x \<notin> {[], ''.'', ''..''}"
    using assms(2) by (auto simp: append_eq_Cons_conv)
  then have "inbox_target root doc = components root @ map NormalDir [?x]"
    using None join_plain [OF _ _ assms(1)] by (simp add: inbox_target_def)
  then show ?thesis by blast
next
  case (Some names)
  then have "names \<noteq> []" by (auto simp: inbox_relpath_def split: option.splits if_splits)
  with Some show ?thesis by (auto simp: inbox_target_def)
qed

section \<open>Properties\<close>

text \<open>
  C13: Whatever name the sender chose, a received file lands below the inbox: its path is the inbox's
  followed by plain names, if the distribution id holds no slash.
\<close>

theorem inbox_confined:
  assumes "root \<noteq> []" "CHR ''/'' \<notin> set (dd_distribution_id doc)"
  shows "\<exists>names. names \<noteq> [] \<and> inbox_target root doc = components root @ map NormalDir names"
  using assms by (rule inbox_target_names)

definition sample_document :: "string option \<Rightarrow> string \<Rightarrow> distribution_document" where
  "sample_document name d = \<lparr>dd_distribution_id = d, dd_blob_size = 3,
     dd_blob_metadata = \<lparr>bm_name = name, bm_content_type = None\<rparr>\<rparr>"

theorem inbox_confined_witness:
  "\<exists>names. names \<noteq> [] \<and> inbox_target ''/in'' (sample_document (Some ''../../etc/passwd'') ''d1'')
     = components ''/in'' @ map NormalDir names"
  by (rule inbox_confined) (simp_all add: sample_document_def)

text \<open>A distribution id with parent components leads out of the inbox when there is no usable name.\<close>

lemma id_leaves_inbox:
  "inbox_target ''/in'' (sample_document None ''../x'') = [RootDir, NormalDir ''in'', ParentDir, NormalDir ''x.bin'']"
  by (simp add: inbox_target_def inbox_relpath_def sample_document_def path_join_def components_def starts_with_def
      body_component_def List.map_filter_def)

text \<open>
  C16: A delivery publishes the whole blob or nothing: whichever call fails and however much the copy
  wrote, the target holds what it held before or exactly the blob, it holds the blob when the
  delivery succeeds, and apart from the target only its \<open>.partial\<close> file changes.
\<close>

theorem deliver_atomic:
  assumes "root \<noteq> []" "CHR ''/'' \<notin> set (dd_distribution_id doc)" "length blob = unat (dd_blob_size doc)"
    and "inbox_deliver io root doc blob fs = (ok, fs')" "t = inbox_target root doc"
  shows "fs' t \<in> {fs t, Some blob} \<and> (ok \<longrightarrow> fs' t = Some blob \<and> already_delivered root doc fs')
    \<and> (\<forall>p. p \<notin> {t, partial_path t} \<longrightarrow> fs' p = fs p)"
proof -
  obtain names where names: "names \<noteq> []" "t = components root @ map NormalDir names"
    using inbox_target_names [OF assms(1,2)] assms(5) by blast
  then have "t \<noteq> []" "last t = NormalDir (last names)" by (simp_all add: last_map)
  then have neq: "partial_path t \<noteq> t" by (rule partial_path_neq)
  have "take (di_copied io) blob = blob" if "length (take (di_copied io) blob) = unat (dd_blob_size doc)"
    using that assms(3) by simp
  then show ?thesis
    using assms(3,4) neq unfolding inbox_deliver_def assms(5) [symmetric] Let_def
    by (auto simp: already_delivered_def assms(5) [symmetric] split: if_splits)
qed

theorem deliver_atomic_witness:
  "\<exists>fs'. inbox_deliver \<lparr>di_mkdir = True, di_created = True, di_copied = 2, di_copy_ok = True, di_stat = True, di_remove = True, di_rename = True\<rparr>
       ''/in'' (sample_document (Some ''a/f'') ''d1'') [1, 2, 3] Map.empty = (False, fs')
     \<and> fs' (inbox_target ''/in'' (sample_document (Some ''a/f'') ''d1'')) \<in> {None, Some [1, 2, 3]}"
proof -
  let ?io = "\<lparr>di_mkdir = True, di_created = True, di_copied = 2, di_copy_ok = True, di_stat = True, di_remove = True, di_rename = True\<rparr>"
  let ?doc = "sample_document (Some ''a/f'') ''d1''"
  obtain ok fs' where run: "inbox_deliver ?io ''/in'' ?doc [1, 2, 3] Map.empty = (ok, fs')" by fastforce
  have "\<not> ok" using run by (auto simp: inbox_deliver_def sample_document_def Let_def)
  moreover have "fs' (inbox_target ''/in'' ?doc) \<in> {Map.empty (inbox_target ''/in'' ?doc), Some [1, 2, 3]}"
    using deliver_atomic [OF _ _ _ run refl] by (simp add: sample_document_def)
  ultimately show ?thesis using run by (intro exI [of _ fs']) simp
qed

text \<open>A file of the same length counts as delivered whatever it holds.\<close>

lemma already_delivered_other_content:
  assumes "fs (inbox_target root doc) = Some old" "length old = unat (dd_blob_size doc)"
  shows "already_delivered root doc fs"
  using assms by (simp add: already_delivered_def)

text \<open>
  The inbox mirrors the sender's layout: a file accepted for sending without a display name
  lands at the same names below the inbox as it has below its root.
\<close>

lemma inbox_mirrors_outbox:
  assumes "file_accepted fs cfg i f v" "fp_display_name f = None" "components (fp_relative_path f) \<noteq> [CurDir]"
  shows "\<exists>names. names \<noteq> [] \<and> inbox_relpath (build_blob_metadata v) = Some names
    \<and> filter (\<lambda>c. c \<noteq> CurDir) (components (fp_relative_path f)) = map NormalDir names"
proof -
  let ?cs = "components (fp_relative_path f)"
  let ?name = "\<lambda>c. case c of NormalDir n \<Rightarrow> Some n | _ \<Rightarrow> None"
  have v: "vf_relative_path v = fp_relative_path f" "vf_display_name v = None"
    and path: "ParentDir \<notin> set ?cs" "RootDir \<notin> set ?cs" "fp_relative_path f \<noteq> []" "\<not> starts_with (fp_relative_path f) ''/''"
    using assms(1,2) unfolding file_accepted_def
    by (metis validated_file.select_convs(4), metis validated_file.select_convs(8), auto)
  have names: "normal_components ?cs = Some (List.map_filter ?name ?cs)" using path by (simp add: normal_components_eq)
  have eq: "filter (\<lambda>c. c \<noteq> CurDir) cs = map NormalDir (List.map_filter ?name cs)"
    if "ParentDir \<notin> set cs" "RootDir \<notin> set cs" for cs
    using that by (induction cs) (auto simp: List.map_filter_def split: path_component.splits)
  have "filter (\<lambda>c. c \<noteq> CurDir) ?cs \<noteq> []"
    using components_nonempty [OF path(3,4)] assms(3) by blast
  then have "List.map_filter ?name ?cs \<noteq> []" using eq [OF path(1,2)] by auto
  then show ?thesis
    using names v path(3) eq [OF path(1,2)] by (auto simp: inbox_relpath_def build_blob_metadata_def)
qed

lemma inbox_mirrors_outbox_witness:
  "\<exists>names. names \<noteq> [] \<and> inbox_relpath (build_blob_metadata (hd (vb_files sample_bundle))) = Some names
    \<and> filter (\<lambda>c. c \<noteq> CurDir) (components (fp_relative_path sample_spec)) = map NormalDir names"
  by (rule inbox_mirrors_outbox [OF sample_file_accepted])
    (simp_all add: sample_spec_def components_def starts_with_def body_component_def List.map_filter_def)

end
