(* ===== verification/Cli_Run.thy ===== *)
theory Cli_Run
  imports Cli_Commands Node_Peers Attachment_Inbox
begin

text \<open>
  The commands of the command line program on the mesh store (\<open>src/crates/peat-cli/src/cli/\<close>): \<open>create\<close>, \<open>update\<close> and
  \<open>delete\<close> with the writes they make, the polling of \<open>query\<close>, the loop of \<open>observe\<close>, the dialling of peers and the inbox of
  \<open>attach watch\<close>.  The store and the conversion
  to its documents belong to the mesh library and are the parameters \<open>cli_store\<close>; joining the mesh either
  fails with an error or gives the store.
\<close>

section \<open>Environment\<close>

record ('n, 'd, 'c, 's) cli_store =
  cl_get :: "string \<Rightarrow> 's \<Rightarrow> 'd option option"
  cl_put :: "string \<Rightarrow> 'd \<Rightarrow> 's \<Rightarrow> bool \<times> 's"
  cl_diff :: "'d \<Rightarrow> 'd \<Rightarrow> 'c"
  cl_apply_delta :: "string \<Rightarrow> 'c \<Rightarrow> 's \<Rightarrow> bool \<times> 's"
  cl_scan_prefix :: "string \<Rightarrow> 's \<Rightarrow> (string \<times> 'd) list option"
  cl_to_automerge :: "'n json \<Rightarrow> 'd option \<Rightarrow> 'd option"
  cl_of_automerge :: "'d \<Rightarrow> 'n json"

text \<open>A command ends with a plan that it only prints, or with the key it wrote.\<close>

datatype 'n cli_outcome = Planned string string "'n json" | Wrote string

section \<open>Create and update\<close>

definition cli_create ::
  "('n, 'd, 'c, 's) cli_store \<Rightarrow> 'n numbers \<Rightarrow> 'n schema_registry \<Rightarrow> string \<Rightarrow> bool \<Rightarrow> bool \<Rightarrow> string
    \<Rightarrow> (cli_error + 'n json) option \<Rightarrow> string list \<Rightarrow> cli_error option \<Rightarrow> 's \<Rightarrow> (cli_error + 'n cli_outcome) \<times> 's" where
  "cli_create st nums reg uuid no_validate dry_run target from_doc sets join_error s =
     (case prepare_create nums reg uuid no_validate target from_doc sets of
        Inl e \<Rightarrow> (Inl e, s)
      | Inr (key, json) \<Rightarrow>
          if dry_run then (Inr (Planned ''create'' key json), s)
          else case join_error of
            Some e \<Rightarrow> (Inl e, s)
          | None \<Rightarrow>
              (case cl_get st key s of
                 None \<Rightarrow> (Inl Generic, s)
               | Some (Some _) \<Rightarrow> (Inl Malformed, s)
               | Some None \<Rightarrow>
                   (case cl_to_automerge st json None of
                      None \<Rightarrow> (Inl Generic, s)
                    | Some doc \<Rightarrow>
                        (case cl_put st key doc s of
                           (ok, s') \<Rightarrow> (if ok then Inr (Wrote key) else Inl Generic, s')))))"

text \<open>What \<open>update\<close> reads before it builds the document: the store is there only once the mesh is joined.\<close>

definition cli_existing ::
  "('n, 'd, 'c, 's) cli_store \<Rightarrow> cli_error option \<Rightarrow> 's \<Rightarrow> string \<Rightarrow> cli_error + 'd option" where
  "cli_existing st join_error s key =
     (case join_error of
        Some e \<Rightarrow> Inl e
      | None \<Rightarrow> (case cl_get st key s of None \<Rightarrow> Inl Generic | Some d \<Rightarrow> Inr d))"

text \<open>An existing document is evolved by the difference alone; a missing one is put.\<close>

definition update_write ::
  "('n, 'd, 'c, 's) cli_store \<Rightarrow> string \<Rightarrow> 'd option \<Rightarrow> 'n json \<Rightarrow> 's \<Rightarrow> (cli_error + 'n cli_outcome) \<times> 's" where
  "update_write st key existing json s =
     (case cl_to_automerge st json existing of
        None \<Rightarrow> (Inl Generic, s)
      | Some doc \<Rightarrow>
          (case (case existing of
                   Some current \<Rightarrow> cl_apply_delta st key (cl_diff st current doc) s
                 | None \<Rightarrow> cl_put st key doc s) of
             (ok, s') \<Rightarrow> (if ok then Inr (Wrote key) else Inl Generic, s')))"

definition cli_update ::
  "('n, 'd, 'c, 's) cli_store \<Rightarrow> 'n numbers \<Rightarrow> 'n schema_registry \<Rightarrow> bool \<Rightarrow> bool \<Rightarrow> string
    \<Rightarrow> (cli_error + 'n json) option \<Rightarrow> string list \<Rightarrow> cli_error option \<Rightarrow> 's \<Rightarrow> (cli_error + 'n cli_outcome) \<times> 's" where
  "cli_update st nums reg no_validate dry_run target from_doc sets join_error s =
     (case prepare_update nums reg no_validate target from_doc sets
             (\<lambda>key. case cli_existing st join_error s key of
                Inl e \<Rightarrow> Inl e | Inr d \<Rightarrow> Inr (map_option (cl_of_automerge st) d)) of
        Inl e \<Rightarrow> (Inl e, s)
      | Inr (key, json) \<Rightarrow>
          (case cli_existing st join_error s key of
             Inl e \<Rightarrow> (Inl e, s)
           | Inr existing \<Rightarrow>
               if dry_run
               then (Inr (Planned (if existing \<noteq> None then ''update'' else ''create-via-update'') key json), s)
               else update_write st key existing json s))"

section \<open>Delete\<close>

record tombstone =
  tb_doc_id :: string
  tb_collection :: string
  tb_node :: string
  tb_lamport :: u64

text \<open>The local clock is claimed and advanced; the tombstone is sent to every connected peer, failures aside.\<close>

definition cli_delete ::
  "(tombstone \<Rightarrow> 's \<Rightarrow> bool \<times> 's) \<Rightarrow> (string \<Rightarrow> bool) \<Rightarrow> string \<Rightarrow> string list \<Rightarrow> bool \<Rightarrow> string \<Rightarrow> cli_error option
    \<Rightarrow> u64 \<Rightarrow> 's \<Rightarrow> (cli_error + string list \<times> string list) \<times> 's" where
  "cli_delete put_tombstone send_ok node_id peers wait_for_sync target join_error lamport s =
     (case parse_target target of
        Inl e \<Rightarrow> (Inl e, s)
      | Inr (coll, None) \<Rightarrow> (Inl Malformed, s)
      | Inr (coll, Some doc_id) \<Rightarrow>
          (case join_error of
             Some e \<Rightarrow> (Inl e, s)
           | None \<Rightarrow>
               (case put_tombstone
                       \<lparr>tb_doc_id = doc_id, tb_collection = coll, tb_node = node_id, tb_lamport = lamport\<rparr> s of
                  (False, s') \<Rightarrow> (Inl Generic, s')
                | (True, s') \<Rightarrow> (Inr (peers, if wait_for_sync then filter send_ok peers else []), s'))))"

section \<open>Query\<close>

datatype query_scope = SingleScope string "string option" | AllScope

definition truncate :: "nat option \<Rightarrow> 'a list \<Rightarrow> 'a list" where
  "truncate limit xs = (case limit of Some n \<Rightarrow> take n xs | None \<Rightarrow> xs)"

fun query_once ::
  "('n, 'd, 'c, 's) cli_store \<Rightarrow> nat option \<Rightarrow> query_scope \<Rightarrow> 's \<Rightarrow> cli_error + (string \<times> 'd) list" where
  "query_once st limit (SingleScope coll (Some i)) s =
     (let key = coll @ '':'' @ i
      in case cl_get st key s of
           None \<Rightarrow> Inl Generic
         | Some (Some doc) \<Rightarrow> Inr [(key, doc)]
         | Some None \<Rightarrow> Inr [])"
| "query_once st limit (SingleScope coll None) s =
     (case cl_scan_prefix st (coll @ '':'') s of None \<Rightarrow> Inl Generic | Some es \<Rightarrow> Inr (truncate limit es))"
| "query_once st limit AllScope s =
     (case cl_scan_prefix st [] s of None \<Rightarrow> Inl Generic | Some es \<Rightarrow> Inr (truncate limit es))"

text \<open>
  The polls of a query: the store at each and whether the deadline has passed by then.  The value
  is None while the polls so far have not ended it.
\<close>

fun query_loop ::
  "('n, 'd, 'c, 's) cli_store \<Rightarrow> nat option \<Rightarrow> query_scope \<Rightarrow> ('s \<times> bool) list
    \<Rightarrow> (cli_error + (string \<times> 'd) list) option" where
  "query_loop st limit scope [] = None"
| "query_loop st limit scope ((s, past) # polls) =
     (case query_once st limit scope s of
        Inl e \<Rightarrow> Some (Inl e)
      | Inr docs \<Rightarrow> if docs \<noteq> [] \<or> past then Some (Inr docs) else query_loop st limit scope polls)"

section \<open>Observe\<close>

definition MAX_DEDUP_KEYS :: nat where
  "MAX_DEDUP_KEYS = 10000"

datatype 'd observe_frame = ObsUpsert string 'd | ObsDeleted string

text \<open>\<open>ObsKey\<close> carries what the store answers when the changed key is read: an error, no document or one.\<close>

datatype 'd observe_event = ObsKey string "'d option option" | ObsLagged u64 | ObsClosed | ObsSigint

record 'd observe_state =
  os_seen :: "(string \<times> u64) list"
  os_out :: "'d observe_frame list"

definition key_observed :: "string option \<Rightarrow> string \<Rightarrow> string \<Rightarrow> bool" where
  "key_observed target_key pre key = (case target_key of Some t \<Rightarrow> key = t | None \<Rightarrow> starts_with key pre)"

definition observe_key ::
  "('d \<Rightarrow> u64) \<Rightarrow> string \<Rightarrow> 'd option option \<Rightarrow> (string \<times> u64) list \<Rightarrow> (string \<times> u64) list \<times> 'd observe_frame option" where
  "observe_key digest key answer seen =
     (case answer of
        Some (Some d) \<Rightarrow>
          if map_of seen key = Some (digest d) then (seen, None)
          else (AList.update key (digest d) (if length seen \<ge> MAX_DEDUP_KEYS then [] else seen), Some (ObsUpsert key d))
      | Some None \<Rightarrow> (AList.delete key seen, Some (ObsDeleted key))
      | None \<Rightarrow> (seen, None))"

text \<open>The loop; \<open>render\<close> is the error of printing a frame, if any.  None: the loop waits for the next event.\<close>

fun observe_loop ::
  "('d \<Rightarrow> u64) \<Rightarrow> ('d observe_frame \<Rightarrow> cli_error option) \<Rightarrow> string option \<Rightarrow> string \<Rightarrow> 'd observe_event list \<Rightarrow> 'd observe_state
    \<Rightarrow> (cli_error + unit) option \<times> 'd observe_state" where
  "observe_loop digest render target_key pre [] st = (None, st)"
| "observe_loop digest render target_key pre (ObsSigint # es) st = (Some (Inl Interrupted), st)"
| "observe_loop digest render target_key pre (ObsClosed # es) st = (Some (Inr ()), st)"
| "observe_loop digest render target_key pre (ObsLagged n # es) st = observe_loop digest render target_key pre es st"
| "observe_loop digest render target_key pre (ObsKey key answer # es) st =
     (if \<not> key_observed target_key pre key then observe_loop digest render target_key pre es st
      else case observe_key digest key answer (os_seen st) of
        (seen, None) \<Rightarrow> observe_loop digest render target_key pre es (st\<lparr>os_seen := seen\<rparr>)
      | (seen, Some frame) \<Rightarrow>
          (case render frame of
             Some e \<Rightarrow> (Some (Inl e), st\<lparr>os_seen := seen\<rparr>)
           | None \<Rightarrow> observe_loop digest render target_key pre es (st\<lparr>os_seen := seen, os_out := os_out st @ [frame]\<rparr>)))"

definition observe_scope :: "string option \<Rightarrow> cli_error + string option \<times> string" where
  "observe_scope target =
     (case target of
        None \<Rightarrow> Inr (None, [])
      | Some t \<Rightarrow>
          (case parse_target t of
             Inl e \<Rightarrow> Inl e
           | Inr (coll, d) \<Rightarrow> Inr (map_option (\<lambda>i. coll @ '':'' @ i) d, coll @ '':'')))"

section \<open>Dialling peers\<close>

datatype attempt_result = AttemptOk | AttemptError string | AttemptTimeout

text \<open>As the node does, with three attempts, each of them bounded; \<open>timeout\<close> is the bound as it is printed.\<close>

function cli_connect_loop :: "string \<Rightarrow> string \<Rightarrow> (nat \<Rightarrow> attempt_result) \<Rightarrow> nat \<Rightarrow> string + unit" where
  "cli_connect_loop peer timeout attempts attempt =
     (case attempts attempt of
        AttemptOk \<Rightarrow> Inr ()
      | AttemptError e \<Rightarrow>
          if attempt < CONNECT_RETRY_ATTEMPTS then cli_connect_loop peer timeout attempts (Suc attempt)
          else Inl (''connect/auth to `'' @ peer @ ''` failed after '' @ show_nat attempt @ '' attempts: '' @ e)
      | AttemptTimeout \<Rightarrow>
          if attempt < CONNECT_RETRY_ATTEMPTS then cli_connect_loop peer timeout attempts (Suc attempt)
          else Inl (''connect to `'' @ peer @ ''` timed out after '' @ timeout @ '' (attempt '' @ show_nat attempt @ '')''))"
  by pat_completeness auto

termination
  by (relation "measure (\<lambda>(_, _, _, k). CONNECT_RETRY_ATTEMPTS - k)") auto

declare cli_connect_loop.simps [simp del]

text \<open>Only IPv4 addresses are used.  The text of a malformed specification is left out.\<close>

definition cli_connect_peer ::
  "('i, 'a) dial_env \<Rightarrow> ('a \<Rightarrow> bool) \<Rightarrow> string \<Rightarrow> (nat \<Rightarrow> attempt_result) \<Rightarrow> string \<Rightarrow> 'i set \<Rightarrow> (cli_error \<times> string + unit) \<times> 'i set" where
  "cli_connect_peer env is_ipv4 timeout attempts spec live =
     (case parse_peer_spec (de_parse_id env) spec of
        Inl e \<Rightarrow> (Inl (e, []), live)
      | Inr (peer_id, addr) \<Rightarrow>
          (case de_lookup env addr of
             Inl e \<Rightarrow> (Inl (Generic, ''resolve `'' @ addr @ ''` for peer `'' @ de_show_id env peer_id @ ''`: '' @ e), live)
           | Inr socks \<Rightarrow>
               if filter is_ipv4 socks = []
               then (Inl (Generic, ''no IPv4 addresses resolved for `'' @ addr @ ''` (got only IPv6 candidates?)''), live)
               else case cli_connect_loop (de_show_id env peer_id) timeout attempts 1 of
                 Inl e \<Rightarrow> (Inl (Generic, e), live)
               | Inr _ \<Rightarrow> (Inr (), insert peer_id live)))"

definition cli_mdns_turn ::
  "('i, 'a) dial_env \<Rightarrow> ('a \<Rightarrow> bool) \<Rightarrow> string \<Rightarrow> (string \<Rightarrow> nat \<Rightarrow> attempt_result) \<Rightarrow> string \<Rightarrow> string \<Rightarrow> discovered
    \<Rightarrow> string set \<times> 'i set \<Rightarrow> string set \<times> 'i set" where
  "cli_mdns_turn env is_ipv4 timeout attempts our_id formation_id p s =
     mdns_turn
       (\<lambda>a live. case cli_connect_peer env is_ipv4 timeout (attempts a) (di_node_id p @ ''@'' @ a) live of
          (Inl (_, e), live') \<Rightarrow> (Inl e, live') | (Inr _, live') \<Rightarrow> (Inr (), live'))
       (\<lambda>live. de_show_id env ` live) our_id formation_id p s"

section \<open>The inbox of \<open>attach watch\<close>\<close>

record cli_inbox_sink =
  ik_root :: string
  ik_signal :: "string option"

text \<open>The node's delivery, and a signal for the distribution that is waited for.\<close>

definition cli_deliver ::
  "deliver_io \<Rightarrow> cli_inbox_sink \<Rightarrow> distribution_document \<Rightarrow> bytes \<Rightarrow> inbox_fs \<Rightarrow> bool \<times> bool \<times> inbox_fs" where
  "cli_deliver io sink doc blob fs =
     (case inbox_deliver io (ik_root sink) doc blob fs of
        (ok, fs') \<Rightarrow> (ok, ok \<and> ik_signal sink = Some (dd_distribution_id doc), fs'))"

section \<open>The process\<close>

definition main_exit :: "cli_error + unit \<Rightarrow> 8 word" where
  "main_exit r =
     (case r of Inr _ \<Rightarrow> 0 | Inl BrokenPipe \<Rightarrow> 0 | Inl Interrupted \<Rightarrow> 130 | Inl e \<Rightarrow> exit_code e)"

text \<open>A store and a registry with one type, for witnesses.\<close>

definition sample_cli_store :: "(int, int json, int json, (string \<times> int json) list) cli_store" where
  "sample_cli_store =
     \<lparr>cl_get = (\<lambda>k s. Some (map_of s k)), cl_put = (\<lambda>k d s. (True, AList.update k d s)), cl_diff = (\<lambda>_ d. d),
      cl_apply_delta = (\<lambda>k d s. (True, AList.update k d s)),
      cl_scan_prefix = (\<lambda>p s. Some (filter (\<lambda>(k, _). starts_with k p) s)),
      cl_to_automerge = (\<lambda>v _. Some v), cl_of_automerge = (\<lambda>d. d)\<rparr>"

definition sample_registry :: "int schema_registry" where
  "sample_registry coll =
     (if coll = ''cells''
      then Some \<lparr>st_zero = JObject [(''count'', JNumber 0)], st_valid = (\<lambda>v. json_get ''id'' v \<noteq> None)\<rparr> else None)"

section \<open>Create and update are careful\<close>

lemma cli_create_Wrote:
  "cli_create st nums reg uuid nv dry target from_doc sets je s = (Inr (Wrote key), s') \<longleftrightarrow>
    (\<exists>json doc. prepare_create nums reg uuid nv target from_doc sets = Inr (key, json) \<and> \<not> dry \<and> je = None
      \<and> cl_get st key s = Some None \<and> cl_to_automerge st json None = Some doc \<and> cl_put st key doc s = (True, s'))"
  by (auto simp: cli_create_def split: sum.splits option.splits prod.splits if_splits)

text \<open>A dry run, and every error before the write, leaves the store as it was.\<close>

lemma dry_run_writes_nothing:
  "snd (cli_create st nums reg uuid nv True target from_doc sets je s) = s"
  "snd (cli_update st nums reg nv True target from_doc sets je s) = s"
  by (auto simp: cli_create_def cli_update_def split: sum.splits option.splits)

lemma update_evolves:
  assumes "update_write st key (Some current) json s = (Inr (Wrote k), s')"
  shows "\<exists>doc. cl_to_automerge st json (Some current) = Some doc \<and> cl_apply_delta st key (cl_diff st current doc) s = (True, s')"
  using assms by (auto simp: update_write_def split: option.splits prod.splits if_splits)



section \<open>Query answers\<close>

text \<open>
  A query answers by its deadline: a list of polls of which one is past the deadline ends it, and the
  answer is that of the first poll that fails, finds something, or is past the deadline.
\<close>

lemma query_answers:
  assumes "(s, True) \<in> set polls"
  shows "\<exists>r. query_loop st limit scope polls = Some r \<and> (\<exists>s'. s' \<in> fst ` set polls \<and> query_once st limit scope s' = r)"
  using assms
proof (induction polls)
  case (Cons q polls)
  obtain s1 past where q: "q = (s1, past)" by (cases q)
  show ?case
  proof (cases "query_once st limit scope s1")
    case (Inr docs)
    show ?thesis
    proof (cases "docs \<noteq> [] \<or> past")
      case False
      then have "(s, True) \<in> set polls" using Cons.prems q by auto
      from Cons.IH [OF this] show ?thesis using False Inr q by auto
    qed (use Inr q in auto)
  qed (use q in auto)
qed simp

section \<open>Observe misses nothing\<close>

fun frame_key :: "'d observe_frame \<Rightarrow> string" where
  "frame_key (ObsUpsert k _) = k"
| "frame_key (ObsDeleted k) = k"

text \<open>The last frame printed for a key.\<close>

definition last_frame :: "string \<Rightarrow> 'd observe_frame list \<Rightarrow> 'd observe_frame option" where
  "last_frame key out = find (\<lambda>f. frame_key f = key) (rev out)"

definition seen_inv :: "('d \<Rightarrow> u64) \<Rightarrow> 'd observe_state \<Rightarrow> bool" where
  "seen_inv digest st \<longleftrightarrow> length (os_seen st) \<le> MAX_DEDUP_KEYS
    \<and> (\<forall>k h. map_of (os_seen st) k = Some h \<longrightarrow> (\<exists>d. last_frame k (os_out st) = Some (ObsUpsert k d) \<and> digest d = h))"

lemma last_frame_snoc: "last_frame k (out @ [f]) = (if frame_key f = k then Some f else last_frame k out)"
  by (simp add: last_frame_def)

lemma length_update_le: "length (AList.update k v xs) \<le> Suc (length xs)"
  by (induction xs) auto

lemma length_AList_delete_le: "length (AList.delete k xs) \<le> length xs"
  by (simp add: AList.delete_eq)

lemma observe_key_inv:
  assumes "seen_inv digest st" and "observe_key digest key answer (os_seen st) = (seen, f)"
  shows "seen_inv digest (st\<lparr>os_seen := seen, os_out := os_out st @ (case f of Some x \<Rightarrow> [x] | None \<Rightarrow> [])\<rparr>)"
proof (cases answer)
  case (Some a)
  show ?thesis
  proof (cases a)
    case None
    have "length (AList.delete key (os_seen st)) \<le> MAX_DEDUP_KEYS"
      using assms(1) length_AList_delete_le [of key "os_seen st"] by (simp add: seen_inv_def)
    then show ?thesis
      using assms Some None by (auto simp: seen_inv_def observe_key_def last_frame_snoc delete_conv')
  next
    case a: (Some d)
    let ?base = "if length (os_seen st) \<ge> MAX_DEDUP_KEYS then [] else os_seen st"
    have "length (AList.update key (digest d) ?base) \<le> MAX_DEDUP_KEYS"
      using length_update_le [of key "digest d" ?base] by (auto simp: MAX_DEDUP_KEYS_def)
    then show ?thesis
      using assms Some a
      by (auto simp: seen_inv_def observe_key_def last_frame_snoc map_of_AList_update split: if_splits)
  qed
qed (use assms in \<open>auto simp: observe_key_def seen_inv_def\<close>)

lemma observe_loop_inv:
  "observe_loop digest render tk pre es st = (None, st') \<Longrightarrow> seen_inv digest st \<Longrightarrow> seen_inv digest st'"
proof (induction digest render tk pre es st rule: observe_loop.induct)
  case (5 digest render tk pre key answer es st)
  obtain seen f where k: "observe_key digest key answer (os_seen st) = (seen, f)" by fastforce
  note inv = observe_key_inv [OF "5.prems"(2) k]
  show ?case
    using 5 k inv by (cases f) (auto split: if_splits option.splits)
qed auto

text \<open>
  C25: \<open>observe\<close> misses no change and its memory is bounded.  After any run that is still going, it remembers at
  most \<open>MAX_DEDUP_KEYS\<close> keys, and whatever was forgotten: an observed document whose digest differs from
  that of the last frame printed for its key is printed, a deletion is always printed, and the
  same state a second time in a row is not.
\<close>

theorem observe_misses_nothing:
  assumes "observe_loop digest render tk pre es \<lparr>os_seen = [], os_out = []\<rparr> = (None, st)"
    and "key_observed tk pre key" and "\<And>f. render f = None"
  shows "length (os_seen st) \<le> MAX_DEDUP_KEYS
    \<and> ((\<forall>d'. last_frame key (os_out st) = Some (ObsUpsert key d') \<longrightarrow> digest d' \<noteq> digest d) \<longrightarrow>
        os_out (snd (observe_loop digest render tk pre [ObsKey key (Some (Some d))] st)) = os_out st @ [ObsUpsert key d])
    \<and> os_out (snd (observe_loop digest render tk pre [ObsKey key (Some None)] st)) = os_out st @ [ObsDeleted key]
    \<and> os_out (snd (observe_loop digest render tk pre [ObsKey key (Some (Some d)), ObsKey key (Some (Some d))] st))
       = os_out (snd (observe_loop digest render tk pre [ObsKey key (Some (Some d))] st))"
proof -
  have inv: "seen_inv digest st"
    by (rule observe_loop_inv [OF assms(1)]) (simp add: seen_inv_def)
  have "map_of (os_seen st) key \<noteq> Some (digest d)"
    if "\<forall>d'. last_frame key (os_out st) = Some (ObsUpsert key d') \<longrightarrow> digest d' \<noteq> digest d"
    using inv that unfolding seen_inv_def by blast
  then show ?thesis
    using inv assms(2,3) by (auto simp: seen_inv_def observe_key_def map_of_AList_update)
qed

theorem observe_misses_nothing_witness:
  "\<exists>st. observe_loop (\<lambda>n. n) (\<lambda>_. None) None ''c:'' [ObsKey ''c:a'' (Some (Some 1)), ObsLagged 3, ObsKey ''d:a'' (Some (Some 2))]
      \<lparr>os_seen = [], os_out = []\<rparr> = (None, st)
    \<and> os_out (snd (observe_loop (\<lambda>n. n) (\<lambda>_. None) None ''c:'' [ObsKey ''c:a'' (Some (Some 5))] st))
       = [ObsUpsert ''c:a'' 1, ObsUpsert ''c:a'' 5]"
proof -
  have run: "observe_loop (\<lambda>n. n) (\<lambda>_. None) None ''c:'' [ObsKey ''c:a'' (Some (Some 1)), ObsLagged 3, ObsKey ''d:a'' (Some (Some 2))]
      \<lparr>os_seen = [], os_out = []\<rparr> = (None, \<lparr>os_seen = [(''c:a'', 1)], os_out = [ObsUpsert ''c:a'' 1]\<rparr>)"
    by (simp add: key_observed_def starts_with_def observe_key_def MAX_DEDUP_KEYS_def)
  have "key_observed None ''c:'' ''c:a''" by code_simp
  then show ?thesis
    using run observe_misses_nothing [OF run, of "''c:a''" 5] by (simp add: last_frame_def del: observe_loop.simps)
qed

section \<open>Dialling and waiting\<close>

text \<open>Three attempts are made at most: with three failures the dial fails whatever would come later.\<close>

lemma cli_connect_three:
  "cli_connect_loop peer timeout attempts 1 = Inr () \<longleftrightarrow> attempts 1 = AttemptOk \<or> attempts 2 = AttemptOk \<or> attempts 3 = AttemptOk"
proof -
  have "cli_connect_loop peer timeout attempts 3 = Inr () \<longleftrightarrow> attempts 3 = AttemptOk"
    by (subst cli_connect_loop.simps) (simp add: CONNECT_RETRY_ATTEMPTS_def split: attempt_result.split)
  moreover have "cli_connect_loop peer timeout attempts 2 = Inr () \<longleftrightarrow>
      attempts 2 = AttemptOk \<or> cli_connect_loop peer timeout attempts 3 = Inr ()"
    by (subst cli_connect_loop.simps) (simp add: CONNECT_RETRY_ATTEMPTS_def split: attempt_result.split)
  moreover have "cli_connect_loop peer timeout attempts 1 = Inr () \<longleftrightarrow>
      attempts 1 = AttemptOk \<or> cli_connect_loop peer timeout attempts 2 = Inr ()"
    by (subst cli_connect_loop.simps) (simp add: CONNECT_RETRY_ATTEMPTS_def numeral_2_eq_2 split: attempt_result.split)
  ultimately show ?thesis by blast
qed

text \<open>The signal means that the file is in place with the declared size.\<close>

lemma signal_means_delivered:
  assumes "cli_deliver io sink doc blob fs = (ok, True, fs')"
  shows "already_delivered (ik_root sink) doc fs' \<and> ik_signal sink = Some (dd_distribution_id doc)"
  using assms
  by (auto simp: cli_deliver_def inbox_deliver_def already_delivered_def Let_def split: if_splits prod.splits)

end
