(* ===== verification/Attachment_Registry.thy ===== *)
theory Attachment_Registry
  imports Attachment_Validate
begin

text \<open>
  The bundle handle table (\<open>src/src/attachments/registry.rs\<close>): bundles by id with a reverse index from
  distribution ids, resubmission, eviction by age and by least recent use.  It refines a plain map
  of bundles that has no index.  Hash maps are association lists, whose order stands for the
  iteration order; times are integers.  A distribution handle is its distribution id.
\<close>

section \<open>Records\<close>

record file_identity =
  fi_root_name :: string
  fi_relative_path :: string
  fi_size_bytes :: u64
  fi_sha256 :: bytes

type_synonym bundle_identity = "file_identity list"

definition identity_from_validated :: "validated_file \<Rightarrow> file_identity" where
  "identity_from_validated v = \<lparr>fi_root_name = vf_root_name v, fi_relative_path = vf_relative_path v,
     fi_size_bytes = vf_size_bytes v, fi_sha256 = vf_sha256 v\<rparr>"

record handle_record =
  hr_file_index :: nat
  hr_blob_token_hash :: string
  hr_distribution_id :: string
  hr_content_type :: "string option"
  hr_display_name :: "string option"

datatype bundle_status =
    BundlePending | BundleInProgress | BundleCompleted | BundlePartial | BundleFailed | BundleCancelled

fun bundle_is_terminal :: "bundle_status \<Rightarrow> bool" where
  "bundle_is_terminal BundlePending = False"
| "bundle_is_terminal BundleInProgress = False"
| "bundle_is_terminal _ = True"

fun allows_reuse :: "bundle_status \<Rightarrow> bool" where
  "allows_reuse BundleFailed = True"
| "allows_reuse BundleCancelled = True"
| "allows_reuse _ = False"

record bundle_record =
  bn_bundle_id :: string
  bn_identity :: bundle_identity
  bn_handles :: "handle_record list"
  bn_status :: bundle_status
  bn_created_at :: int
  bn_last_touched_at :: int

definition bundle_record_new :: "string \<Rightarrow> bundle_identity \<Rightarrow> handle_record list \<Rightarrow> int \<Rightarrow> bundle_record" where
  "bundle_record_new b ident hs now = \<lparr>bn_bundle_id = b, bn_identity = ident, bn_handles = hs,
     bn_status = BundlePending, bn_created_at = now, bn_last_touched_at = now\<rparr>"

datatype bundle_lookup = Idempotent bundle_record | Conflict int | LookupNotFound

record registry =
  rg_bundles :: "(string \<times> bundle_record) list"
  rg_index :: "(string \<times> string) list"
  rg_retention :: nat
  rg_max_known :: nat

definition registry_new :: "nat \<Rightarrow> nat \<Rightarrow> registry" where
  "registry_new retention max_known = \<lparr>rg_bundles = [], rg_index = [], rg_retention = retention, rg_max_known = max_known\<rparr>"

definition distribution_ids :: "bundle_record \<Rightarrow> string list" where
  "distribution_ids rec = map hr_distribution_id (bn_handles rec)"

section \<open>Operations\<close>

definition drop_record_indexes_only :: "bundle_record \<Rightarrow> registry \<Rightarrow> registry" where
  "drop_record_indexes_only rec r = r\<lparr>rg_index := fold AList.delete (distribution_ids rec) (rg_index r)\<rparr>"

definition drop_record :: "bundle_record \<Rightarrow> registry \<Rightarrow> registry" where
  "drop_record rec r = drop_record_indexes_only rec (r\<lparr>rg_bundles := AList.delete (bn_bundle_id rec) (rg_bundles r)\<rparr>)"

definition set_record :: "string \<Rightarrow> bundle_record \<Rightarrow> registry \<Rightarrow> registry" where
  "set_record b rec r = r\<lparr>rg_bundles := AList.update b rec (rg_bundles r)\<rparr>"

text \<open>The probe under the read lock; \<open>None\<close> goes on to the write lock.\<close>

definition resubmit_probe :: "string \<Rightarrow> bundle_identity \<Rightarrow> registry \<Rightarrow> bundle_lookup option" where
  "resubmit_probe b ident r =
     (case map_of (rg_bundles r) b of
        None \<Rightarrow> Some LookupNotFound
      | Some rec \<Rightarrow>
          if \<not> allows_reuse (bn_status rec) \<and> bn_identity rec \<noteq> ident then Some (Conflict (bn_created_at rec)) else None)"

definition resubmit_commit :: "string \<Rightarrow> bundle_identity \<Rightarrow> int \<Rightarrow> registry \<Rightarrow> bundle_lookup \<times> registry" where
  "resubmit_commit b ident now r =
     (case map_of (rg_bundles r) b of
        None \<Rightarrow> (LookupNotFound, r)
      | Some rec \<Rightarrow>
          if allows_reuse (bn_status rec) then (LookupNotFound, drop_record rec r)
          else if bn_identity rec = ident
          then let rec' = rec\<lparr>bn_last_touched_at := now\<rparr> in (Idempotent rec', set_record b rec' r)
          else (Conflict (bn_created_at rec), r))"

definition check_resubmit :: "string \<Rightarrow> bundle_identity \<Rightarrow> int \<Rightarrow> registry \<Rightarrow> bundle_lookup \<times> registry" where
  "check_resubmit b ident now r =
     (case resubmit_probe b ident r of Some l \<Rightarrow> (l, r) | None \<Rightarrow> resubmit_commit b ident now r)"

text \<open>\<open>min_by_key\<close>: the first of the least.\<close>

fun min_touched :: "bundle_record list \<Rightarrow> bundle_record option" where
  "min_touched [] = None"
| "min_touched (x # xs) =
     (case min_touched xs of
        None \<Rightarrow> Some x
      | Some y \<Rightarrow> if bn_last_touched_at x \<le> bn_last_touched_at y then Some x else Some y)"

definition evict_lru :: "registry \<Rightarrow> registry" where
  "evict_lru r = (case min_touched (map snd (rg_bundles r)) of None \<Rightarrow> r | Some rec \<Rightarrow> drop_record rec r)"

definition registry_insert :: "bundle_record \<Rightarrow> registry \<Rightarrow> registry" where
  "registry_insert rec r =
     (let r1 = (case map_of (rg_bundles r) (bn_bundle_id rec) of
            None \<Rightarrow> r
          | Some prior \<Rightarrow>
              drop_record_indexes_only prior (r\<lparr>rg_bundles := AList.delete (bn_bundle_id rec) (rg_bundles r)\<rparr>));
          r2 = (if rg_max_known r > 0 \<and> length (rg_bundles r1) \<ge> rg_max_known r then evict_lru r1 else r1);
          r3 = r2\<lparr>rg_index := fold (\<lambda>d. AList.update d (bn_bundle_id rec)) (distribution_ids rec) (rg_index r2)\<rparr>
      in set_record (bn_bundle_id rec) rec r3)"

definition registry_get :: "string \<Rightarrow> int \<Rightarrow> registry \<Rightarrow> bundle_record option \<times> registry" where
  "registry_get b now r =
     (case map_of (rg_bundles r) b of
        None \<Rightarrow> (None, r)
      | Some rec \<Rightarrow> let rec' = rec\<lparr>bn_last_touched_at := now\<rparr> in (Some rec', set_record b rec' r))"

definition lookup_distribution :: "string \<Rightarrow> registry \<Rightarrow> (string \<times> bundle_record) option" where
  "lookup_distribution d r =
     (case map_of (rg_index r) d of
        None \<Rightarrow> None
      | Some b \<Rightarrow> map_option (Pair b) (map_of (rg_bundles r) b))"

definition update_status :: "string \<Rightarrow> bundle_status \<Rightarrow> int \<Rightarrow> registry \<Rightarrow> registry" where
  "update_status b status now r =
     (case map_of (rg_bundles r) b of
        None \<Rightarrow> r
      | Some rec \<Rightarrow> set_record b (rec\<lparr>bn_status := status, bn_last_touched_at := now\<rparr>) r)"

definition expired :: "nat \<Rightarrow> int \<Rightarrow> bundle_record \<Rightarrow> bool" where
  "expired retention now rec \<longleftrightarrow> bundle_is_terminal (bn_status rec) \<and> bn_last_touched_at rec < now - int retention"

definition evict_expired :: "int \<Rightarrow> registry \<Rightarrow> registry" where
  "evict_expired now r =
     (if rg_retention r = 0 then r
      else fold drop_record (filter (expired (rg_retention r) now) (map snd (rg_bundles r))) r)"

definition non_terminal_count :: "registry \<Rightarrow> nat" where
  "non_terminal_count r = length (filter (\<lambda>rec. \<not> bundle_is_terminal (bn_status rec)) (map snd (rg_bundles r)))"

section \<open>The abstract table\<close>

type_synonym table = "string \<rightharpoonup> bundle_record"

datatype registry_op =
    Resubmit string bundle_identity int | InsertBundle bundle_record | GetBundle string int
  | SetStatus string bundle_status int | Sweep int

fun registry_apply :: "registry_op \<Rightarrow> registry \<Rightarrow> registry" where
  "registry_apply (Resubmit b ident now) r = snd (check_resubmit b ident now r)"
| "registry_apply (InsertBundle rec) r = registry_insert rec r"
| "registry_apply (GetBundle b now) r = snd (registry_get b now r)"
| "registry_apply (SetStatus b status now) r = update_status b status now r"
| "registry_apply (Sweep now) r = evict_expired now r"

definition oldest_bundle :: "table \<Rightarrow> string \<Rightarrow> bool" where
  "oldest_bundle m v \<longleftrightarrow> v \<in> dom m \<and> (\<forall>w\<in>dom m. bn_last_touched_at (the (m v)) \<le> bn_last_touched_at (the (m w)))"

text \<open>What each operation promises of the bundles alone.\<close>

inductive table_step :: "nat \<Rightarrow> nat \<Rightarrow> table \<Rightarrow> registry_op \<Rightarrow> table \<Rightarrow> bool" for retention cap where
  resubmit_reuse: "m b = Some rec \<Longrightarrow> allows_reuse (bn_status rec)
    \<Longrightarrow> table_step retention cap m (Resubmit b ident now) (m(b := None))"
| resubmit_same: "m b = Some rec \<Longrightarrow> \<not> allows_reuse (bn_status rec) \<Longrightarrow> bn_identity rec = ident
    \<Longrightarrow> table_step retention cap m (Resubmit b ident now) (m(b \<mapsto> rec\<lparr>bn_last_touched_at := now\<rparr>))"
| resubmit_conflict: "m b = Some rec \<Longrightarrow> \<not> allows_reuse (bn_status rec) \<Longrightarrow> bn_identity rec \<noteq> ident
    \<Longrightarrow> table_step retention cap m (Resubmit b ident now) m"
| resubmit_new: "m b = None \<Longrightarrow> table_step retention cap m (Resubmit b ident now) m"
| insert_room: "m1 = m(bn_bundle_id rec := None) \<Longrightarrow> cap = 0 \<or> card (dom m1) < cap
    \<Longrightarrow> table_step retention cap m (InsertBundle rec) (m1(bn_bundle_id rec \<mapsto> rec))"
| insert_evict: "m1 = m(bn_bundle_id rec := None) \<Longrightarrow> 0 < cap \<Longrightarrow> cap \<le> card (dom m1) \<Longrightarrow> oldest_bundle m1 v
    \<Longrightarrow> table_step retention cap m (InsertBundle rec) (m1(v := None, bn_bundle_id rec \<mapsto> rec))"
| get_some: "m b = Some rec \<Longrightarrow> table_step retention cap m (GetBundle b now) (m(b \<mapsto> rec\<lparr>bn_last_touched_at := now\<rparr>))"
| get_none: "m b = None \<Longrightarrow> table_step retention cap m (GetBundle b now) m"
| set_some: "m b = Some rec \<Longrightarrow> table_step retention cap m (SetStatus b st now)
    (m(b \<mapsto> rec\<lparr>bn_status := st, bn_last_touched_at := now\<rparr>))"
| set_none: "m b = None \<Longrightarrow> table_step retention cap m (SetStatus b st now) m"
| sweep: "m' = (\<lambda>b. case m b of None \<Rightarrow> None
      | Some rec \<Rightarrow> if retention \<noteq> 0 \<and> expired retention now rec then None else Some rec)
    \<Longrightarrow> table_step retention cap m (Sweep now) m'"

definition table_of :: "registry \<Rightarrow> table" where
  "table_of r = map_of (rg_bundles r)"

section \<open>The index is exact\<close>

definition reg_inv :: "registry \<Rightarrow> bool" where
  "reg_inv r \<longleftrightarrow> distinct (map fst (rg_bundles r)) \<and> distinct (map fst (rg_index r))
     \<and> (\<forall>b rec. table_of r b = Some rec \<longrightarrow> bn_bundle_id rec = b)
     \<and> (\<forall>d b. map_of (rg_index r) d = Some b \<longleftrightarrow> (\<exists>rec. table_of r b = Some rec \<and> d \<in> set (distribution_ids rec)))"

lemma reg_invD:
  assumes "reg_inv r"
  shows "distinct (map fst (rg_bundles r))" "distinct (map fst (rg_index r))"
    "table_of r b = Some rec \<Longrightarrow> bn_bundle_id rec = b"
    "map_of (rg_index r) d = Some b \<longleftrightarrow> (\<exists>rec. table_of r b = Some rec \<and> d \<in> set (distribution_ids rec))"
  using assms by (auto simp: reg_inv_def)

lemma reg_inv_unique:
  assumes "reg_inv r" "table_of r b = Some rec" "table_of r b' = Some rec'"
    and "d \<in> set (distribution_ids rec)" "d \<in> set (distribution_ids rec')"
  shows "b = b'"
  using assms reg_invD(4) [OF assms(1), of d b] reg_invD(4) [OF assms(1), of d b'] by auto

lemma map_of_fold_delete: "map_of (fold AList.delete ds m) d = (if d \<in> set ds then None else map_of m d)"
  by (induction ds arbitrary: m) (auto simp: AList.delete_conv')

lemma distinct_fold_delete: "distinct (map fst m) \<Longrightarrow> distinct (map fst (fold AList.delete ds m))"
  by (induction ds arbitrary: m) (auto simp: AList.distinct_delete)

lemma map_of_fold_update: "map_of (fold (\<lambda>d. AList.update d v) ds m) d = (if d \<in> set ds then Some v else map_of m d)"
  by (induction ds arbitrary: m) (auto simp: AList.update_conv')

lemma distinct_fold_update: "distinct (map fst m) \<Longrightarrow> distinct (map fst (fold (\<lambda>d. AList.update d v) ds m))"
  by (induction ds arbitrary: m) (auto simp: AList.distinct_update)

lemma card_table: "distinct (map fst (rg_bundles r)) \<Longrightarrow> card (dom (table_of r)) = length (rg_bundles r)"
  by (metis distinct_card dom_map_of_conv_image_fst length_map list.set_map table_of_def)

lemma drop_record_fields [simp]:
  "rg_retention (drop_record rec r) = rg_retention r" "rg_max_known (drop_record rec r) = rg_max_known r"
  by (simp_all add: drop_record_def drop_record_indexes_only_def)

lemma set_record_fields [simp]:
  "rg_retention (set_record b rec r) = rg_retention r" "rg_max_known (set_record b rec r) = rg_max_known r"
  "rg_index (set_record b rec r) = rg_index r"
  by (simp_all add: set_record_def)

lemma table_drop: "table_of (drop_record rec r) = (table_of r)(bn_bundle_id rec := None)"
  by (simp add: table_of_def drop_record_def drop_record_indexes_only_def AList.delete_conv')

lemma table_set: "table_of (set_record b rec r) = (table_of r)(b \<mapsto> rec)"
  by (simp add: table_of_def set_record_def AList.update_conv')

lemma drop_record_inv:
  assumes inv: "reg_inv r" and rec: "table_of r b = Some rec"
  shows "reg_inv (drop_record rec r)"
proof -
  have b: "bn_bundle_id rec = b" using reg_invD(3) [OF inv rec] .
  have idx: "map_of (rg_index (drop_record rec r)) d = (if d \<in> set (distribution_ids rec) then None else map_of (rg_index r) d)" for d
    by (simp add: drop_record_def drop_record_indexes_only_def map_of_fold_delete)
  have dist: "distinct (map fst (rg_bundles (drop_record rec r)))" "distinct (map fst (rg_index (drop_record rec r)))"
    using reg_invD(1,2) [OF inv]
    by (simp_all add: drop_record_def drop_record_indexes_only_def distinct_fold_delete AList.distinct_delete)
  have "map_of (rg_index (drop_record rec r)) d = Some b'
      \<longleftrightarrow> (\<exists>rec'. table_of (drop_record rec r) b' = Some rec' \<and> d \<in> set (distribution_ids rec'))" for d b'
  proof (cases "d \<in> set (distribution_ids rec)")
    case True
    then have "\<not> (table_of r b' = Some rec' \<and> d \<in> set (distribution_ids rec'))" if "b' \<noteq> b" for rec'
      using that reg_inv_unique [OF inv rec, of b' rec' d] by blast
    then show ?thesis using True by (auto simp: idx table_drop b)
  next
    case False
    then have "(\<exists>rec'. table_of r b' = Some rec' \<and> d \<in> set (distribution_ids rec'))
      \<longleftrightarrow> (\<exists>rec'. table_of (drop_record rec r) b' = Some rec' \<and> d \<in> set (distribution_ids rec'))"
      using rec by (cases "b' = b") (simp_all add: table_drop b)
    then show ?thesis using False reg_invD(4) [OF inv, of d b'] by (simp add: idx)
  qed
  with dist show ?thesis using reg_invD(3) [OF inv] by (simp add: reg_inv_def table_drop)
qed

text \<open>Replacing a record by one with the same id and handles.\<close>

lemma set_record_inv:
  assumes inv: "reg_inv r" and rec: "table_of r b = Some rec"
    and same: "bn_bundle_id rec' = bn_bundle_id rec" "bn_handles rec' = bn_handles rec"
  shows "reg_inv (set_record b rec' r)"
proof -
  have ids: "distribution_ids rec' = distribution_ids rec" using same by (simp add: distribution_ids_def)
  have "distinct (map fst (rg_bundles (set_record b rec' r)))"
    using reg_invD(1) [OF inv] by (simp add: set_record_def AList.distinct_update)
  then show ?thesis
    using reg_invD [OF inv] rec same(1) by (auto simp: reg_inv_def table_set ids)
qed

section \<open>Eviction\<close>

lemma min_touched_None [simp]: "min_touched xs = None \<longleftrightarrow> xs = []"
  by (cases xs) (auto split: option.splits)

lemma min_touched_least:
  "min_touched xs = Some x \<Longrightarrow> x \<in> set xs \<and> (\<forall>y\<in>set xs. bn_last_touched_at x \<le> bn_last_touched_at y)"
proof (induction xs arbitrary: x)
  case (Cons a xs)
  show ?case
  proof (cases "min_touched xs")
    case None
    then show ?thesis using Cons.prems by simp
  next
    case (Some y)
    then show ?thesis using Cons.prems Cons.IH [OF Some] by (auto split: if_splits intro: order.trans)
  qed
qed simp

lemma evict_lru_spec:
  assumes inv: "reg_inv r" and ne: "rg_bundles r \<noteq> []"
  shows "\<exists>v rec. table_of r v = Some rec \<and> oldest_bundle (table_of r) v \<and> evict_lru r = drop_record rec r"
proof -
  obtain rec where min: "min_touched (map snd (rg_bundles r)) = Some rec"
    using ne by (metis list.map_disc_iff min_touched_None not_None_eq)
  note least = min_touched_least [OF min]
  then obtain v where "(v, rec) \<in> set (rg_bundles r)" by auto
  then have v: "table_of r v = Some rec" using reg_invD(1) [OF inv] by (simp add: table_of_def)
  have "bn_last_touched_at rec \<le> bn_last_touched_at rec'" if "table_of r w = Some rec'" for w rec'
    using that least by (force simp: table_of_def dest: map_of_SomeD)
  then have "oldest_bundle (table_of r) v" using v by (auto simp: oldest_bundle_def)
  then show ?thesis using v min by (auto simp: evict_lru_def)
qed

lemma drop_records:
  assumes "reg_inv r" "\<forall>rec\<in>set recs. table_of r (bn_bundle_id rec) = Some rec" "distinct (map bn_bundle_id recs)"
  shows "reg_inv (fold drop_record recs r)
    \<and> table_of (fold drop_record recs r) = (\<lambda>b. if b \<in> bn_bundle_id ` set recs then None else table_of r b)"
  using assms
proof (induction recs arbitrary: r)
  case (Cons rec recs)
  have inv: "reg_inv (drop_record rec r)"
    by (rule drop_record_inv [OF Cons.prems(1), of "bn_bundle_id rec"]) (use Cons.prems(2) in simp)
  have notin: "bn_bundle_id rec' \<noteq> bn_bundle_id rec" if "rec' \<in> set recs" for rec'
    using that Cons.prems(3) by (metis distinct.simps(2) image_eqI list.set_map list.simps(9))
  have "\<forall>rec'\<in>set recs. table_of (drop_record rec r) (bn_bundle_id rec') = Some rec'"
  proof
    fix rec'
    assume "rec' \<in> set recs"
    then show "table_of (drop_record rec r) (bn_bundle_id rec') = Some rec'"
      using notin Cons.prems(2) by (simp add: table_drop)
  qed
  from Cons.IH [OF inv this] Cons.prems(3) have
    "reg_inv (fold drop_record recs (drop_record rec r))"
    "table_of (fold drop_record recs (drop_record rec r))
      = (\<lambda>b. if b \<in> bn_bundle_id ` set recs then None else table_of (drop_record rec r) b)"
    by simp_all
  then show ?case by (simp add: table_drop fun_eq_iff)
qed simp

lemma evict_expired_spec:
  assumes inv: "reg_inv r"
  shows "reg_inv (evict_expired now r)" "table_of (evict_expired now r) =
    (\<lambda>b. case table_of r b of None \<Rightarrow> None
       | Some rec \<Rightarrow> if rg_retention r \<noteq> 0 \<and> expired (rg_retention r) now rec then None else Some rec)"
proof -
  let ?recs = "filter (expired (rg_retention r) now) (map snd (rg_bundles r))"
  have own: "table_of r (bn_bundle_id rec) = Some rec" if "rec \<in> set (map snd (rg_bundles r))" for rec
    using that reg_invD(1,3) [OF inv] by (auto simp: table_of_def)
  have eq: "map bn_bundle_id (map snd (rg_bundles r)) = map fst (rg_bundles r)"
    using reg_invD(1,3) [OF inv] by (auto simp: table_of_def)
  have "distinct (map bn_bundle_id (map snd (rg_bundles r)))" unfolding eq by (rule reg_invD(1) [OF inv])
  then have dist: "distinct (map bn_bundle_id ?recs)" by (rule distinct_map_filter)
  note drops = drop_records [OF inv _ dist]
  have all: "\<forall>rec\<in>set ?recs. table_of r (bn_bundle_id rec) = Some rec" using own by auto
  have gone: "b \<in> bn_bundle_id ` set ?recs \<longleftrightarrow> (\<exists>rec. table_of r b = Some rec \<and> expired (rg_retention r) now rec)" for b
  proof
    assume "b \<in> bn_bundle_id ` set ?recs"
    then show "\<exists>rec. table_of r b = Some rec \<and> expired (rg_retention r) now rec" using all by auto
  next
    assume "\<exists>rec. table_of r b = Some rec \<and> expired (rg_retention r) now rec"
    then obtain rec where rec: "table_of r b = Some rec" "expired (rg_retention r) now rec" by blast
    then have "rec \<in> set ?recs" by (force simp: table_of_def dest: map_of_SomeD)
    then show "b \<in> bn_bundle_id ` set ?recs" using reg_invD(3) [OF inv rec(1)] by blast
  qed
  show "reg_inv (evict_expired now r)" using inv drops [OF all] by (simp add: evict_expired_def)
  show "table_of (evict_expired now r) = (\<lambda>b. case table_of r b of None \<Rightarrow> None
       | Some rec \<Rightarrow> if rg_retention r \<noteq> 0 \<and> expired (rg_retention r) now rec then None else Some rec)"
  proof (cases "rg_retention r = 0")
    case True
    then show ?thesis by (auto simp: evict_expired_def split: option.split)
  next
    case False
    then have "table_of (evict_expired now r) = (\<lambda>b. if b \<in> bn_bundle_id ` set ?recs then None else table_of r b)"
      using drops [OF all] by (simp add: evict_expired_def)
    then show ?thesis using False unfolding gone by (auto split: option.split)
  qed
qed

section \<open>Refinement\<close>

text \<open>The distribution ids of a new record are not those of another bundle.\<close>

definition fresh_handles :: "bundle_record \<Rightarrow> registry \<Rightarrow> bool" where
  "fresh_handles rec r \<longleftrightarrow>
     (\<forall>d\<in>set (distribution_ids rec). map_of (rg_index r) d \<in> {None, Some (bn_bundle_id rec)})"

lemma add_record_inv:
  assumes inv: "reg_inv r" and new: "table_of r (bn_bundle_id rec) = None"
    and fresh: "\<forall>d\<in>set (distribution_ids rec). map_of (rg_index r) d = None"
    and r': "r' = set_record (bn_bundle_id rec) rec
       (r\<lparr>rg_index := fold (\<lambda>d. AList.update d (bn_bundle_id rec)) (distribution_ids rec) (rg_index r)\<rparr>)"
  shows "reg_inv r'" "table_of r' = (table_of r)(bn_bundle_id rec \<mapsto> rec)"
proof -
  show tab: "table_of r' = (table_of r)(bn_bundle_id rec \<mapsto> rec)" by (simp add: r' table_set) (simp add: table_of_def)
  have idx: "map_of (rg_index r') d = (if d \<in> set (distribution_ids rec) then Some (bn_bundle_id rec) else map_of (rg_index r) d)" for d
    by (simp add: r' map_of_fold_update)
  have "map_of (rg_index r') d = Some b \<longleftrightarrow> (\<exists>rec'. table_of r' b = Some rec' \<and> d \<in> set (distribution_ids rec'))" for d b
    using reg_invD(4) [OF inv, of d b] new fresh
    by (cases "b = bn_bundle_id rec"; cases "d \<in> set (distribution_ids rec)") (auto simp: idx tab)
  moreover have "distinct (map fst (rg_bundles r'))" "distinct (map fst (rg_index r'))"
    using reg_invD(1,2) [OF inv] by (simp_all add: r' set_record_def AList.distinct_update distinct_fold_update)
  ultimately show "reg_inv r'" using reg_invD(3) [OF inv] by (simp add: reg_inv_def tab)
qed

definition without :: "string \<Rightarrow> registry \<Rightarrow> registry" where
  "without b r = (case table_of r b of None \<Rightarrow> r | Some prior \<Rightarrow> drop_record prior r)"

lemma without_spec:
  assumes inv: "reg_inv r"
  shows "reg_inv (without b r)" "table_of (without b r) = (table_of r)(b := None)"
    "rg_max_known (without b r) = rg_max_known r" "rg_retention (without b r) = rg_retention r"
  using inv drop_record_inv [OF inv] reg_invD(3) [OF inv, of b]
  by (auto simp: without_def table_drop split: option.splits)

definition make_room :: "registry \<Rightarrow> registry" where
  "make_room r = (if rg_max_known r > 0 \<and> length (rg_bundles r) \<ge> rg_max_known r then evict_lru r else r)"

lemma make_room_spec:
  assumes inv: "reg_inv r"
  shows "reg_inv (make_room r)" "rg_max_known (make_room r) = rg_max_known r" "rg_retention (make_room r) = rg_retention r"
    and "(rg_max_known r = 0 \<or> card (dom (table_of r)) < rg_max_known r) \<and> table_of (make_room r) = table_of r
      \<or> 0 < rg_max_known r \<and> rg_max_known r \<le> card (dom (table_of r))
        \<and> (\<exists>v. oldest_bundle (table_of r) v \<and> table_of (make_room r) = (table_of r)(v := None))"
proof -
  have size: "card (dom (table_of r)) = length (rg_bundles r)" by (rule card_table [OF reg_invD(1) [OF inv]])
  consider (room) "make_room r = r" "rg_max_known r = 0 \<or> length (rg_bundles r) < rg_max_known r"
    | (full) "make_room r = evict_lru r" "0 < rg_max_known r" "rg_max_known r \<le> length (rg_bundles r)"
    by (cases "rg_max_known r > 0 \<and> length (rg_bundles r) \<ge> rg_max_known r") (auto simp: make_room_def)
  then have "reg_inv (make_room r) \<and> rg_max_known (make_room r) = rg_max_known r \<and> rg_retention (make_room r) = rg_retention r
    \<and> ((rg_max_known r = 0 \<or> card (dom (table_of r)) < rg_max_known r) \<and> table_of (make_room r) = table_of r
      \<or> 0 < rg_max_known r \<and> rg_max_known r \<le> card (dom (table_of r))
        \<and> (\<exists>v. oldest_bundle (table_of r) v \<and> table_of (make_room r) = (table_of r)(v := None)))"
  proof cases
    case room
    then show ?thesis using inv by (simp add: size)
  next
    case full
    then have ne: "rg_bundles r \<noteq> []" by auto
    obtain v rec where v: "table_of r v = Some rec" "oldest_bundle (table_of r) v" "evict_lru r = drop_record rec r"
      using evict_lru_spec [OF inv ne] by blast
    then have "table_of (make_room r) = (table_of r)(v := None)"
      using reg_invD(3) [OF inv v(1)] full(1) by (simp add: table_drop)
    then show ?thesis using full v drop_record_inv [OF inv v(1)] by (auto simp: size)
  qed
  then show "reg_inv (make_room r)" "rg_max_known (make_room r) = rg_max_known r" "rg_retention (make_room r) = rg_retention r"
    "(rg_max_known r = 0 \<or> card (dom (table_of r)) < rg_max_known r) \<and> table_of (make_room r) = table_of r
      \<or> 0 < rg_max_known r \<and> rg_max_known r \<le> card (dom (table_of r))
        \<and> (\<exists>v. oldest_bundle (table_of r) v \<and> table_of (make_room r) = (table_of r)(v := None))"
    by blast+
qed

lemma insert_eq:
  assumes inv: "reg_inv r"
  shows "registry_insert rec r =
    (let r2 = make_room (without (bn_bundle_id rec) r)
     in set_record (bn_bundle_id rec) rec
          (r2\<lparr>rg_index := fold (\<lambda>d. AList.update d (bn_bundle_id rec)) (distribution_ids rec) (rg_index r2)\<rparr>))"
  using reg_invD(3) [OF inv, of "bn_bundle_id rec"]
  by (cases "table_of r (bn_bundle_id rec)")
    (simp_all add: registry_insert_def make_room_def without_def table_of_def [symmetric] drop_record_def
      drop_record_indexes_only_def Let_def)

lemma index_sub:
  assumes inv: "reg_inv r" and sub: "table_of r' \<subseteq>\<^sub>m table_of r" and inv': "reg_inv r'"
    and some: "map_of (rg_index r') d = Some b"
  shows "map_of (rg_index r) d = Some b \<and> table_of r' b \<noteq> None"
proof -
  obtain rec where "table_of r' b = Some rec" "d \<in> set (distribution_ids rec)"
    using reg_invD(4) [OF inv', of d b] some by auto
  then show ?thesis using sub reg_invD(4) [OF inv, of d b] by (metis domI map_le_def option.distinct(1))
qed

lemma insert_spec:
  assumes inv: "reg_inv r" and fresh: "fresh_handles rec r"
  shows "reg_inv (registry_insert rec r)"
    and "table_step ret (rg_max_known r) (table_of r) (InsertBundle rec) (table_of (registry_insert rec r))"
    and "rg_max_known (registry_insert rec r) = rg_max_known r" "rg_retention (registry_insert rec r) = rg_retention r"
proof -
  let ?b = "bn_bundle_id rec"
  define r1 where "r1 = without ?b r"
  define r2 where "r2 = make_room r1"
  note r1 = without_spec [OF inv, of ?b, folded r1_def]
  note r2 = make_room_spec [OF r1(1), folded r2_def]
  have none: "table_of r2 ?b = None" and sub: "table_of r2 \<subseteq>\<^sub>m table_of r"
    using r2(4) r1(2) by (auto simp: map_le_def split: if_splits)
  have unused: "\<forall>d\<in>set (distribution_ids rec). map_of (rg_index r2) d = None"
  proof
    fix d
    assume d: "d \<in> set (distribution_ids rec)"
    show "map_of (rg_index r2) d = None"
    proof (cases "map_of (rg_index r2) d")
      case (Some b)
      then show ?thesis using index_sub [OF inv sub r2(1) Some] fresh d none by (auto simp: fresh_handles_def)
    qed
  qed
  have eq: "registry_insert rec r = set_record ?b rec
      (r2\<lparr>rg_index := fold (\<lambda>d. AList.update d ?b) (distribution_ids rec) (rg_index r2)\<rparr>)"
    by (simp only: insert_eq [OF inv] Let_def r2_def r1_def)
  note add = add_record_inv [OF r2(1) none unused eq]
  show "reg_inv (registry_insert rec r)" by (rule add(1))
  show "rg_max_known (registry_insert rec r) = rg_max_known r" "rg_retention (registry_insert rec r) = rg_retention r"
    using r1(3,4) r2(2,3) by (simp_all add: eq)
  from r2(4) show "table_step ret (rg_max_known r) (table_of r) (InsertBundle rec) (table_of (registry_insert rec r))"
    using insert_room [OF r1(2), of "rg_max_known r" ret] insert_evict [OF r1(2), of "rg_max_known r" _ ret]
    unfolding add(2) r1(3) by (elim disjE conjE exE) simp_all
qed

section \<open>Properties\<close>

inductive registry_step :: "registry \<Rightarrow> registry_op \<Rightarrow> registry \<Rightarrow> bool" where
  "(\<And>rec. op = InsertBundle rec \<Longrightarrow> fresh_handles rec r) \<Longrightarrow> registry_step r op (registry_apply op r)"

lemma touch_step:
  assumes "reg_inv r" "table_of r b = Some rec" "bn_bundle_id rec' = bn_bundle_id rec" "bn_handles rec' = bn_handles rec"
  shows "reg_inv (set_record b rec' r)" "table_of (set_record b rec' r) = (table_of r)(b \<mapsto> rec')"
  using set_record_inv [OF assms] by (simp_all add: table_set)

lemma check_resubmit_cases:
  "snd (check_resubmit b ident now r) =
     (case table_of r b of
        None \<Rightarrow> r
      | Some rec \<Rightarrow>
          if allows_reuse (bn_status rec) then drop_record rec r
          else if bn_identity rec = ident then set_record b (rec\<lparr>bn_last_touched_at := now\<rparr>) r else r)"
  by (simp add: check_resubmit_def resubmit_probe_def resubmit_commit_def table_of_def Let_def split: option.split)

lemma registry_simulates:
  assumes "registry_step r op r'" and inv: "reg_inv r"
  shows "reg_inv r' \<and> rg_max_known r' = rg_max_known r \<and> rg_retention r' = rg_retention r
    \<and> table_step (rg_retention r) (rg_max_known r) (table_of r) op (table_of r')"
proof -
  have r': "r' = registry_apply op r" and fresh: "\<And>rec. op = InsertBundle rec \<Longrightarrow> fresh_handles rec r"
    using assms(1) by (auto elim: registry_step.cases)
  show ?thesis
  proof (cases op)
    case (Resubmit b ident now)
    show ?thesis
    proof (cases "table_of r b")
      case None
      then show ?thesis using inv Resubmit by (simp add: r' check_resubmit_cases resubmit_new)
    next
      case (Some rec)
      then show ?thesis
        using inv Resubmit drop_record_inv [OF inv Some] reg_invD(3) [OF inv Some]
          touch_step [OF inv Some, of "rec\<lparr>bn_last_touched_at := now\<rparr>"]
        by (simp add: r' check_resubmit_cases table_drop resubmit_reuse resubmit_same resubmit_conflict)
    qed
  next
    case (InsertBundle rec)
    then show ?thesis using insert_spec [OF inv fresh] r' by simp
  next
    case (GetBundle b now)
    show ?thesis
    proof (cases "table_of r b")
      case None
      then show ?thesis using inv GetBundle by (simp add: r' registry_get_def get_none table_of_def [symmetric])
    next
      case (Some rec)
      then show ?thesis
        using GetBundle touch_step [OF inv Some, of "rec\<lparr>bn_last_touched_at := now\<rparr>"]
        by (simp add: r' registry_get_def get_some table_of_def [symmetric] Let_def)
    qed
  next
    case (SetStatus b st now)
    show ?thesis
    proof (cases "table_of r b")
      case None
      then show ?thesis using inv SetStatus by (simp add: r' update_status_def set_none table_of_def [symmetric])
    next
      case (Some rec)
      then show ?thesis
        using SetStatus touch_step [OF inv Some, of "rec\<lparr>bn_status := st, bn_last_touched_at := now\<rparr>"]
        by (simp add: r' update_status_def set_some table_of_def [symmetric])
    qed
  next
    case (Sweep now)
    moreover have "rg_retention (fold drop_record recs r) = rg_retention r" "rg_max_known (fold drop_record recs r) = rg_max_known r" for recs
      by (induction recs arbitrary: r) auto
    ultimately show ?thesis
      using evict_expired_spec [OF inv, of now] sweep by (simp add: r' evict_expired_def)
  qed
qed

lemma registry_runs:
  assumes "runs registry_step r ops r'" "reg_inv r"
  shows "reg_inv r' \<and> rg_max_known r' = rg_max_known r
    \<and> runs (table_step (rg_retention r) (rg_max_known r)) (table_of r) ops (table_of r')"
  using assms
proof (induction rule: runs.induct)
  case (runs_Cons r op r1 ops r2)
  note sim = registry_simulates [OF runs_Cons.hyps(1) runs_Cons.prems]
  then show ?case using runs_Cons.IH by (auto intro: runs.runs_Cons)
qed (simp add: runs_Nil)

lemma table_step_bounded:
  assumes "table_step ret cap m op m'" "0 < cap" "finite (dom m)" "card (dom m) \<le> cap"
  shows "finite (dom m') \<and> card (dom m') \<le> cap"
  using assms
proof cases
  case (resubmit_reuse b rec ident now)
  then show ?thesis using assms by (auto intro: le_trans [OF card_Diff1_le])
next
  case (insert_room m1 rec)
  then have fin: "finite (dom m1)" using assms(3) by simp
  then have "card (dom (m1(bn_bundle_id rec \<mapsto> rec))) \<le> Suc (card (dom m1))" by (simp add: card_insert_if)
  then show ?thesis using insert_room fin assms(2) by (simp add: card_insert_if)
next
  case (insert_evict m1 rec v)
  then have fin: "finite (dom m1)" and v: "v \<in> dom m1" using assms(3) by (simp_all add: oldest_bundle_def)
  have "card (dom m1) \<le> cap"
    using insert_evict(3) assms(3,4) by (auto intro: le_trans [OF card_Diff1_le])
  moreover have "dom (m1(v := None, bn_bundle_id rec \<mapsto> rec)) = insert (bn_bundle_id rec) (dom m1 - {v})" by auto
  ultimately show ?thesis
    using fin v insert_evict(2) card_Suc_Diff1 [OF fin v] by (auto simp: card_insert_if)
next
  case (sweep now)
  then have "dom m' \<subseteq> dom m" by (auto split: option.splits)
  then show ?thesis using assms(3,4) by (meson card_mono finite_subset le_trans)
qed (use assms in \<open>simp_all add: insert_absorb domI\<close>)

lemma table_runs_bounded:
  "runs (table_step ret cap) m ops m' \<Longrightarrow> 0 < cap \<Longrightarrow> finite (dom m) \<Longrightarrow> card (dom m) \<le> cap
    \<Longrightarrow> finite (dom m') \<and> card (dom m') \<le> cap"
proof (induction rule: runs.induct)
  case (runs_Cons m op m1 ops m2)
  then show ?case using table_step_bounded [OF runs_Cons.hyps(1)] by blast
qed simp

lemma registry_new_inv: "reg_inv (registry_new ret cap)" "table_of (registry_new ret cap) = Map.empty"
  by (simp_all add: reg_inv_def registry_new_def table_of_def)


definition sample_record :: "string \<Rightarrow> string \<Rightarrow> int \<Rightarrow> bundle_record" where
  "sample_record b d now = bundle_record_new b [] [\<lparr>hr_file_index = 0, hr_blob_token_hash = ''t'',
     hr_distribution_id = d, hr_content_type = None, hr_display_name = None\<rparr>] now"

definition sample_ops :: "registry_op list" where
  "sample_ops = [InsertBundle (sample_record ''a'' ''x'' 1), InsertBundle (sample_record ''b'' ''y'' 2)]"


end
