(* ===== verification/Attachment_Progress.thy ===== *)
theory Attachment_Progress
  imports Attachment_Registry
begin

text \<open>
  Progress of a bundle's distributions (\<open>src/src/attachments/runtime.rs\<close>) and the stream a subscriber
  sees (\<open>subscribe_attachment_bundle\<close> and \<open>StreamCloser\<close> in \<open>handlers.rs\<close>).  An update is one step: its slot,
  the terminal counter and the broadcast; \<open>bu_sent\<close> is what has been broadcast so far.
\<close>

section \<open>Runtime\<close>

datatype proto_status =
    StatusUnspecified | StatusPending | StatusInProgress | StatusCompleted | StatusPartial | StatusFailed
  | StatusCancelled

definition is_terminal_status :: "proto_status \<Rightarrow> bool" where
  "is_terminal_status s \<longleftrightarrow> s \<in> {StatusCompleted, StatusPartial, StatusFailed, StatusCancelled}"

record attachment_progress =
  ap_distribution_id :: string
  ap_blob_token :: string
  ap_status :: proto_status
  ap_bytes_transferred :: u64
  ap_bytes_total :: u64
  ap_error :: "string option"

datatype distribution_state = DistPending | DistInProgress | DistCompleted | DistFailed | DistCancelled

fun dist_is_terminal :: "distribution_state \<Rightarrow> bool" where
  "dist_is_terminal DistPending = False"
| "dist_is_terminal DistInProgress = False"
| "dist_is_terminal _ = True"

record distribution_slot =
  pd_state :: distribution_state
  pd_bytes_transferred :: u64
  pd_bytes_total :: u64
  pd_error :: "string option"
  pd_last_progress :: attachment_progress

record bundle_runtime =
  bu_slots :: "distribution_slot list"
  bu_terminal_count :: nat
  bu_total :: nat
  bu_sent :: "attachment_progress list"

definition runtime_register :: "distribution_slot list \<Rightarrow> bundle_runtime" where
  "runtime_register slots = \<lparr>bu_slots = slots, bu_terminal_count = 0, bu_total = length slots, bu_sent = []\<rparr>"

definition all_terminal :: "bundle_runtime \<Rightarrow> bool" where
  "all_terminal u \<longleftrightarrow> bu_terminal_count u \<ge> bu_total u"

definition fill_slot :: "distribution_state \<Rightarrow> attachment_progress \<Rightarrow> distribution_slot" where
  "fill_slot st pr = \<lparr>pd_state = st, pd_bytes_transferred = ap_bytes_transferred pr,
     pd_bytes_total = ap_bytes_total pr, pd_error = ap_error pr, pd_last_progress = pr\<rparr>"

definition commit_slot :: "nat \<Rightarrow> distribution_state \<Rightarrow> attachment_progress \<Rightarrow> bool \<Rightarrow> bundle_runtime \<Rightarrow> bool \<times> bundle_runtime" where
  "commit_slot i st pr became_terminal u =
     (became_terminal,
      u\<lparr>bu_slots := (bu_slots u)[i := fill_slot st pr],
        bu_terminal_count := bu_terminal_count u + (if became_terminal then 1 else 0),
        bu_sent := bu_sent u @ [pr]\<rparr>)"

definition apply_progress ::
  "nat \<Rightarrow> distribution_state \<Rightarrow> attachment_progress \<Rightarrow> bundle_runtime \<Rightarrow> bool \<times> bundle_runtime" where
  "apply_progress i st pr u =
     (if length (bu_slots u) \<le> i \<or> dist_is_terminal (pd_state (bu_slots u ! i)) then (False, u)
      else commit_slot i st pr (dist_is_terminal st) u)"

definition apply_cancellation :: "nat \<Rightarrow> attachment_progress \<Rightarrow> bundle_runtime \<Rightarrow> bool \<times> bundle_runtime" where
  "apply_cancellation i pr u =
     (if length (bu_slots u) \<le> i \<or> pd_state (bu_slots u ! i) \<in> {DistCompleted, DistCancelled} then (False, u)
      else commit_slot i DistCancelled pr (\<not> dist_is_terminal (pd_state (bu_slots u ! i))) u)"

section \<open>Subscribing\<close>

definition snapshot_frames :: "bundle_runtime \<Rightarrow> attachment_progress list" where
  "snapshot_frames u = map pd_last_progress (filter (\<lambda>s. dist_is_terminal (pd_state s)) (bu_slots u))"

text \<open>\<open>StreamCloser\<close>: the frames it lets through, and whether it has closed the stream.\<close>

fun stream_closer :: "nat \<Rightarrow> nat \<Rightarrow> attachment_progress list \<Rightarrow> attachment_progress list \<times> bool" where
  "stream_closer tot n [] = ([], n \<ge> tot)"
| "stream_closer tot n (pr # prs) =
     (if n \<ge> tot then ([], True)
      else case stream_closer tot (if is_terminal_status (ap_status pr) then n + 1 else n) prs of
        (out, closed) \<Rightarrow> (pr # out, closed))"

text \<open>\<open>live\<close> is what the broadcast receiver yields after it subscribed.\<close>

definition subscribe_stream :: "bundle_runtime \<Rightarrow> attachment_progress list \<Rightarrow> attachment_progress list \<times> bool" where
  "subscribe_stream u live =
     (let frames = snapshot_frames u; ids = ap_distribution_id ` set frames
      in stream_closer (bu_total u) 0 (frames @ filter (\<lambda>pr. ap_distribution_id pr \<notin> ids) live))"

section \<open>Sequences of updates\<close>

datatype runtime_op = Update nat distribution_state attachment_progress | Cancel nat attachment_progress

fun runtime_apply :: "runtime_op \<Rightarrow> bundle_runtime \<Rightarrow> bundle_runtime" where
  "runtime_apply (Update i st pr) u = snd (apply_progress i st pr u)"
| "runtime_apply (Cancel i pr) u = snd (apply_cancellation i pr u)"

definition runtime_run :: "runtime_op list \<Rightarrow> bundle_runtime \<Rightarrow> bundle_runtime" where
  "runtime_run ops u = fold runtime_apply ops u"

lemma runtime_run_simps [simp]:
  "runtime_run [] u = u" "runtime_run (op # ops) u = runtime_run ops (runtime_apply op u)"
  "runtime_run (xs @ ys) u = runtime_run ys (runtime_run xs u)"
  by (simp_all add: runtime_run_def)

text \<open>The frames of an update name its distribution and are terminal when its state is.\<close>

fun op_ok :: "string list \<Rightarrow> runtime_op \<Rightarrow> bool" where
  "op_ok ids (Update i st pr) \<longleftrightarrow> (i < length ids \<longrightarrow> ap_distribution_id pr = ids ! i)
     \<and> is_terminal_status (ap_status pr) = dist_is_terminal st"
| "op_ok ids (Cancel i pr) \<longleftrightarrow> (i < length ids \<longrightarrow> ap_distribution_id pr = ids ! i)
     \<and> is_terminal_status (ap_status pr)"

text \<open>A cancellation that relabels a failed distribution.\<close>

fun relabels :: "runtime_op \<Rightarrow> bundle_runtime \<Rightarrow> bool" where
  "relabels (Update i st pr) u = False"
| "relabels (Cancel i pr) u \<longleftrightarrow> i < length (bu_slots u) \<and> pd_state (bu_slots u ! i) = DistFailed"

fun no_relabel :: "runtime_op list \<Rightarrow> bundle_runtime \<Rightarrow> bool" where
  "no_relabel [] u = True"
| "no_relabel (op # ops) u \<longleftrightarrow> \<not> relabels op u \<and> no_relabel ops (runtime_apply op u)"

abbreviation terminal_slots :: "bundle_runtime \<Rightarrow> distribution_slot list" where
  "terminal_slots u \<equiv> filter (\<lambda>s. dist_is_terminal (pd_state s)) (bu_slots u)"

definition runtime_inv :: "bundle_runtime \<Rightarrow> bool" where
  "runtime_inv u \<longleftrightarrow> bu_terminal_count u = length (terminal_slots u) \<and> bu_total u = length (bu_slots u)"

lemma length_filter_update:
  assumes "i < length xs"
  shows "length (filter P (xs[i := x])) + (if P (xs ! i) then 1 else 0) = length (filter P xs) + (if P x then 1 else 0)"
  using assms
proof (induction xs arbitrary: i)
  case (Cons y xs)
  then show ?case by (cases i) auto
qed simp

lemma commit_slot_inv:
  assumes "runtime_inv u" "i < length (bu_slots u)"
    and "became \<longleftrightarrow> dist_is_terminal st \<and> \<not> dist_is_terminal (pd_state (bu_slots u ! i))"
    and "dist_is_terminal (pd_state (bu_slots u ! i)) \<longrightarrow> dist_is_terminal st"
  shows "runtime_inv (snd (commit_slot i st pr became u))"
  using assms length_filter_update [OF assms(2), of "\<lambda>s. dist_is_terminal (pd_state s)" "fill_slot st pr"]
  by (auto simp: runtime_inv_def commit_slot_def fill_slot_def split: if_splits)

lemma runtime_apply_inv: "runtime_inv u \<Longrightarrow> runtime_inv (runtime_apply op u)"
  by (cases op) (auto simp: apply_progress_def apply_cancellation_def intro!: commit_slot_inv)

lemma runtime_run_inv: "runtime_inv u \<Longrightarrow> runtime_inv (runtime_run ops u)"
  by (induction ops arbitrary: u) (auto simp: runtime_apply_inv)

lemma length_filter_all: "length xs \<le> length (filter P xs) \<longleftrightarrow> list_all P xs"
proof
  assume "length xs \<le> length (filter P xs)"
  then have "length (filter P xs) = length xs" using length_filter_le [of P xs] by linarith
  then have "filter P xs = xs" by (metis length_filter_less less_irrefl filter_id_conv)
  then show "list_all P xs" by (metis filter_id_conv list_all_iff)
qed (simp add: list_all_iff filter_id_conv [THEN iffD2])

lemma all_terminal_iff:
  "runtime_inv u \<Longrightarrow> all_terminal u \<longleftrightarrow> list_all (\<lambda>s. dist_is_terminal (pd_state s)) (bu_slots u)"
  by (simp add: runtime_inv_def all_terminal_def length_filter_all)

section \<open>What a subscriber gets\<close>

lemma stream_closer_closed:
  "snd (stream_closer tot n prs) \<longleftrightarrow> tot \<le> n + length (filter (\<lambda>pr. is_terminal_status (ap_status pr)) prs)"
  by (induction prs arbitrary: n) (auto split: prod.split simp: prod.case_eq_if)

abbreviation slot_id :: "distribution_slot \<Rightarrow> string" where
  "slot_id s \<equiv> ap_distribution_id (pd_last_progress s)"

definition slots_ok :: "string list \<Rightarrow> bundle_runtime \<Rightarrow> bool" where
  "slots_ok ids u \<longleftrightarrow> map slot_id (bu_slots u) = ids
     \<and> (\<forall>s\<in>set (bu_slots u). dist_is_terminal (pd_state s) \<longrightarrow> is_terminal_status (ap_status (pd_last_progress s)))"

text \<open>An accepted update that is no relabelling fills a slot that was not terminal.\<close>

lemma runtime_apply_cases:
  assumes "\<not> relabels op u" "op_ok ids op" "slots_ok ids u"
  obtains (ignored) "runtime_apply op u = u"
    | (filled) i st pr where "i < length (bu_slots u)" "\<not> dist_is_terminal (pd_state (bu_slots u ! i))"
        "bu_slots (runtime_apply op u) = (bu_slots u)[i := fill_slot st pr]"
        "bu_sent (runtime_apply op u) = bu_sent u @ [pr]" "bu_total (runtime_apply op u) = bu_total u"
        "is_terminal_status (ap_status pr) = dist_is_terminal st" "ap_distribution_id pr = ids ! i"
proof (cases op)
  case (Update i st pr)
  have len: "length ids = length (bu_slots u)" using assms(3) by (auto simp: slots_ok_def)
  show ?thesis
  proof (cases "length (bu_slots u) \<le> i \<or> dist_is_terminal (pd_state (bu_slots u ! i))")
    case True
    then show ?thesis using Update by (intro ignored) (simp add: apply_progress_def)
  next
    case False
    then show ?thesis
      using Update assms(2) len by (intro filled [of i st pr]) (simp_all add: apply_progress_def commit_slot_def)
  qed
next
  case (Cancel i pr)
  have len: "length ids = length (bu_slots u)" using assms(3) by (auto simp: slots_ok_def)
  show ?thesis
  proof (cases "length (bu_slots u) \<le> i \<or> pd_state (bu_slots u ! i) \<in> {DistCompleted, DistCancelled}")
    case True
    then show ?thesis using Cancel by (intro ignored) (simp add: apply_cancellation_def)
  next
    case False
    then have "\<not> dist_is_terminal (pd_state (bu_slots u ! i))"
      using assms(1) Cancel by (cases "pd_state (bu_slots u ! i)") auto
    then show ?thesis
      using False Cancel assms(2) len
      by (intro filled [of i DistCancelled pr]) (simp_all add: apply_cancellation_def commit_slot_def)
  qed
qed

abbreviation new_frames :: "bundle_runtime \<Rightarrow> bundle_runtime \<Rightarrow> attachment_progress list" where
  "new_frames u v \<equiv> drop (length (bu_sent u)) (bu_sent v)"

abbreviation ended_in :: "(string \<Rightarrow> bool) \<Rightarrow> bundle_runtime \<Rightarrow> distribution_slot list" where
  "ended_in Q u \<equiv> filter (\<lambda>s. dist_is_terminal (pd_state s) \<and> Q (slot_id s)) (bu_slots u)"

text \<open>Every terminal frame broadcast accounts for one distribution that ended, also of a part of the ids.\<close>

lemma step_frames:
  assumes "\<not> relabels op u" "op_ok ids op" "slots_ok ids u"
  defines "v \<equiv> runtime_apply op u"
  shows "slots_ok ids v" "prefix (bu_sent u) (bu_sent v)" "bu_total v = bu_total u"
    and "length (ended_in Q v) = length (ended_in Q u)
      + length (filter (\<lambda>pr. is_terminal_status (ap_status pr) \<and> Q (ap_distribution_id pr)) (new_frames u v))"
proof -
  have "slots_ok ids v \<and> prefix (bu_sent u) (bu_sent v) \<and> bu_total v = bu_total u
    \<and> length (ended_in Q v) = length (ended_in Q u)
      + length (filter (\<lambda>pr. is_terminal_status (ap_status pr) \<and> Q (ap_distribution_id pr)) (new_frames u v))"
    using assms(1-3)
  proof (cases rule: runtime_apply_cases)
    case ignored
    then show ?thesis using assms(3) by (simp add: v_def)
  next
    case (filled i st pr)
    have "map slot_id (bu_slots v) = ids"
      using filled assms(3) by (auto simp: v_def map_update fill_slot_def slots_ok_def)
    moreover have "dist_is_terminal (pd_state s) \<longrightarrow> is_terminal_status (ap_status (pd_last_progress s))" if "s \<in> set (bu_slots v)" for s
      using that filled assms(3) set_update_subset_insert [of "bu_slots u" i "fill_slot st pr"]
      by (auto simp: v_def fill_slot_def slots_ok_def)
    ultimately have "slots_ok ids v" by (simp add: slots_ok_def)
    then show ?thesis
      using filled length_filter_update [OF filled(1), of "\<lambda>s. dist_is_terminal (pd_state s) \<and> Q (slot_id s)" "fill_slot st pr"]
      by (simp add: v_def fill_slot_def)
  qed
  then show "slots_ok ids v" "prefix (bu_sent u) (bu_sent v)" "bu_total v = bu_total u"
    "length (ended_in Q v) = length (ended_in Q u)
      + length (filter (\<lambda>pr. is_terminal_status (ap_status pr) \<and> Q (ap_distribution_id pr)) (new_frames u v))"
    by blast+
qed

lemma new_frames_trans:
  "prefix (bu_sent u) (bu_sent v) \<Longrightarrow> prefix (bu_sent v) (bu_sent w) \<Longrightarrow> new_frames u w = new_frames u v @ new_frames v w"
  by (auto simp: prefix_def)

lemma run_frames:
  assumes "list_all (op_ok ids) ops" "no_relabel ops u" "slots_ok ids u"
  shows "slots_ok ids (runtime_run ops u) \<and> prefix (bu_sent u) (bu_sent (runtime_run ops u))
    \<and> bu_total (runtime_run ops u) = bu_total u
    \<and> length (ended_in Q (runtime_run ops u)) = length (ended_in Q u)
      + length (filter (\<lambda>pr. is_terminal_status (ap_status pr) \<and> Q (ap_distribution_id pr)) (new_frames u (runtime_run ops u)))"
  using assms
proof (induction ops arbitrary: u)
  case (Cons op ops)
  have ok: "\<not> relabels op u" "op_ok ids op" using Cons.prems by simp_all
  note step = step_frames [OF ok Cons.prems(3)]
  have rest: "list_all (op_ok ids) ops" "no_relabel ops (runtime_apply op u)" using Cons.prems by simp_all
  note IH = Cons.IH [OF rest step(1)]
  have "new_frames u (runtime_run ops (runtime_apply op u))
      = new_frames u (runtime_apply op u) @ new_frames (runtime_apply op u) (runtime_run ops (runtime_apply op u))"
    using step(2) IH by (intro new_frames_trans) auto
  then show ?case using step(2,3) step(4) [of Q] IH by (auto intro: prefix_order.trans)
qed simp

text \<open>Distributions that have ended broadcast nothing more.\<close>

lemma ended_silent:
  assumes "list_all (op_ok ids) ops" "no_relabel ops u" "slots_ok ids u"
    and "\<forall>i<length ids. Q (ids ! i) \<longrightarrow> dist_is_terminal (pd_state (bu_slots u ! i))"
  shows "filter (\<lambda>pr. Q (ap_distribution_id pr)) (new_frames u (runtime_run ops u)) = []"
  using assms
proof (induction ops arbitrary: u)
  case (Cons op ops)
  have ok: "\<not> relabels op u" "op_ok ids op" using Cons.prems by simp_all
  note step = step_frames [OF ok Cons.prems(3)]
  have len: "length (bu_slots u) = length ids" using Cons.prems(3) by (auto simp: slots_ok_def)
  have "filter (\<lambda>pr. Q (ap_distribution_id pr)) (new_frames u (runtime_apply op u)) = []
    \<and> (\<forall>i<length ids. Q (ids ! i) \<longrightarrow> dist_is_terminal (pd_state (bu_slots (runtime_apply op u) ! i)))"
    using ok Cons.prems(3)
  proof (cases rule: runtime_apply_cases)
    case ignored
    then show ?thesis using Cons.prems(4) by simp
  next
    case (filled i st pr)
    then show ?thesis using Cons.prems(4) len by (auto simp: nth_list_update)
  qed
  moreover have rest: "list_all (op_ok ids) ops" "no_relabel ops (runtime_apply op u)" using Cons.prems by simp_all
  moreover have "new_frames u (runtime_run ops (runtime_apply op u))
      = new_frames u (runtime_apply op u) @ new_frames (runtime_apply op u) (runtime_run ops (runtime_apply op u))"
    using step(2) run_frames [OF rest step(1)] by (intro new_frames_trans) auto
  ultimately show ?case using Cons.IH [OF rest step(1)] by simp
qed simp

lemma no_relabel_append: "no_relabel (xs @ ys) u \<longleftrightarrow> no_relabel xs u \<and> no_relabel ys (runtime_run xs u)"
  by (induction xs arbitrary: u) auto

lemma length_filter_split: "length (filter P xs) = length (filter (\<lambda>x. P x \<and> Q x) xs) + length (filter (\<lambda>x. P x \<and> \<not> Q x) xs)"
  by (induction xs) auto

lemma subscriber_counts:
  assumes ok: "slots_ok ids u1" "distinct ids" "list_all (op_ok ids) ops2" "list_all (op_ok ids) ops3"
    and nr: "no_relabel ops2 u1" "no_relabel ops3 (runtime_run ops2 u1)"
  defines "u2 \<equiv> runtime_run ops2 u1"
  defines "u3 \<equiv> runtime_run ops3 u2"
  defines "X \<equiv> ap_distribution_id ` set (snapshot_frames u2)"
  shows "length (filter (\<lambda>pr. is_terminal_status (ap_status pr))
      (snapshot_frames u2 @ filter (\<lambda>pr. ap_distribution_id pr \<notin> X) (new_frames u1 u3))) = length (terminal_slots u3)"
proof -
  let ?T = "\<lambda>pr. is_terminal_status (ap_status pr)" and ?out = "\<lambda>d. d \<notin> X"
  note r2 = run_frames [OF ok(3) nr(1) ok(1), folded u2_def]
  have sl2: "slots_ok ids u2" using r2 by blast
  note r3 = run_frames [OF ok(4) nr(2) [folded u2_def] sl2, folded u3_def]
  have X: "slot_id s \<in> X" if "s \<in> set (terminal_slots u2)" for s
    using that by (auto simp: X_def snapshot_frames_def)
  then have none2: "ended_in ?out u2 = []" by (auto simp: filter_empty_conv)
  have snap: "filter ?T (snapshot_frames u2) = snapshot_frames u2"
    using sl2 by (auto simp: snapshot_frames_def slots_ok_def filter_id_conv)
  have ids2: "slot_id (bu_slots u2 ! i) = ids ! i" if "i < length ids" for i
    using sl2 that by (auto simp: slots_ok_def)
  have len2: "length (bu_slots u2) = length ids" using sl2 by (auto simp: slots_ok_def)
  have ended: "\<forall>i<length ids. ids ! i \<in> X \<longrightarrow> dist_is_terminal (pd_state (bu_slots u2 ! i))"
  proof (intro allI impI)
    fix i
    assume i: "i < length ids" "ids ! i \<in> X"
    then obtain j where j: "j < length ids" "dist_is_terminal (pd_state (bu_slots u2 ! j))" "ids ! j = ids ! i"
      using ids2 len2 by (auto simp: X_def snapshot_frames_def in_set_conv_nth)
    then show "dist_is_terminal (pd_state (bu_slots u2 ! i))" using i ok(2) by (auto simp: nth_eq_iff_index_eq)
  qed
  have silent: "filter (\<lambda>pr. ap_distribution_id pr \<in> X) (new_frames u2 u3) = []"
    using ended_silent [OF ok(4) nr(2) [folded u2_def] sl2, of "\<lambda>d. d \<in> X"] ended by (simp add: u3_def)
  have two: "filter (\<lambda>pr. ?T pr \<and> ?out (ap_distribution_id pr)) (new_frames u1 u2) = []"
    using r2 [of ?out] none2 by simp
  have split: "new_frames u1 u3 = new_frames u1 u2 @ new_frames u2 u3"
    using r2 r3 by (intro new_frames_trans) auto
  have "length (ended_in (\<lambda>d. d \<in> X) u3) = length (ended_in (\<lambda>d. d \<in> X) u2)"
    using r3 [of "\<lambda>d. d \<in> X"] silent by (simp add: filter_empty_conv)
  moreover have "ended_in (\<lambda>d. d \<in> X) u2 = terminal_slots u2" using X by (auto intro: filter_cong)
  ultimately have "length (terminal_slots u3) = length (terminal_slots u2) + length (ended_in ?out u3)"
    using length_filter_split [where P = "\<lambda>s. dist_is_terminal (pd_state s)" and Q = "\<lambda>s. slot_id s \<in> X" and xs = "bu_slots u3"] by simp
  moreover have "length (ended_in ?out u3) = length (filter (\<lambda>pr. ?T pr \<and> ?out (ap_distribution_id pr)) (new_frames u2 u3))"
    using r3 [of ?out] none2 by simp
  ultimately show ?thesis
    using two snap unfolding split by (simp add: filter_filter snapshot_frames_def conj_commute)
qed

section \<open>Properties\<close>

text \<open>
  C14: A subscriber's stream is closed exactly when every distribution of the bundle has ended, whenever
  it subscribed: updates may come before it subscribes, between subscribing and the snapshot, and
  after.  Excluded are a cancellation that relabels a failed distribution, and frames lost to lag.
\<close>

theorem stream_closes_exactly:
  assumes "list_all (\<lambda>s. pd_state s = DistPending) slots" "ids = map slot_id slots" "distinct ids"
    and "list_all (op_ok ids) (ops1 @ ops2 @ ops3)" "no_relabel (ops1 @ ops2 @ ops3) (runtime_register slots)"
    and "u1 = runtime_run ops1 (runtime_register slots)" "u2 = runtime_run ops2 u1" "u3 = runtime_run ops3 u2"
  shows "snd (subscribe_stream u2 (new_frames u1 u3)) \<longleftrightarrow> all_terminal u3"
proof -
  have ok0: "slots_ok ids (runtime_register slots)" and inv0: "runtime_inv (runtime_register slots)"
    using assms(1,2) by (auto simp: slots_ok_def runtime_inv_def runtime_register_def list_all_iff filter_empty_conv)
  have ops: "list_all (op_ok ids) ops1" "list_all (op_ok ids) ops2" "list_all (op_ok ids) ops3"
    and nr: "no_relabel ops1 (runtime_register slots)" "no_relabel ops2 u1" "no_relabel ops3 (runtime_run ops2 u1)"
    using assms(4-8) by (simp_all add: no_relabel_append)
  have ok1: "slots_ok ids u1" using run_frames [OF ops(1) nr(1) ok0] assms(6) by simp
  have tot: "bu_total u3 = bu_total u2"
    using run_frames [OF ops(2) nr(2) ok1] run_frames [OF ops(3) nr(3)] assms(7,8) by simp
  have "runtime_inv u3" using runtime_run_inv [OF inv0] assms(6-8) by (simp add: runtime_run_inv)
  then have "all_terminal u3 \<longleftrightarrow> bu_total u2 \<le> length (terminal_slots u3)"
    by (simp add: all_terminal_def runtime_inv_def tot [symmetric])
  then show ?thesis
    using subscriber_counts [OF ok1 assms(3) ops(2,3) nr(2,3)] assms(7,8)
    by (simp add: subscribe_stream_def stream_closer_closed Let_def)
qed

definition sample_frame :: "string \<Rightarrow> proto_status \<Rightarrow> attachment_progress" where
  "sample_frame d st = \<lparr>ap_distribution_id = d, ap_blob_token = ''t'', ap_status = st, ap_bytes_transferred = 0,
     ap_bytes_total = 0, ap_error = None\<rparr>"

definition sample_slots :: "distribution_slot list" where
  "sample_slots = [fill_slot DistPending (sample_frame ''x'' StatusPending), fill_slot DistPending (sample_frame ''y'' StatusPending)]"

lemmas runtime_eval = sample_slots_def sample_frame_def fill_slot_def runtime_register_def apply_progress_def
  apply_cancellation_def commit_slot_def all_terminal_def is_terminal_status_def subscribe_stream_def
  snapshot_frames_def Let_def

theorem stream_closes_exactly_witness:
  "let u1 = runtime_register sample_slots;
       u2 = runtime_run [Update 0 DistCompleted (sample_frame ''x'' StatusCompleted)] u1;
       u3 = runtime_run [Cancel 1 (sample_frame ''y'' StatusCancelled)] u2
   in snd (subscribe_stream u2 (new_frames u1 u3))"
proof -
  let ?u1 = "runtime_register sample_slots"
  let ?o2 = "[Update 0 DistCompleted (sample_frame ''x'' StatusCompleted)]" and ?o3 = "[Cancel 1 (sample_frame ''y'' StatusCancelled)]"
  let ?u3 = "runtime_run ?o3 (runtime_run ?o2 ?u1)"
  have nr: "no_relabel ([] @ ?o2 @ ?o3) (runtime_register sample_slots)"
    and ok: "list_all (op_ok [''x'', ''y'']) ([] @ ?o2 @ ?o3)"
    and slots: "list_all (\<lambda>s. pd_state s = DistPending) sample_slots" "[''x'', ''y''] = map slot_id sample_slots"
    by (simp_all add: runtime_eval)
  have "snd (subscribe_stream (runtime_run ?o2 ?u1) (new_frames ?u1 ?u3)) \<longleftrightarrow> all_terminal ?u3"
    by (rule stream_closes_exactly [OF slots _ ok nr _ refl refl]) simp_all
  moreover have "all_terminal ?u3" by (simp add: runtime_eval)
  ultimately show ?thesis unfolding Let_def by blast
qed

text \<open>
  Relabelling closes a stream too early.  When a distribution fails and is then cancelled, its two
  terminal frames both count, and a subscriber of a bundle of two sees the stream end while the other
  distribution has not even started.
\<close>

lemma relabel_closes_early:
  "let u1 = runtime_register sample_slots;
       u3 = runtime_run [Update 0 DistFailed (sample_frame ''x'' StatusFailed), Cancel 0 (sample_frame ''x'' StatusCancelled)] u1
   in snd (subscribe_stream u1 (new_frames u1 u3)) \<and> \<not> all_terminal u3 \<and> pd_state (bu_slots u3 ! 1) = DistPending"
  by (simp add: runtime_eval del: set_filter)

text \<open>
  A subscriber that lags over the last terminal frame waits for ever: nothing is sent after it.
\<close>

lemma lagged_subscriber_stuck:
  "let u1 = runtime_register sample_slots;
       u3 = runtime_run [Update 0 DistCompleted (sample_frame ''x'' StatusCompleted),
              Update 1 DistCompleted (sample_frame ''y'' StatusCompleted)] u1
   in all_terminal u3 \<and> \<not> snd (subscribe_stream u1 (tl (new_frames u1 u3)))"
  by (simp add: runtime_eval del: set_filter)

end
