(* ===== verification/Attachment_Handlers.thy ===== *)
theory Attachment_Handlers
  imports Attachment_Progress Attachment_Ingest
begin

text \<open>
  The attachment calls (\<open>src/src/attachments/handlers.rs\<close>).  Sending awaits the ingest between its
  admission checks and its registry insert, so it is two steps, \<open>send_admit\<close> and \<open>send_commit\<close>, that other
  calls may come between.  Spawned watchers are recorded, and each step of a watcher is a function.
\<close>

section \<open>State\<close>

record watcher_task =
  wt_bundle_id :: string
  wt_file_index :: nat
  wt_distribution_id :: string
  wt_blob_token_hash :: string
  wt_declared :: "string list option"

record promoter_task =
  pt_distribution_id :: string
  pt_declared :: "string list"
  pt_grace_secs :: nat
  pt_total_bytes :: u64

record 's attachment_node =
  an_config :: attachment_config
  an_registry :: registry
  an_runtimes :: "(string \<times> bundle_runtime) list"
  an_store :: 's
  an_queued :: "string list"
  an_watchers :: "watcher_task list"
  an_promoters :: "promoter_task list"

datatype send_error = NoRoots | Violation rule_violation | CapReached | BundleExists int | Ingest ingest_error

record attachment_handle =
  ah_file_index :: "32 word"
  ah_blob_token :: string
  ah_distribution_id :: string

type_synonym send_response = "string \<times> attachment_handle list"

section \<open>Conversions\<close>

text \<open>An unspecified or unknown priority is \<open>None\<close>.\<close>

definition proto_priority_to_transfer :: "attachment_priority option \<Rightarrow> attachment_priority \<Rightarrow> transfer_priority" where
  "proto_priority_to_transfer p fallback =
     (case (case p of Some v \<Rightarrow> v | None \<Rightarrow> fallback) of
        Bulk \<Rightarrow> TransferLow | Low \<Rightarrow> TransferLow | Routine \<Rightarrow> TransferNormal | Priority \<Rightarrow> TransferHigh
      | Critical \<Rightarrow> TransferCritical)"

fun bundle_status_to_proto :: "bundle_status \<Rightarrow> proto_status" where
  "bundle_status_to_proto BundlePending = StatusPending"
| "bundle_status_to_proto BundleInProgress = StatusInProgress"
| "bundle_status_to_proto BundleCompleted = StatusCompleted"
| "bundle_status_to_proto BundlePartial = StatusPartial"
| "bundle_status_to_proto BundleFailed = StatusFailed"
| "bundle_status_to_proto BundleCancelled = StatusCancelled"

datatype transfer_state = TransferPending | TransferConnecting | Transferring | TransferCompleted | TransferFailed

record node_transfer =
  nt_node_id :: string
  nt_status :: transfer_state
  nt_progress_bytes :: u64
  nt_total_bytes :: u64
  nt_error :: "string option"

fun transfer_state_to_proto :: "transfer_state \<Rightarrow> proto_status" where
  "transfer_state_to_proto TransferPending = StatusPending"
| "transfer_state_to_proto TransferConnecting = StatusInProgress"
| "transfer_state_to_proto Transferring = StatusInProgress"
| "transfer_state_to_proto TransferCompleted = StatusCompleted"
| "transfer_state_to_proto TransferFailed = StatusFailed"

text \<open>The flags \<open>any_failed\<close>, \<open>any_running\<close> and \<open>all_completed\<close> after the loop over the nodes.\<close>

fun aggregate_flags :: "node_transfer list \<Rightarrow> bool \<times> bool \<times> bool \<Rightarrow> bool \<times> bool \<times> bool" where
  "aggregate_flags [] fl = fl"
| "aggregate_flags (p # ps) (failed, running, completed) =
     aggregate_flags ps
       (case nt_status p of
          TransferFailed \<Rightarrow> (True, running, completed)
        | TransferCompleted \<Rightarrow> (failed, running, completed)
        | _ \<Rightarrow> (failed, True, False))"

definition per_node_aggregate :: "node_transfer list \<Rightarrow> proto_status" where
  "per_node_aggregate ps =
     (if ps = [] then StatusPending
      else case aggregate_flags ps (False, False, True) of (failed, running, completed) \<Rightarrow>
        if failed then StatusFailed else if running then StatusInProgress
        else if completed then StatusCompleted else StatusPending)"

fun aggregated_to_distribution_state :: "proto_status \<Rightarrow> distribution_state" where
  "aggregated_to_distribution_state StatusPending = DistPending"
| "aggregated_to_distribution_state StatusUnspecified = DistPending"
| "aggregated_to_distribution_state StatusInProgress = DistInProgress"
| "aggregated_to_distribution_state StatusCompleted = DistCompleted"
| "aggregated_to_distribution_state StatusPartial = DistCompleted"
| "aggregated_to_distribution_state StatusFailed = DistFailed"
| "aggregated_to_distribution_state StatusCancelled = DistCancelled"

section \<open>Sending\<close>

fun ingest_code :: "ingest_error \<Rightarrow> connect_code" where
  "ingest_code (OpenFailed i) = InvalidArgument"
| "ingest_code (BlobFailed i) = CodeInternal"
| "ingest_code (HashMismatch i) = InvalidArgument"
| "ingest_code (DistributeFailed i) = CodeInternal"

definition build_response :: "string \<Rightarrow> handle_record list \<Rightarrow> send_response" where
  "build_response b hs = (b, map (\<lambda>h. \<lparr>ah_file_index = word_of_nat (hr_file_index h), ah_blob_token = hr_blob_token_hash h,
     ah_distribution_id = hr_distribution_id h\<rparr>) hs)"

definition build_handle_records :: "send_request \<Rightarrow> ingested_blob list \<Rightarrow> handle_record list" where
  "build_handle_records req ibs =
     map (\<lambda>ib. let orig = sq_files req ! ib_file_index ib
       in \<lparr>hr_file_index = ib_file_index ib, hr_blob_token_hash = tk_hash (ib_blob_token ib),
           hr_distribution_id = ib_distribution_id ib, hr_content_type = fp_content_type orig,
           hr_display_name = fp_display_name orig\<rparr>) ibs"

datatype admission =
    Rejected connect_code send_error | Answered send_response | Admitted string bundle_identity validated_bundle

definition choose_bundle_id :: "string \<Rightarrow> send_request \<Rightarrow> string" where
  "choose_bundle_id uuid req = (case sq_bundle_id req of Some b \<Rightarrow> if b = [] then uuid else b | None \<Rightarrow> uuid)"

definition send_admit ::
  "fs_view \<Rightarrow> string \<Rightarrow> int \<Rightarrow> send_request \<Rightarrow> 's attachment_node \<Rightarrow> admission \<times> 's attachment_node" where
  "send_admit fs uuid now req nd =
     (let cfg = an_config nd
      in if \<not> has_roots cfg then (Rejected Unimplemented NoRoots, nd)
         else case validate_request fs req cfg of
           Inl (c, v) \<Rightarrow> (Rejected c (Violation v), nd)
         | Inr b \<Rightarrow>
             if \<not> ac_queue_when_full cfg \<and> non_terminal_count (an_registry nd) \<ge> ac_max_concurrent_distributions cfg
             then (Rejected ResourceExhausted CapReached, nd)
             else
               let bid = choose_bundle_id uuid req; ident = map identity_from_validated (vb_files b)
               in case check_resubmit bid ident now (an_registry nd) of
                    (Idempotent rec, r) \<Rightarrow> (Answered (build_response bid (bn_handles rec)), nd\<lparr>an_registry := r\<rparr>)
                  | (Conflict t, r) \<Rightarrow> (Rejected AlreadyExists (BundleExists t), nd\<lparr>an_registry := r\<rparr>)
                  | (LookupNotFound, r) \<Rightarrow> (Admitted bid ident b, nd\<lparr>an_registry := r\<rparr>))"

definition handle_bytes :: "ingested_blob list \<Rightarrow> handle_record \<Rightarrow> u64" where
  "handle_bytes ibs h =
     (case find (\<lambda>ib. ib_file_index ib = hr_file_index h) ibs of
        Some ib \<Rightarrow> tk_size_bytes (ib_blob_token ib) | None \<Rightarrow> 0)"

definition initial_slot :: "ingested_blob list \<Rightarrow> handle_record \<Rightarrow> distribution_slot" where
  "initial_slot ibs h =
     fill_slot DistPending \<lparr>ap_distribution_id = hr_distribution_id h, ap_blob_token = hr_blob_token_hash h,
       ap_status = StatusPending, ap_bytes_transferred = 0, ap_bytes_total = handle_bytes ibs h, ap_error = None\<rparr>"

definition watcher_of :: "string \<Rightarrow> validated_scope \<Rightarrow> handle_record \<Rightarrow> watcher_task" where
  "watcher_of bid scope h =
     \<lparr>wt_bundle_id = bid, wt_file_index = hr_file_index h, wt_distribution_id = hr_distribution_id h,
      wt_blob_token_hash = hr_blob_token_hash h,
      wt_declared = (case scope of NodeList ids \<Rightarrow> Some ids | AllNodes \<Rightarrow> None)\<rparr>"

definition promoters_of :: "attachment_config \<Rightarrow> validated_scope \<Rightarrow> ingested_blob list \<Rightarrow> handle_record \<Rightarrow> promoter_task list" where
  "promoters_of cfg scope ibs h =
     (case scope of
        AllNodes \<Rightarrow> []
      | NodeList ids \<Rightarrow> [\<lparr>pt_distribution_id = hr_distribution_id h, pt_declared = ids,
          pt_grace_secs = ac_discovery_grace_secs cfg, pt_total_bytes = handle_bytes ibs h\<rparr>])"

definition send_commit ::
  "'s blob_env \<Rightarrow> int \<Rightarrow> send_request \<Rightarrow> string \<Rightarrow> bundle_identity \<Rightarrow> validated_bundle \<Rightarrow> 's attachment_node
    \<Rightarrow> ((connect_code \<times> send_error) + send_response) \<times> 's attachment_node" where
  "send_commit env now req bid ident b nd =
     (case ingest_bundle env b (proto_priority_to_transfer (sq_priority req) (ac_default_priority (an_config nd)))
             (an_store nd) of
        (Inl e, s) \<Rightarrow> (Inl (ingest_code e, Ingest e), nd\<lparr>an_store := s\<rparr>)
      | (Inr ibs, s) \<Rightarrow>
          let hs = build_handle_records req ibs
          in (Inr (build_response bid hs),
              nd\<lparr>an_store := s,
                 an_queued := an_queued nd @ map (\<lambda>ib. ''file_distributions:'' @ ib_distribution_id ib) ibs,
                 an_registry := registry_insert (bundle_record_new bid ident hs now) (an_registry nd),
                 an_runtimes := AList.update bid (runtime_register (map (initial_slot ibs) hs)) (an_runtimes nd),
                 an_watchers := an_watchers nd @ map (watcher_of bid (vb_scope b)) hs,
                 an_promoters := an_promoters nd @ concat (map (promoters_of (an_config nd) (vb_scope b) ibs) hs)\<rparr>))"

definition send_attachments ::
  "fs_view \<Rightarrow> 's blob_env \<Rightarrow> string \<Rightarrow> int \<Rightarrow> int \<Rightarrow> send_request \<Rightarrow> 's attachment_node
    \<Rightarrow> ((connect_code \<times> send_error) + send_response) \<times> 's attachment_node" where
  "send_attachments fs env uuid now now' req nd =
     (case send_admit fs uuid now req nd of
        (Rejected c e, nd') \<Rightarrow> (Inl (c, e), nd')
      | (Answered r, nd') \<Rightarrow> (Inr r, nd')
      | (Admitted bid ident b, nd') \<Rightarrow> send_commit env now' req bid ident b nd')"

section \<open>Finalizing\<close>

definition final_status :: "bundle_runtime \<Rightarrow> bundle_status" where
  "final_status u =
     (if DistFailed \<in> set (map pd_state (bu_slots u)) then BundleFailed
      else if DistCancelled \<in> set (map pd_state (bu_slots u)) then BundleCancelled
      else BundleCompleted)"

definition maybe_finalize_bundle :: "int \<Rightarrow> bundle_runtime \<Rightarrow> string \<Rightarrow> registry \<Rightarrow> registry" where
  "maybe_finalize_bundle now u bid r = (if \<not> all_terminal u then r else update_status bid (final_status u) now r)"

section \<open>Querying and cancelling\<close>

text \<open>A missing handle under an indexed distribution is a panic of the source.\<close>

datatype call_error = CallError connect_code | Panicked

definition find_handle :: "string \<Rightarrow> bundle_record \<Rightarrow> handle_record option" where
  "find_handle d rec = find (\<lambda>h. hr_distribution_id h = d) (bn_handles rec)"

record distribution_response =
  dr_status :: proto_status
  dr_bytes_transferred :: u64
  dr_bytes_total :: u64
  dr_per_node :: "(string \<times> proto_status \<times> u64) list"
  dr_error :: "string option"

fun first_error :: "node_transfer list \<Rightarrow> string option" where
  "first_error [] = None"
| "first_error (p # ps) = (case nt_error p of Some e \<Rightarrow> Some e | None \<Rightarrow> first_error ps)"

definition node_state_to_proto :: "node_transfer \<Rightarrow> string \<times> proto_status \<times> u64" where
  "node_state_to_proto p = (nt_node_id p, transfer_state_to_proto (nt_status p), nt_progress_bytes p)"

definition get_attachment_distribution ::
  "(string \<Rightarrow> node_transfer list option) \<Rightarrow> string \<Rightarrow> 's attachment_node \<Rightarrow> call_error + distribution_response" where
  "get_attachment_distribution status d nd =
     (if \<not> has_roots (an_config nd) then Inl (CallError Unimplemented)
      else case lookup_distribution d (an_registry nd) of
        None \<Rightarrow> Inl (CallError CodeNotFound)
      | Some (bid, bundle) \<Rightarrow>
          (case find_handle d bundle of
             None \<Rightarrow> Inl Panicked
           | Some h \<Rightarrow>
               (case status (hr_distribution_id h) of
                  None \<Rightarrow> Inl (CallError CodeInternal)
                | Some ps \<Rightarrow>
                    Inr \<lparr>dr_status = (if bundle_is_terminal (bn_status bundle)
                                       then bundle_status_to_proto (bn_status bundle) else per_node_aggregate ps),
                         dr_bytes_transferred = sum_list (map nt_progress_bytes ps),
                         dr_bytes_total =
                           (case ps of
                              p # _ \<Rightarrow> nt_total_bytes p
                            | [] \<Rightarrow> if hr_file_index h < length (bn_identity bundle)
                                   then fi_size_bytes (bn_identity bundle ! hr_file_index h) else 0),
                         dr_per_node = map node_state_to_proto ps,
                         dr_error = first_error ps\<rparr>)))"

text \<open>Cancelling awaits the distribution service between reading the registry and writing the runtime.\<close>

datatype cancel_step = CancelFails call_error | CancelDone bool | CancelAwaits string handle_record

definition cancel_begin :: "string \<Rightarrow> 's attachment_node \<Rightarrow> cancel_step" where
  "cancel_begin d nd =
     (if \<not> has_roots (an_config nd) then CancelFails (CallError Unimplemented)
      else case lookup_distribution d (an_registry nd) of
        None \<Rightarrow> CancelFails (CallError CodeNotFound)
      | Some (bid, bundle) \<Rightarrow>
          if bundle_is_terminal (bn_status bundle) then CancelDone False
          else case find_handle d bundle of None \<Rightarrow> CancelFails Panicked | Some h \<Rightarrow> CancelAwaits bid h)"

definition cancel_frame :: "string \<Rightarrow> handle_record \<Rightarrow> attachment_progress" where
  "cancel_frame d h = \<lparr>ap_distribution_id = d, ap_blob_token = hr_blob_token_hash h, ap_status = StatusCancelled,
     ap_bytes_transferred = 0, ap_bytes_total = 0, ap_error = None\<rparr>"

definition cancel_finish :: "int \<Rightarrow> string \<Rightarrow> string \<Rightarrow> handle_record \<Rightarrow> 's attachment_node \<Rightarrow> 's attachment_node" where
  "cancel_finish now d bid h nd =
     (case map_of (an_runtimes nd) bid of
        Some u \<Rightarrow>
          let u' = snd (apply_cancellation (hr_file_index h) (cancel_frame d h) u)
          in nd\<lparr>an_runtimes := AList.update bid u' (an_runtimes nd),
                an_registry := maybe_finalize_bundle now u' bid (an_registry nd)\<rparr>
      | None \<Rightarrow> nd\<lparr>an_registry := update_status bid BundleCancelled now (an_registry nd)\<rparr>)"

definition cancel_attachment_distribution ::
  "(string \<Rightarrow> bool) \<Rightarrow> int \<Rightarrow> string \<Rightarrow> 's attachment_node \<Rightarrow> (call_error + bool) \<times> 's attachment_node" where
  "cancel_attachment_distribution cancel now d nd =
     (case cancel_begin d nd of
        CancelFails e \<Rightarrow> (Inl e, nd)
      | CancelDone was \<Rightarrow> (Inr was, nd)
      | CancelAwaits bid h \<Rightarrow>
          if \<not> cancel (hr_distribution_id h) then (Inl (CallError CodeInternal), nd)
          else (Inr True, cancel_finish now d bid h nd))"

section \<open>The watcher of one distribution\<close>

text \<open>The initial status query gives the number of targets or fails, and so may subscribing.\<close>

datatype watcher_event = Received "node_transfer list" bool | LaggedBehind | ChannelClosed

definition watcher_frame :: "watcher_task \<Rightarrow> proto_status \<Rightarrow> string option \<Rightarrow> attachment_progress" where
  "watcher_frame w st err = \<lparr>ap_distribution_id = wt_distribution_id w, ap_blob_token = wt_blob_token_hash w,
     ap_status = st, ap_bytes_transferred = 0, ap_bytes_total = 0, ap_error = err\<rparr>"

definition watcher_start ::
  "watcher_task \<Rightarrow> (string + nat) \<Rightarrow> string option \<Rightarrow> bundle_runtime \<Rightarrow> bool \<times> bundle_runtime" where
  "watcher_start w status subscribe_error u =
     (let fail = (\<lambda>msg. (False, snd (apply_progress (wt_file_index w) DistFailed
            (watcher_frame w StatusFailed (Some msg)) u)))
      in case status of
           Inl e \<Rightarrow> fail (''initial status check failed: '' @ e)
         | Inr targets \<Rightarrow>
             if targets = 0 \<and> \<not> (case wt_declared w of Some ids \<Rightarrow> ids \<noteq> [] | None \<Rightarrow> False)
             then (False, snd (apply_progress (wt_file_index w) DistCompleted (watcher_frame w StatusCompleted None) u))
             else case subscribe_error of
               Some e \<Rightarrow> fail (''subscribe_progress failed: '' @ e)
             | None \<Rightarrow> (True, u))"

definition watcher_update :: "watcher_task \<Rightarrow> node_transfer list \<Rightarrow> bundle_runtime \<Rightarrow> bundle_runtime" where
  "watcher_update w ps u =
     (let aggregated = per_node_aggregate ps
      in snd (apply_progress (wt_file_index w) (aggregated_to_distribution_state aggregated)
           \<lparr>ap_distribution_id = wt_distribution_id w, ap_blob_token = wt_blob_token_hash w, ap_status = aggregated,
            ap_bytes_transferred = sum_list (map nt_progress_bytes ps),
            ap_bytes_total = (case ps of p # _ \<Rightarrow> nt_total_bytes p | [] \<Rightarrow> 0), ap_error = first_error ps\<rparr> u))"

text \<open>The forward loop: whether it has left the loop, and the runtime.\<close>

fun watcher_loop :: "watcher_task \<Rightarrow> watcher_event list \<Rightarrow> bundle_runtime \<Rightarrow> bool \<times> bundle_runtime" where
  "watcher_loop w [] u = (False, u)"
| "watcher_loop w (Received ps is_complete # es) u =
     (if is_complete then (True, watcher_update w ps u) else watcher_loop w es (watcher_update w ps u))"
| "watcher_loop w (LaggedBehind # es) u = watcher_loop w es u"
| "watcher_loop w (ChannelClosed # es) u = (True, u)"

section \<open>The discovery grace promoter\<close>

text \<open>\<open>doc\<close> is the status and the node statuses of the distribution document, if it can be read.\<close>

definition grace_promotions :: "promoter_task \<Rightarrow> (string \<times> (string \<times> node_transfer) list) option \<Rightarrow> node_transfer list" where
  "grace_promotions p doc =
     (case doc of
        None \<Rightarrow> []
      | Some (status, nodes) \<Rightarrow>
          if status \<noteq> ''distributing'' then []
          else map (\<lambda>i. \<lparr>nt_node_id = i, nt_status = TransferFailed, nt_progress_bytes = 0,
                 nt_total_bytes = pt_total_bytes p,
                 nt_error = Some ''discovery grace expired: peer never connected''\<rparr>)
               (filter (\<lambda>i. map_of nodes i = None) (pt_declared p)))"

section \<open>Counting bundles in flight\<close>

abbreviation count_by :: "(bundle_record \<Rightarrow> bool) \<Rightarrow> (string \<times> bundle_record) list \<Rightarrow> nat" where
  "count_by P al \<equiv> length (filter P (map snd al))"

lemma count_delete: "count_by P (AList.delete k al) \<le> count_by P al"
  by (induction al) (auto simp: AList.delete_eq)

lemma count_update: "count_by P (AList.update k v al) \<le> count_by P al + 1"
  by (induction al) auto

lemma count_update_same: "map_of al k = Some v \<Longrightarrow> P v' = P v \<Longrightarrow> count_by P (AList.update k v' al) = count_by P al"
  by (induction al) auto

lemma update_fresh: "map_of al k = None \<Longrightarrow> AList.update k v al = al @ [(k, v)]"
  by (induction al) auto

lemma delete_fresh: "map_of al k = None \<Longrightarrow> AList.delete k al = al"
  by (induction al) (auto simp: AList.delete_eq)

lemma count_drop_record: "non_terminal_count (drop_record rec r) \<le> non_terminal_count r"
  using count_delete by (simp add: non_terminal_count_def drop_record_def drop_record_indexes_only_def)

lemma count_evict_lru: "non_terminal_count (evict_lru r) \<le> non_terminal_count r"
  using count_drop_record by (simp add: evict_lru_def split: option.split)

lemma count_check_resubmit:
  "check_resubmit b ident now r = (l, r') \<Longrightarrow> non_terminal_count r' \<le> non_terminal_count r"
  using count_drop_record count_update_same [where P = "\<lambda>rec. \<not> bundle_is_terminal (bn_status rec)"]
  by (auto simp: check_resubmit_def resubmit_probe_def resubmit_commit_def set_record_def non_terminal_count_def Let_def
      split: option.splits if_splits)

lemma count_insert: "non_terminal_count (registry_insert rec r) \<le> non_terminal_count r + 1"
proof -
  define r1 where "r1 = (case map_of (rg_bundles r) (bn_bundle_id rec) of None \<Rightarrow> r
    | Some prior \<Rightarrow> drop_record_indexes_only prior (r\<lparr>rg_bundles := AList.delete (bn_bundle_id rec) (rg_bundles r)\<rparr>))"
  define r2 where "r2 = (if rg_max_known r > 0 \<and> length (rg_bundles r1) \<ge> rg_max_known r then evict_lru r1 else r1)"
  have "non_terminal_count r1 \<le> non_terminal_count r"
    using count_delete by (simp add: r1_def non_terminal_count_def drop_record_indexes_only_def split: option.split)
  moreover have "non_terminal_count r2 \<le> non_terminal_count r1" using count_evict_lru by (simp add: r2_def)
  moreover have "non_terminal_count (registry_insert rec r) \<le> non_terminal_count r2 + 1"
    unfolding registry_insert_def Let_def r1_def [symmetric] r2_def [symmetric]
    using count_update by (simp add: non_terminal_count_def set_record_def)
  ultimately show ?thesis by linarith
qed

text \<open>With room in the table a record under a new identifier is appended.\<close>

lemma insert_fresh:
  assumes "map_of (rg_bundles r) (bn_bundle_id rec) = None"
    and "rg_max_known r = 0 \<or> length (rg_bundles r) < rg_max_known r"
  shows "rg_bundles (registry_insert rec r) = rg_bundles r @ [(bn_bundle_id rec, rec)]"
    and "rg_max_known (registry_insert rec r) = rg_max_known r"
  using assms by (auto simp: registry_insert_def set_record_def Let_def update_fresh)

lemma insert_present: "map_of (rg_bundles (registry_insert rec r)) (bn_bundle_id rec) = Some rec"
  by (simp add: registry_insert_def set_record_def Let_def AList.update_conv')

section \<open>Sending\<close>

lemma admitted_inv:
  assumes "send_admit fs uuid now req nd = (Admitted bid ident b, nd')"
  shows "bid = choose_bundle_id uuid req" "validate_request fs req (an_config nd) = Inr b"
    "ident = map identity_from_validated (vb_files b)" "has_roots (an_config nd)"
    "ac_queue_when_full (an_config nd) \<or> non_terminal_count (an_registry nd) < ac_max_concurrent_distributions (an_config nd)"
    "nd' = nd\<lparr>an_registry := snd (check_resubmit bid ident now (an_registry nd))\<rparr>"
    "fst (check_resubmit bid ident now (an_registry nd)) = LookupNotFound"
  using assms by (auto simp: send_admit_def Let_def split: if_splits sum.splits prod.splits bundle_lookup.splits)

lemma commit_inv:
  assumes "send_commit env now req bid ident b nd = (Inr resp, nd')"
  obtains hs where "resp = build_response bid hs"
    "an_registry nd' = registry_insert (bundle_record_new bid ident hs now) (an_registry nd)"
    "an_config nd' = an_config nd"
  using assms by (auto simp: send_commit_def Let_def split: prod.splits sum.splits)

lemma commit_count:
  "send_commit env now req bid ident b nd = (r, nd') \<Longrightarrow> non_terminal_count (an_registry nd') \<le> non_terminal_count (an_registry nd) + 1"
  using count_insert by (auto simp: send_commit_def Let_def le_SucI split: prod.splits sum.splits)

lemma fresh_resubmit: "map_of (rg_bundles r) b = None \<Longrightarrow> check_resubmit b ident now r = (LookupNotFound, r)"
  by (simp add: check_resubmit_def resubmit_probe_def)

text \<open>
  C18: Calls that do not overlap never raise the number of bundles in flight above
  \<open>max_concurrent_distributions\<close>, whatever the outcome of the call, unless \<open>queue_when_full\<close> lifts the cap.
\<close>

theorem send_within_cap:
  assumes "send_attachments fs env uuid now now' req nd = (r, nd')" "\<not> ac_queue_when_full (an_config nd)"
    and "non_terminal_count (an_registry nd) \<le> ac_max_concurrent_distributions (an_config nd)"
  shows "non_terminal_count (an_registry nd') \<le> ac_max_concurrent_distributions (an_config nd)"
proof -
  obtain a nd1 where admit: "send_admit fs uuid now req nd = (a, nd1)" by fastforce
  have one: "non_terminal_count (an_registry nd1) \<le> non_terminal_count (an_registry nd)"
    using admit count_check_resubmit
    by (auto simp: send_admit_def Let_def split: if_splits sum.splits prod.splits bundle_lookup.splits)
  show ?thesis
  proof (cases a)
    case (Admitted bid ident b)
    have "non_terminal_count (an_registry nd) < ac_max_concurrent_distributions (an_config nd)"
      using admitted_inv(5) [OF admit [unfolded Admitted]] assms(2) by simp
    moreover have "send_commit env now' req bid ident b nd1 = (r, nd')"
      using assms(1) admit Admitted by (simp add: send_attachments_def)
    ultimately show ?thesis using commit_count one by fastforce
  qed (use assms admit one in \<open>auto simp: send_attachments_def\<close>)
qed

text \<open>
  The cap is checked before the awaited ingest and the record is inserted after it, so two calls that
  overlap pass it together: with one slot left both are admitted and one bundle too many is in flight.
\<close>

lemma concurrent_sends_exceed_cap:
  assumes admits: "send_admit fs ua ta ra nd = (Admitted ba ia va, nd1)" "send_admit fs ub tb rb nd1 = (Admitted bb ib vb, nd2)"
    and commits: "send_commit env ta' ra ba ia va nd2 = (Inr xa, nd3)" "send_commit env tb' rb bb ib vb nd3 = (Inr xb, nd4)"
    and fresh: "ba \<noteq> bb" "map_of (rg_bundles (an_registry nd)) ba = None" "map_of (rg_bundles (an_registry nd)) bb = None"
    and room: "rg_max_known (an_registry nd) = 0 \<or> length (rg_bundles (an_registry nd)) + 1 < rg_max_known (an_registry nd)"
    and slot: "non_terminal_count (an_registry nd) + 1 = ac_max_concurrent_distributions (an_config nd)"
  shows "non_terminal_count (an_registry nd4) = ac_max_concurrent_distributions (an_config nd) + 1"
proof -
  have nd1: "an_registry nd1 = an_registry nd"
    using admitted_inv(6) [OF admits(1)] fresh_resubmit [OF fresh(2)] by simp
  have nd2: "an_registry nd2 = an_registry nd"
    using admitted_inv(6) [OF admits(2)] fresh_resubmit fresh(3) nd1 by simp
  obtain ha where "an_registry nd3 = registry_insert (bundle_record_new ba ia ha ta') (an_registry nd2)"
    using commit_inv [OF commits(1)] by metis
  then have nd3: "rg_bundles (an_registry nd3) = rg_bundles (an_registry nd) @ [(ba, bundle_record_new ba ia ha ta')]"
    "rg_max_known (an_registry nd3) = rg_max_known (an_registry nd)"
    using insert_fresh [of "an_registry nd" "bundle_record_new ba ia ha ta'"] fresh room nd2
    by (auto simp: bundle_record_new_def)
  obtain hb where "an_registry nd4 = registry_insert (bundle_record_new bb ib hb tb') (an_registry nd3)"
    using commit_inv [OF commits(2)] by metis
  then have "rg_bundles (an_registry nd4) = rg_bundles (an_registry nd3) @ [(bb, bundle_record_new bb ib hb tb')]"
    using insert_fresh(1) [of "an_registry nd3" "bundle_record_new bb ib hb tb'"] fresh room nd3
    by (auto simp: bundle_record_new_def)
  then show ?thesis using nd3 slot by (simp add: non_terminal_count_def bundle_record_new_def)
qed


text \<open>At the cap even a resubmission that the registry would answer is rejected.\<close>

lemma resubmit_at_cap_rejected:
  assumes "has_roots (an_config nd)" "validate_request fs req (an_config nd) = Inr b" "\<not> ac_queue_when_full (an_config nd)"
    "non_terminal_count (an_registry nd) \<ge> ac_max_concurrent_distributions (an_config nd)"
  shows "send_attachments fs env uuid now now' req nd = (Inl (ResourceExhausted, CapReached), nd)"
  using assms by (simp add: send_attachments_def send_admit_def Let_def)

section \<open>Status\<close>

lemma aggregate_flags_eq:
  "aggregate_flags ps (failed, running, completed) =
    (failed \<or> (\<exists>p \<in> set ps. nt_status p = TransferFailed),
     running \<or> (\<exists>p \<in> set ps. nt_status p \<notin> {TransferFailed, TransferCompleted}),
     completed \<and> (\<forall>p \<in> set ps. nt_status p \<in> {TransferFailed, TransferCompleted}))"
proof (induction ps arbitrary: failed running completed)
  case (Cons p ps)
  then show ?case by (cases "nt_status p") auto
qed simp

text \<open>The aggregate is decided by the states present; its last branch is never taken.\<close>

lemma per_node_aggregate_eq:
  "per_node_aggregate ps =
    (if ps = [] then StatusPending
     else if \<exists>p \<in> set ps. nt_status p = TransferFailed then StatusFailed
     else if \<forall>p \<in> set ps. nt_status p = TransferCompleted then StatusCompleted
     else StatusInProgress)"
  by (auto simp: per_node_aggregate_def aggregate_flags_eq)

lemma finalize_status:
  "all_terminal u \<Longrightarrow> map_of (rg_bundles r) bid = Some rec \<Longrightarrow>
    map_of (rg_bundles (maybe_finalize_bundle now u bid r)) bid
      = Some (rec\<lparr>bn_status := final_status u, bn_last_touched_at := now\<rparr>)"
  by (simp add: maybe_finalize_bundle_def update_status_def set_record_def AList.update_conv')

lemma final_status_terminal: "bundle_is_terminal (final_status u)"
  by (simp add: final_status_def)

lemma commit_runtime:
  assumes "send_commit env now req bid ident b nd = (Inr resp, nd')"
  obtains u where "map_of (an_runtimes nd') bid = Some u" "bu_terminal_count u = 0" "bu_total u = length (snd resp)"
  using assms
  by (auto simp: send_commit_def Let_def build_response_def runtime_register_def AList.update_conv'
      split: prod.splits sum.splits)

text \<open>
  C40: A watcher keeps the runtime of its own bundle but finalizes by bundle identifier.  When an identifier is
  used again, a watcher of the earlier bundle that finishes late marks the new bundle with the earlier one's
  terminal status, while no distribution of the new bundle has ended.
\<close>

theorem stale_watcher_ends_new_bundle:
  assumes "send_commit env now req bid ident b nd = (Inr resp, nd')" "snd resp \<noteq> []" "all_terminal old"
  shows "\<exists>rec u. map_of (rg_bundles (maybe_finalize_bundle now' old bid (an_registry nd'))) bid = Some rec
    \<and> bn_status rec = final_status old \<and> bundle_is_terminal (bn_status rec)
    \<and> map_of (an_runtimes nd') bid = Some u \<and> \<not> all_terminal u"
proof -
  obtain hs where reg: "an_registry nd' = registry_insert (bundle_record_new bid ident hs now) (an_registry nd)"
    by (rule commit_inv [OF assms(1)])
  have "map_of (rg_bundles (an_registry nd')) bid = Some (bundle_record_new bid ident hs now)"
    using insert_present [of "bundle_record_new bid ident hs now"] reg by (simp add: bundle_record_new_def)
  note final = finalize_status [OF assms(3) this, of now']
  obtain u where "map_of (an_runtimes nd') bid = Some u" "bu_terminal_count u = 0" "bu_total u = length (snd resp)"
    by (rule commit_runtime [OF assms(1)])
  then show ?thesis using final assms(2) final_status_terminal by (auto simp: all_terminal_def)
qed

text \<open>
  Every peer of a node list that the document still lacks when the grace period ends is failed, once for
  each mention, no peer with an entry is touched, and a document that is not distributing is left alone.
\<close>

lemma grace_promotes_exactly:
  "set (map nt_node_id (grace_promotions p (Some (status, nodes))))
     = (if status = ''distributing'' then set (pt_declared p) - fst ` set nodes else {})
   \<and> (\<forall>n. n \<in> set (grace_promotions p (Some (status, nodes))) \<longrightarrow> per_node_aggregate [n] = StatusFailed)"
  by (auto simp: grace_promotions_def per_node_aggregate_eq map_of_eq_None_iff image_iff)

text \<open>A closed channel ends the loop without a terminal state, so the bundle stays in flight.\<close>

lemma closed_channel_leaves_bundle_open:
  "watcher_loop w [ChannelClosed] u = (True, u)
    \<and> (\<not> all_terminal u \<longrightarrow> maybe_finalize_bundle now u bid r = r)"
  by (simp add: maybe_finalize_bundle_def)

section \<open>Examples\<close>

definition sample_attachment_node :: "string list attachment_node" where
  "sample_attachment_node = \<lparr>an_config = sample_config\<lparr>ac_max_concurrent_distributions := 1\<rparr>, an_registry = registry_new 0 0,
     an_runtimes = [], an_store = [], an_queued = [], an_watchers = [], an_promoters = []\<rparr>"

definition request_as :: "string \<Rightarrow> send_request" where
  "request_as b = sample_request\<lparr>sq_bundle_id := Some b\<rparr>"

definition bundle_as :: "string \<Rightarrow> validated_bundle" where
  "bundle_as b = sample_bundle\<lparr>vb_bundle_id := Some b\<rparr>"

abbreviation sample_ident :: bundle_identity where
  "sample_ident \<equiv> map identity_from_validated (vb_files sample_bundle)"

lemma sample_validates:
  "validate_request sample_fs (request_as b) (sample_config\<lparr>ac_max_concurrent_distributions := n\<rparr>) = Inr (bundle_as b)"
  by (simp add: validate_request_def validate_file_def resolve_file_def validate_scope_def request_as_def bundle_as_def
      sample_request_defs sample_bundle_def lookup_root_def path_starts_with_def path_join_def components_def
      starts_with_def body_component_def List.map_filter_def)

lemma sample_has_roots: "has_roots (sample_config\<lparr>ac_max_concurrent_distributions := n\<rparr>)"
  by (simp add: has_roots_def sample_config_def attachment_limits.defs)

lemma sample_reject: "\<not> ac_queue_when_full (sample_config\<lparr>ac_max_concurrent_distributions := n\<rparr>)"
  by (simp add: sample_request_defs)

lemma sample_admit:
  assumes "b \<noteq> []" "an_config nd = sample_config\<lparr>ac_max_concurrent_distributions := n\<rparr>"
    "non_terminal_count (an_registry nd) < n" "map_of (rg_bundles (an_registry nd)) b = None"
  shows "send_admit sample_fs u t (request_as b) nd = (Admitted b sample_ident (bundle_as b), nd)"
proof -
  have "choose_bundle_id u (request_as b) = b" using assms(1) by (simp add: choose_bundle_id_def request_as_def)
  then show ?thesis
    using assms by (simp add: send_admit_def sample_has_roots sample_validates Let_def fresh_resubmit bundle_as_def)
qed

lemma sample_commit:
  "\<exists>resp nd'. send_commit list_store t (request_as b) b i (bundle_as b) nd = (Inr resp, nd') \<and> snd resp \<noteq> []
    \<and> an_config nd' = an_config nd"
  by (simp add: send_commit_def ingest_bundle_def ingest_file_def list_store_def bundle_as_def sample_bundle_def
      build_response_def build_handle_records_def Let_def)

lemma sample_node_admits: "b \<noteq> [] \<Longrightarrow> send_admit sample_fs u t (request_as b) sample_attachment_node = (Admitted b sample_ident (bundle_as b), sample_attachment_node)"
  by (rule sample_admit [where n = 1]) (simp_all add: sample_attachment_node_def registry_new_def non_terminal_count_def)

theorem send_within_cap_witness:
  "non_terminal_count (an_registry (snd (send_attachments sample_fs list_store ''u'' 0 1 (request_as ''b'') sample_attachment_node))) \<le> 1"
  using send_within_cap [of sample_fs list_store "''u''" 0 1 "request_as ''b''" sample_attachment_node
      "fst (send_attachments sample_fs list_store ''u'' 0 1 (request_as ''b'') sample_attachment_node)"
      "snd (send_attachments sample_fs list_store ''u'' 0 1 (request_as ''b'') sample_attachment_node)"]
    sample_reject [of 1]
  by (simp add: sample_attachment_node_def registry_new_def non_terminal_count_def)

lemma concurrent_sends_exceed_cap_witness:
  "\<exists>xa xb nd3 nd4. send_commit list_store 1 (request_as ''a'') ''a'' sample_ident (bundle_as ''a'') sample_attachment_node = (Inr xa, nd3)
    \<and> send_commit list_store 1 (request_as ''b'') ''b'' sample_ident (bundle_as ''b'') nd3 = (Inr xb, nd4)
    \<and> ac_max_concurrent_distributions (an_config sample_attachment_node) = 1 \<and> non_terminal_count (an_registry nd4) = 2"
proof -
  obtain xa nd3 where a: "send_commit list_store 1 (request_as ''a'') ''a'' sample_ident (bundle_as ''a'') sample_attachment_node = (Inr xa, nd3)"
    using sample_commit by blast
  obtain xb nd4 where b: "send_commit list_store 1 (request_as ''b'') ''b'' sample_ident (bundle_as ''b'') nd3 = (Inr xb, nd4)"
    using sample_commit by blast
  have cap: "ac_max_concurrent_distributions (an_config sample_attachment_node) = 1" by (simp add: sample_attachment_node_def)
  have "non_terminal_count (an_registry nd4) = ac_max_concurrent_distributions (an_config sample_attachment_node) + 1"
    by (rule concurrent_sends_exceed_cap [OF sample_node_admits sample_node_admits a b])
      (simp_all add: sample_attachment_node_def registry_new_def non_terminal_count_def)
  with a b cap show ?thesis by auto
qed


definition cancelled_runtime :: bundle_runtime where
  "cancelled_runtime = snd (apply_cancellation 0 (sample_frame ''d'' StatusCancelled)
     (runtime_register [fill_slot DistPending (sample_frame ''d'' StatusPending)]))"

theorem stale_watcher_ends_new_bundle_witness:
  "\<exists>resp nd' rec u. send_commit list_store 1 (request_as ''b'') ''b'' sample_ident (bundle_as ''b'') sample_attachment_node = (Inr resp, nd')
    \<and> map_of (rg_bundles (maybe_finalize_bundle 2 cancelled_runtime ''b'' (an_registry nd'))) ''b'' = Some rec
    \<and> bn_status rec = BundleCancelled \<and> map_of (an_runtimes nd') ''b'' = Some u \<and> \<not> all_terminal u"
proof -
  obtain resp nd' where commit: "send_commit list_store 1 (request_as ''b'') ''b'' sample_ident (bundle_as ''b'') sample_attachment_node = (Inr resp, nd')"
    and some: "snd resp \<noteq> []" using sample_commit by blast
  have "all_terminal cancelled_runtime" "final_status cancelled_runtime = BundleCancelled"
    by (simp_all add: cancelled_runtime_def apply_cancellation_def commit_slot_def runtime_register_def fill_slot_def
        all_terminal_def final_status_def)
  then show ?thesis using stale_watcher_ends_new_bundle [OF commit some, of cancelled_runtime 2] commit by metis
qed

definition sample_promoter :: promoter_task where
  "sample_promoter = \<lparr>pt_distribution_id = ''d'', pt_declared = [''p'', ''q''], pt_grace_secs = 30, pt_total_bytes = 3\<rparr>"

lemma grace_promotes_exactly_witness:
  "\<exists>n. n \<in> set (grace_promotions sample_promoter (Some (''distributing'', []))) \<and> per_node_aggregate [n] = StatusFailed"
proof -
  let ?n = "hd (grace_promotions sample_promoter (Some (''distributing'', [])))"
  have "?n \<in> set (grace_promotions sample_promoter (Some (''distributing'', [])))"
    by (simp add: grace_promotions_def sample_promoter_def)
  then show ?thesis using grace_promotes_exactly [of sample_promoter "''distributing''" "[]"] by blast
qed

end
