(* ===== verification/Attachment_Outbox.thy ===== *)
theory Attachment_Outbox
  imports Attachment_Handlers
begin

text \<open>
  The sending outbox (\<open>src/src/attachments/outbox.rs\<close>): it polls the attachment roots and hands every file
  that has not changed since the last poll to \<open>send_attachments\<close>.  Directories are trees, hashing a file is
  a parameter, and the versions handed over in a poll are an output.
\<close>

section \<open>Decisions\<close>

type_synonym version = "u64 \<times> int"

datatype outbox_decision_kind = SendFile | WaitFile | SkipFile

definition outbox_decision :: "version \<Rightarrow> version option \<Rightarrow> version option \<Rightarrow> outbox_decision_kind" where
  "outbox_decision current last_seen last_sent =
     (if last_sent = Some current then SkipFile else if last_seen = Some current then SendFile else WaitFile)"

definition prune_to_observed :: "string set \<Rightarrow> (string \<times> version) list \<Rightarrow> (string \<times> version) list" where
  "prune_to_observed observed m = filter (\<lambda>(p, _). p \<in> observed) m"

section \<open>Listing files\<close>

record found =
  fo_relative_path :: string
  fo_full_path :: string
  fo_version :: version

text \<open>
  A directory that cannot be read has no entries list, an entry may have no readable metadata, and a
  modification time may be missing; other kinds of entries, symbolic links among them, are passed over.
\<close>

datatype dir_entry =
    RegularFile string "(u64 \<times> int option) option"
  | Directory string "dir_entry list option"
  | OtherEntry string

definition to_forward :: "string \<Rightarrow> string" where
  "to_forward s = map (\<lambda>c. if c = CHR 0x5C then CHR ''/'' else c) s"

text \<open>One directory: the files found, and the directories to push, the last one on top.\<close>

fun walk_entries ::
  "string \<Rightarrow> string \<Rightarrow> dir_entry list \<Rightarrow> found list \<times> (string \<times> dir_entry list option) list \<Rightarrow> found list \<times> (string \<times> dir_entry list option) list" where
  "walk_entries root dir [] acc = acc"
| "walk_entries root dir (RegularFile n meta # es) (out, stack) =
     walk_entries root dir es
       (if starts_with n ''.'' then (out, stack)
        else case meta of
          None \<Rightarrow> (out, stack)
        | Some (len, mtime) \<Rightarrow>
            let rel = path_join dir n
            in (out @ [\<lparr>fo_relative_path = to_forward rel, fo_full_path = path_join root rel,
                  fo_version = (len, case mtime of Some t \<Rightarrow> t | None \<Rightarrow> 0)\<rparr>], stack))"
| "walk_entries root dir (Directory n sub # es) (out, stack) =
     walk_entries root dir es
       (if starts_with n ''.'' then (out, stack)
        else (out, (path_join dir n, sub) # stack))"
| "walk_entries root dir (OtherEntry n # es) acc = walk_entries root dir es acc"

fun entry_weight :: "dir_entry \<Rightarrow> nat" where
  "entry_weight (Directory n (Some es)) = 2 + sum_list (map entry_weight es)"
| "entry_weight (Directory n None) = 2"
| "entry_weight _ = 1"

definition stack_weight :: "(string \<times> dir_entry list option) list \<Rightarrow> nat" where
  "stack_weight stack =
     sum_list (map (\<lambda>(_, sub). 1 + (case sub of None \<Rightarrow> 0 | Some es \<Rightarrow> sum_list (map entry_weight es))) stack)"

lemma walk_entries_weight:
  "stack_weight (snd (walk_entries root dir es acc)) \<le> stack_weight (snd acc) + sum_list (map entry_weight es)"
proof (induction root dir es acc rule: walk_entries.induct)
  case (3 root dir n sub es out stack)
  then show ?case by (cases sub) (auto simp: stack_weight_def split: if_splits)
qed (auto simp: Let_def split: if_splits option.splits prod.splits)

function walk_stack :: "string \<Rightarrow> (string \<times> dir_entry list option) list \<Rightarrow> found list \<Rightarrow> found list" where
  "walk_stack root [] out = out"
| "walk_stack root ((dir, None) # stack) out = walk_stack root stack out"
| "walk_stack root ((dir, Some es) # stack) out =
     (let r = walk_entries root dir es (out, stack) in walk_stack root (snd r) (fst r))"
  by pat_completeness auto
termination
proof (relation "measure (\<lambda>(_, stack, _). stack_weight stack)", goal_cases)
  case (3 root dir es stack out r)
  then show ?case using walk_entries_weight [of root dir es "(out, stack)"] by (simp add: stack_weight_def)
qed (simp_all add: stack_weight_def)

definition walk_files :: "string \<Rightarrow> dir_entry list option \<Rightarrow> found list" where
  "walk_files root tree = walk_stack root [([], tree)] []"

section \<open>Polling\<close>

definition outbox_request :: "string \<Rightarrow> string \<Rightarrow> u64 \<Rightarrow> bytes \<Rightarrow> send_request" where
  "outbox_request root_name rel len sha256 =
     \<lparr>sq_files = [\<lparr>fp_root_name = root_name, fp_relative_path = rel, fp_size_bytes = len, fp_sha256 = sha256,
        fp_content_type = None, fp_display_name = None\<rparr>],
      sq_scope = Some (Some AllNodesScope), sq_bundle_id = None, sq_priority = None\<rparr>"

record outbox =
  ob_seen :: "(string \<times> version) list"
  ob_sent :: "(string \<times> version) list"

type_synonym 's poll_state = "outbox \<times> (string \<times> version) list \<times> 's"

text \<open>The answer of \<open>send\<close> is only logged.\<close>

definition outbox_file ::
  "(string \<Rightarrow> bytes option) \<Rightarrow> (send_request \<Rightarrow> 's \<Rightarrow> 'r \<times> 's) \<Rightarrow> string \<times> found \<Rightarrow> 's poll_state \<Rightarrow> 's poll_state" where
  "outbox_file hash send rf st =
     (case (rf, st) of ((root_name, f), (ob, handed, s)) \<Rightarrow>
        let p = fo_full_path f; current = fo_version f;
            decision = outbox_decision current (map_of (ob_seen ob) p) (map_of (ob_sent ob) p);
            ob1 = ob\<lparr>ob_seen := AList.update p current (ob_seen ob)\<rparr>
        in if decision \<noteq> SendFile then (ob1, handed, s)
           else case hash p of
             None \<Rightarrow> (ob1, handed, s)
           | Some sha \<Rightarrow>
               (ob1\<lparr>ob_sent := AList.update p current (ob_sent ob1)\<rparr>, handed @ [(p, current)],
                snd (send (outbox_request root_name (fo_relative_path f) (fst current) sha) s)))"

definition outbox_poll ::
  "(string \<Rightarrow> bytes option) \<Rightarrow> (send_request \<Rightarrow> 's \<Rightarrow> 'r \<times> 's) \<Rightarrow> (string \<times> found) list \<Rightarrow> outbox \<times> 's
    \<Rightarrow> (string \<times> version) list \<times> outbox \<times> 's" where
  "outbox_poll hash send files obs =
     (case fold (outbox_file hash send) files (fst obs, [], snd obs) of (ob, handed, s) \<Rightarrow>
        let observed = set (map (\<lambda>(_, f). fo_full_path f) files)
        in (handed, \<lparr>ob_seen = prune_to_observed observed (ob_seen ob), ob_sent = prune_to_observed observed (ob_sent ob)\<rparr>, s))"

definition poll_files :: "(string \<times> string \<times> dir_entry list option) list \<Rightarrow> (string \<times> found) list" where
  "poll_files roots = concat (map (\<lambda>(root_name, root, tree). map (Pair root_name) (walk_files root tree)) roots)"

fun outbox_run ::
  "(string \<Rightarrow> bytes option) \<Rightarrow> (send_request \<Rightarrow> 's \<Rightarrow> 'r \<times> 's) \<Rightarrow> (string \<times> found) list list \<Rightarrow> outbox \<times> 's
    \<Rightarrow> (string \<times> version) list \<times> outbox \<times> 's" where
  "outbox_run hash send [] obs = ([], obs)"
| "outbox_run hash send (fs # polls) obs =
     (case outbox_poll hash send fs obs of (handed, obs1) \<Rightarrow>
        case outbox_run hash send polls obs1 of (later, obs2) \<Rightarrow> (handed @ later, obs2))"

section \<open>One path\<close>

abbreviation seen_at :: "outbox \<Rightarrow> string \<Rightarrow> version option" where
  "seen_at ob p \<equiv> map_of (ob_seen ob) p"

abbreviation sent_at :: "outbox \<Rightarrow> string \<Rightarrow> version option" where
  "sent_at ob p \<equiv> map_of (ob_sent ob) p"

abbreviation handed_at :: "string \<Rightarrow> (string \<times> version) list \<Rightarrow> (string \<times> version) list" where
  "handed_at p \<equiv> filter (\<lambda>h. fst h = p)"

lemma map_of_prune: "map_of (prune_to_observed obs m) p = (if p \<in> obs then map_of m p else None)"
  by (induction m) (auto simp: prune_to_observed_def)

lemma outbox_file_other:
  "outbox_file hash send rf (ob, handed, s) = (ob', handed', s') \<Longrightarrow> fo_full_path (snd rf) \<noteq> p \<Longrightarrow>
    seen_at ob' p = seen_at ob p \<and> sent_at ob' p = sent_at ob p \<and> handed_at p handed' = handed_at p handed"
  by (auto simp: outbox_file_def Let_def AList.update_conv' split: prod.splits if_splits option.splits)

lemma outbox_files_other:
  "fold (outbox_file hash send) fs (ob, handed, s) = (ob', handed', s') \<Longrightarrow> p \<notin> (fo_full_path \<circ> snd) ` set fs \<Longrightarrow>
    seen_at ob' p = seen_at ob p \<and> sent_at ob' p = sent_at ob p \<and> handed_at p handed' = handed_at p handed"
proof (induction fs arbitrary: ob handed s)
  case (Cons rf fs)
  obtain ob1 handed1 s1 where one: "outbox_file hash send rf (ob, handed, s) = (ob1, handed1, s1)"
    by (metis prod_cases3)
  show ?case
    using outbox_file_other [OF one, of p] Cons.IH [of ob1 handed1 s1] Cons.prems one by auto
qed simp

definition hands_over :: "outbox \<Rightarrow> string \<Rightarrow> version \<Rightarrow> bool" where
  "hands_over ob p v \<longleftrightarrow> seen_at ob p = Some v \<and> sent_at ob p \<noteq> Some v"

lemma outbox_file_same:
  "outbox_file hash send rf (ob, handed, s) = (ob', handed', s') \<Longrightarrow> fo_full_path (snd rf) = p \<Longrightarrow>
    fo_version (snd rf) = v \<Longrightarrow> hash p \<noteq> None \<Longrightarrow>
    seen_at ob' p = Some v \<and> sent_at ob' p = (if hands_over ob p v then Some v else sent_at ob p)
    \<and> handed_at p handed' = handed_at p handed @ (if hands_over ob p v then [(p, v)] else [])"
  by (auto simp: outbox_file_def outbox_decision_def hands_over_def Let_def AList.update_conv'
      split: prod.splits if_splits option.splits)

text \<open>The path is listed exactly once, at that version.\<close>

definition lists_once :: "string \<Rightarrow> version \<Rightarrow> (string \<times> found) list \<Rightarrow> bool" where
  "lists_once p v fs \<longleftrightarrow> map (\<lambda>rf. fo_version (snd rf)) (filter (\<lambda>rf. fo_full_path (snd rf) = p) fs) = [v]"

lemma lists_once_split:
  assumes "lists_once p v fs"
  obtains xs rf ys where "fs = xs @ rf # ys" "fo_full_path (snd rf) = p" "fo_version (snd rf) = v"
    "p \<notin> (fo_full_path \<circ> snd) ` set xs" "p \<notin> (fo_full_path \<circ> snd) ` set ys"
proof -
  obtain rf where "filter (\<lambda>rf. fo_full_path (snd rf) = p) fs = rf # []" and v: "fo_version (snd rf) = v"
    using assms by (auto simp: lists_once_def)
  then obtain xs ys where split: "fs = xs @ rf # ys" "\<forall>x \<in> set xs. fo_full_path (snd x) \<noteq> p" "fo_full_path (snd rf) = p"
    "[] = filter (\<lambda>rf. fo_full_path (snd rf) = p) ys" by (auto simp: filter_eq_Cons_iff)
  have "p \<notin> (fo_full_path \<circ> snd) ` set xs" using split(2) by auto
  moreover have "p \<notin> (fo_full_path \<circ> snd) ` set ys" using split(4) [symmetric] by (auto simp: filter_empty_conv)
  ultimately show ?thesis using that [OF split(1,3) v] by blast
qed

lemma outbox_poll_once:
  assumes "lists_once p v fs" "hash p \<noteq> None" "outbox_poll hash send fs (ob, s) = (handed, ob', s')"
  shows "seen_at ob' p = Some v" "sent_at ob' p = (if hands_over ob p v then Some v else sent_at ob p)"
    "handed_at p handed = (if hands_over ob p v then [(p, v)] else [])"
proof -
  obtain xs rf ys where fs: "fs = xs @ rf # ys" and rf: "fo_full_path (snd rf) = p" "fo_version (snd rf) = v"
    and other: "p \<notin> (fo_full_path \<circ> snd) ` set xs" "p \<notin> (fo_full_path \<circ> snd) ` set ys"
    by (rule lists_once_split [OF assms(1)])
  obtain ob1 h1 s1 where 1: "fold (outbox_file hash send) xs (ob, [], s) = (ob1, h1, s1)" by (metis prod_cases3)
  obtain ob2 h2 s2 where 2: "outbox_file hash send rf (ob1, h1, s1) = (ob2, h2, s2)" by (metis prod_cases3)
  obtain ob3 h3 s3 where 3: "fold (outbox_file hash send) ys (ob2, h2, s2) = (ob3, h3, s3)" by (metis prod_cases3)
  have obs: "p \<in> set (map (\<lambda>(_, f). fo_full_path f) fs)" using fs rf by (cases rf) auto
  have res: "handed = h3" "seen_at ob' p = seen_at ob3 p" "sent_at ob' p = sent_at ob3 p"
    using assms(3) 1 2 3 obs by (auto simp: outbox_poll_def fs Let_def map_of_prune)
  note facts = outbox_files_other [OF 1 other(1)] outbox_file_same [OF 2 rf assms(2)] outbox_files_other [OF 3 other(2)]
  have same: "hands_over ob1 p v = hands_over ob p v" using facts by (simp add: hands_over_def)
  show "seen_at ob' p = Some v" "sent_at ob' p = (if hands_over ob p v then Some v else sent_at ob p)"
    "handed_at p handed = (if hands_over ob p v then [(p, v)] else [])"
    using facts res same by simp_all
qed

lemma run_settled:
  assumes "\<forall>fs \<in> set polls. lists_once p v fs" "hash p \<noteq> None" "sent_at ob p = Some v"
    "outbox_run hash send polls (ob, s) = (handed, ob', s')"
  shows "handed_at p handed = []"
  using assms
proof (induction polls arbitrary: ob s handed)
  case (Cons fs polls)
  obtain h1 ob1 s1 where one: "outbox_poll hash send fs (ob, s) = (h1, ob1, s1)" by (metis prod_cases3)
  obtain h2 ob2 s2 where rest: "outbox_run hash send polls (ob1, s1) = (h2, ob2, s2)" by (metis prod_cases3)
  note facts = outbox_poll_once [of p v fs hash, OF _ Cons.prems(2) one]
  have "sent_at ob1 p = Some v" "handed_at p h1 = []" using facts Cons.prems by (auto simp: hands_over_def)
  then show ?case using Cons.IH [of ob1 s1 h2] Cons.prems one rest by auto
qed simp

section \<open>Properties\<close>


lemma at_cap_unchanged:
  "\<not> ac_queue_when_full (an_config nd) \<Longrightarrow> non_terminal_count (an_registry nd) \<ge> ac_max_concurrent_distributions (an_config nd)
    \<Longrightarrow> snd (send_attachments fs env uuid now now' req nd) = nd"
  by (auto simp: send_attachments_def send_admit_def Let_def split: sum.splits)

lemma outbox_files_keep:
  "(\<And>req. snd (send req s) = s) \<Longrightarrow> snd (snd (fold (outbox_file hash send) fs (ob, handed, s))) = s"
proof (induction fs arbitrary: ob handed)
  case (Cons rf fs)
  obtain ob1 h1 s1 where one: "outbox_file hash send rf (ob, handed, s) = (ob1, h1, s1)" by (metis prod_cases3)
  then have "s1 = s" using Cons.prems by (auto simp: outbox_file_def Let_def split: prod.splits if_splits option.splits)
  then show ?case using Cons one by simp
qed simp

text \<open>
  A file handed over while the cap on concurrent distributions is reached is turned away, the node is as it
  was, and yet no later poll hands that version over again, whatever becomes of the node in between.
\<close>

lemma rejected_file_not_retried:
  assumes "lists_once p v fs" "hands_over ob p v" "hash p \<noteq> None"
    and cap: "\<not> ac_queue_when_full (an_config nd)"
      "non_terminal_count (an_registry nd) \<ge> ac_max_concurrent_distributions (an_config nd)"
    and poll: "outbox_poll hash (send_attachments view env uuid now now') fs (ob, nd) = (handed, ob1, nd1)"
    and later: "\<forall>gs \<in> set polls. lists_once p v gs" "outbox_run hash send polls (ob1, nd2) = (others, ob2, nd3)"
  shows "handed_at p handed = [(p, v)] \<and> nd1 = nd \<and> handed_at p others = []"
proof -
  have "nd1 = snd (snd (fold (outbox_file hash (send_attachments view env uuid now now')) fs (ob, [], nd)))"
    using poll by (auto simp: outbox_poll_def Let_def split: prod.splits)
  then have "nd1 = nd" using outbox_files_keep [of "send_attachments view env uuid now now'" nd] at_cap_unchanged [OF cap] by simp
  moreover have "handed_at p handed = [(p, v)]" "sent_at ob1 p = Some v"
    using outbox_poll_once [OF assms(1,3) poll] assms(2) by simp_all
  ultimately show ?thesis using run_settled [OF later(1) assms(3) _ later(2)] by simp
qed

text \<open>A file that two nested roots both list is handed over at first sight.\<close>

lemma nested_roots_skip_wait:
  assumes "fo_full_path f = p" "fo_full_path g = p" "fo_version f = v" "fo_version g = v" "hash p = Some sha"
  shows "fst (outbox_poll hash send [(r, f), (q, g)] (\<lparr>ob_seen = [], ob_sent = []\<rparr>, s)) = [(p, v)]"
  using assms by (simp add: outbox_poll_def outbox_file_def outbox_decision_def Let_def)

section \<open>Examples\<close>

definition sample_found :: "(string \<times> found) list" where
  "sample_found = poll_files [(''out'', ''/o'', Some [RegularFile ''.tmp'' (Some (1, None)), RegularFile ''f'' (Some (3, Some 7))])]"

lemma sample_found_once: "lists_once ''/o/f'' (3, 7) sample_found"
  by (simp add: sample_found_def poll_files_def walk_files_def lists_once_def starts_with_def path_join_def Let_def)


lemma rejected_file_not_retried_witness:
  "\<exists>handed ob1 others ob2. outbox_poll (\<lambda>_. Some []) (send_attachments sample_fs list_store ''u'' 0 1) sample_found
      (\<lparr>ob_seen = [(''/o/f'', 3, 7)], ob_sent = []\<rparr>, sample_attachment_node\<lparr>an_config := sample_config\<lparr>ac_max_concurrent_distributions := 0\<rparr>\<rparr>)
      = (handed, ob1, sample_attachment_node\<lparr>an_config := sample_config\<lparr>ac_max_concurrent_distributions := 0\<rparr>\<rparr>)
    \<and> handed_at ''/o/f'' handed = [(''/o/f'', 3, 7)]
    \<and> outbox_run (\<lambda>_. Some []) (send_attachments sample_fs list_store ''u'' 0 1) [sample_found] (ob1, sample_attachment_node) = (others, ob2)
    \<and> handed_at ''/o/f'' others = []"
proof -
  let ?ob = "\<lparr>ob_seen = [(''/o/f'', 3, 7)], ob_sent = []\<rparr>"
  let ?nd = "sample_attachment_node\<lparr>an_config := sample_config\<lparr>ac_max_concurrent_distributions := 0\<rparr>\<rparr>"
  let ?send = "send_attachments sample_fs list_store ''u'' 0 1"
  obtain handed ob1 nd1 where poll: "outbox_poll (\<lambda>_. Some []) ?send sample_found (?ob, ?nd) = (handed, ob1, nd1)"
    by (metis prod_cases3)
  obtain others ob2 nd3 where run: "outbox_run (\<lambda>_. Some []) ?send [sample_found] (ob1, sample_attachment_node) = (others, ob2, nd3)"
    by (metis prod_cases3)
  have "handed_at ''/o/f'' handed = [(''/o/f'', 3, 7)] \<and> nd1 = ?nd \<and> handed_at ''/o/f'' others = []"
    by (rule rejected_file_not_retried [OF sample_found_once _ _ _ _ poll _ run])
      (simp_all add: hands_over_def sample_reject sample_found_once)
  then show ?thesis using poll run by blast
qed

end
