(* ===== verification/Spec2Isabelle.thy ===== *)
theory Spec2Isabelle
  imports Node_Process Cli_Run Attachment_Inbox Attachment_Outbox Node_Changes Ledger_Isolation Bridge_Config Bridge_Shutdown Query_Matcher Relay_Fanout
begin

text \<open>
  Verification of peat-node, a mesh node that keeps JSON documents in a replicated store and can bridge
  collections to NATS subjects.

  \<^bold>\<open>The program.\<close>  Clients create, read and delete documents through the node (\<open>src/src/node.rs\<close>), which
  may encrypt them (\<open>crypto.rs\<close>), filters change streams by queries (\<open>query.rs\<close>) and relays changes to
  peers by priority (\<open>fanout.rs\<close>).  The bridge (\<open>src/src/nats_bridge/\<close>) stores messages of mapped subjects as
  documents (ingress), publishes documents of other nodes on NATS (egress), and scans for changes it
  missed (reconciliation).  Two journals on disk make this safe: before a local document is written
  its digest is recorded in the exclusion journal, and before a remote one is published its digest is
  reserved in the delivery journal.  A supervisor follows the NATS connection and confirms the
  subscriptions by a broker round trip before the bridge counts as ready.  Attachments
  (\<open>src/src/attachments/\<close>) are bundles of files: a call, or the outbox that polls directories, has them validated,
  put into a blob store and distributed to peers, a registry and a runtime per bundle follow the
  distributions, and the inbox of a receiver publishes what arrives.  The RPC service (\<open>service.rs\<close>) offers all this to
  clients, a watcher copies the state of a co-located agent into documents, and the command line program
  (\<open>src/crates/peat-cli/\<close>) joins the mesh as a node of its own to read and write documents.

  \<^bold>\<open>Theories and sources.\<close>
  \<^item> \<open>Peat_Prelude\<close>: saturating counters, byte codecs, runs of step relations, the contract \<open>grant_once\<close>.
  \<^item> \<open>Ledger_Codec\<close>, \<open>Ledger_Disk\<close>, \<open>Ledger_Journal\<close>, \<open>Ledger_Crash\<close>, \<open>Ledger_Session\<close>, \<open>Ledger_Worker\<close>,
    \<open>Ledger_Durable\<close>, \<open>Ledger_Isolation\<close>: \<open>nats_bridge/ledger.rs\<close>, from record bytes over a disk with failing
    calls and crashes to the worker threads.  They show that an acknowledged record survives a crash,
    that a digest is granted at most once over crashes and restarts, that a failed worker refuses all
    later work, that the two journals do not disturb each other, and where a journal becomes unreadable.
  \<^item> \<open>Bridge_Config\<close>: \<open>nats_bridge/config.rs\<close>; accepted configurations have sound routes, rejected ones say why.
  \<^item> \<open>Json\<close>, \<open>Store_Crypto\<close>, \<open>Query_Matcher\<close>, \<open>Relay_Fanout\<close>: JSON values, \<open>crypto.rs\<close>, \<open>query.rs\<close> and \<open>fanout.rs\<close>;
    round trip of encryption, exactness of query building, and bounded waiting, coverage and complete
    draining of the relay queue.
  \<^item> \<open>Node_Preflight\<close>, \<open>Node_Store\<close>: document limits and document operations of \<open>node.rs\<close>; no mapped document
    is written before its exclusion is recorded.
  \<^item> \<open>Rate_Limit\<close>: the warning buckets, with the contract \<open>rate_limiter\<close> that ingress and egress interpret.
  \<^item> \<open>Bridge_Ingress\<close>, \<open>Bridge_Readiness\<close>, \<open>Bridge_Egress\<close>, \<open>Egress_Once\<close>, \<open>Bridge_Reconcile\<close>, \<open>Reconcile_Trigger\<close>:
    \<open>envelope.rs\<close>, \<open>ingress.rs\<close>, \<open>readiness.rs\<close>, \<open>egress.rs\<close> and \<open>reconcile.rs\<close>; accounting of received messages,
    readiness as a history, publication at most once, completeness of a scan, and no lost trigger.
  \<^item> \<open>Bridge_Lifecycle\<close>, \<open>Bridge_Supervisor\<close>, \<open>Bridge_Shutdown\<close>: \<open>runtime.rs\<close> and the counters of \<open>operations.rs\<close>;
    a ready bridge rests on a round trip after the last callback, becoming ready triggers a scan, and
    shutdown succeeds exactly when everything was joined.
  \<^item> \<open>Node_Changes\<close>: the forwarding of store notifications in \<open>node.rs\<close> and its discovery decisions; a remote change
    reaches the bridge exactly as a reconciliation scan would read it, and warnings are spaced.
  \<^item> \<open>Attachment_Config\<close>, \<open>Attachment_Validate\<close>: \<open>config.rs\<close> with Unix paths, and \<open>validate.rs\<close>; exactly the requests
    that satisfy every rule are accepted.
  \<^item> \<open>Attachment_Registry\<close>, \<open>Attachment_Progress\<close>: \<open>registry.rs\<close> refines a table of bundles with an exact index;
    \<open>runtime.rs\<close> and the subscription of \<open>handlers.rs\<close>, when a stream closes and when it closes too early.
  \<^item> \<open>Attachment_Ingest\<close>, \<open>Attachment_Inbox\<close>: \<open>ingest.rs\<close> and \<open>inbox.rs\<close>; which blobs a failed ingest may delete,
    confinement to the inbox, atomic publication, and the same relative path at both ends.
  \<^item> \<open>Attachment_Handlers\<close>, \<open>Attachment_Outbox\<close>: \<open>handlers.rs\<close> and \<open>outbox.rs\<close>; the cap on bundles in flight with and
    without overlapping calls, idempotent sending, late watchers, and how often a file is handed over.
  \<^item> \<open>Rpc_Service\<close>: \<open>service.rs\<close> and the collection configurations of \<open>node.rs\<close>; the types and round trips of the four
    typed messages, a put message is listed, a subscription sends exactly what it should, and which
    configurations survive a restart.
  \<^item> \<open>Cli_Commands\<close>, \<open>Cli_Run\<close>: \<open>crates/peat-cli\<close>; argument grammars and the documents \<open>create\<close> and \<open>update\<close> build, then the
    commands on the store: a strict create, an answer by the deadline, and an \<open>observe\<close> that misses nothing.
  \<^item> \<open>Node_Peers\<close>: the peers of \<open>node.rs\<close>; a dropped peer is dialled again within the longest pause under any interleaving,
    a disconnect during a dial is undone, and one failed dial excludes a discovered peer for good.
  \<^item> \<open>Node_Process\<close>: \<open>identity.rs\<close>, \<open>watcher.rs\<close> and the decisions of \<open>main.rs\<close>; the identity computed offline is the one
    a node has, printed settings do not depend on secrets, and when a process ends cleanly.
  This theory joins egress and ingress: a node never stores what it published itself.

  \<^bold>\<open>Conventions.\<close>  Strings are lists of bytes, \<open>u64\<close> counters 64-bit words that wrap or saturate as the code
  has it, hash maps association lists or maps, errors the left of a sum.  Locks make their critical
  sections single steps.  SHA-256, AES-GCM, serde, the NATS client, the Automerge store and the URL parser
  are parameters; hypotheses on them state their documented behaviour.

  \<^bold>\<open>Bounds and simplifications.\<close>  The sequence and drop counters of the relay queue, sizes in preflight and
  task counts of a shutdown are natural numbers.  \<open>run_egress_worker\<close> takes the times of its rounds, one per
  round, and a lemma shows that as many times as queued items drain the queue.  The supervisor's
  handlers run without a callback in between; the barrier commit rereads the state under the lock.
  The epochs are assumed not to saturate (fewer than \<open>2 ^ 64 - 1\<close> callbacks), and connections to be
  announced once each; \<open>lost_disconnect_skips_reconciliation\<close> shows what happens otherwise.  The bridge of
  \<open>Egress_Once\<close> has the delivery journal's directory to itself, and the exclusion lookup of a scan never reaches the disk.
  Counts and configured limits of attachments other than byte sizes are natural numbers and times integers.
  Sending and cancelling are atomic up to their await and after it; listing directories terminates because they
  are finite trees.  The blob store reads a file to its end, so the hash is that of the content.

  The reads of a listing or of a snapshot are numbered, and \<open>view k\<close> is the node at the \<open>k\<close>-th; a round trip of a typed
  message is stated for a text that parses to the fields written, since the JSON library may
  return a float that differs in its last digit.  A poll of the agent has one clock reading.  The polls of a query
  and the events of \<open>observe\<close> are lists, and None says that the loop has not ended; a list with a poll
  past the deadline is enough for an answer.  A call that connects a peer is one step; the watchdog is not, its dials
  alternate with everything else.  A dial has three attempts, so its loop ends.

  \<^bold>\<open>Not modelled.\<close>  Construction of the node in \<open>node.rs\<close>, with the calls of the RPC service on status; spawning of the bridge's tasks and its log output; opening the journal directory component by
  component; removing a bundle's runtime entry, which nothing calls; argument parsing by clap, listeners and
  signals of the two programs; joining the mesh as a whole, waiting for peers, terminal output,
  schema display and most of the attach commands of the command line program.  These are calls into the network, the
  file system, generated code or a terminal, with little logic of their own.
\<close>

section \<open>No echo\<close>

text \<open>A NATS client that also keeps the messages handed to it.\<close>

definition recorded :: "'p nats_client \<Rightarrow> ('p \<times> nats_message list) nats_client" where
  "recorded nc =
     \<lparr>nc_publish = (\<lambda>subj hs payload (c, sent).
        case nc_publish nc subj hs payload c of
          (r, c') \<Rightarrow> (r, c', sent @ [\<lparr>nm_subject = subj, nm_headers = Some hs, nm_payload = payload\<rparr>])),
      nc_flush = (\<lambda>(c, sent). case nc_flush nc c of (r, c') \<Rightarrow> (r, c', sent)),
      nc_connected = (\<lambda>(c, sent). nc_connected nc c)\<rparr>"

lemma egress_publish_sends:
  "snd (eg_client (snd (egress_publish (recorded nc) origin item st))) \<in>
     {snd (eg_client st), snd (eg_client st) @ [\<lparr>nm_subject = ei_subject item,
        nm_headers = Some [(BRIDGE_ORIGIN_HEADER, origin)], nm_payload = ei_payload item\<rparr>]}"
  by (cases "eg_client st")
    (auto simp: egress_publish_def publisher_publish_def publisher_flush_def recorded_def
      split: prod.split option.split flush_result.split)

text \<open>
  C6: Whatever the egress worker hands to the NATS client, a subscription reader of the same node that
  receives it back queues nothing for storing: it counts a suppressed message, or has stopped.
\<close>

theorem own_publication_suppressed:
  assumes "m \<in> set (snd (eg_client (snd (egress_publish (recorded nc) origin item st))))"
    and "m \<notin> set (snd (eg_client st))"
  shows "read_message accepting origin coll now m (stats, limiter)
    = (if accepting then (Consumed None, record_self_suppressed stats, limiter) else (ReaderBreaks, stats, limiter))"
  using assms egress_publish_sends [of nc origin item st]
  by (auto simp: read_message_def has_exact_own_origin_def)

definition quiet_client :: "unit nats_client" where
  "quiet_client = \<lparr>nc_publish = (\<lambda>_ _ _ c. (None, c)), nc_flush = (\<lambda>c. (Flushed, c)), nc_connected = (\<lambda>_. True)\<rparr>"

theorem own_publication_suppressed_witness:
  "\<exists>w d m. m \<in> set (snd (eg_client (snd (egress_publish (recorded quiet_client) ''b'' (sample_item sample_sha)
       (egress_new sample_routes ''b'' sample_ready w d ((), []))))))
     \<and> read_message True ''b'' ''c'' 0 m (zero_stats, []) = (Consumed None, record_self_suppressed zero_stats, [])"
proof -
  fix w d
  let ?st = "egress_new sample_routes ''b'' sample_ready w d ((), [])"
  let ?m = "\<lparr>nm_subject = ''s'', nm_headers = Some [(BRIDGE_ORIGIN_HEADER, ''b'')], nm_payload = as_bytes ''1''\<rparr>"
  have sent: "?m \<in> set (snd (eg_client (snd (egress_publish (recorded quiet_client) ''b'' (sample_item sample_sha) ?st))))"
    using sample_ready_is_ready
    by (simp add: egress_publish_def publisher_publish_def publisher_flush_def recorded_def quiet_client_def
        egress_new_def sample_item_def)
  have "?m \<notin> set (snd (eg_client ?st))" by (simp add: egress_new_def)
  from own_publication_suppressed [OF sent this, of True "''c''" 0 zero_stats "[]"] sent
  show ?thesis by (simp only: if_True) blast
qed

end
